(* ===== verification/Prelude.thy ===== *)
theory Prelude
  imports Main "HOL-Library.AList" "HOL-Library.Word"
begin

text \<open>
  Shared vocabulary of the development.

  \<^item> machine integers: \<open>unsigned\<close> is \<open>u32\<close>, \<open>unsigned long long\<close> and
    \<open>size_t\<close> are \<open>u64\<close>; arithmetic on them wraps as in C++;
  \<^item> \<open>std::unordered_map\<close> is an association list \<open>umap\<close> and \<open>std::unordered_set\<close>
    a list \<open>uset\<close>, both kept free of duplicates; the order of the list is the
    iteration order, which the standard leaves open, so a statement about all lists is
    a statement about all iteration orders;
  \<^item> faults: an out-of-range index, an exception of \<open>std::stoi\<close>, a division by zero,
    a conversion out of range, an invalid iterator, a failed assertion, a null serializer and a loop that does not end are values of \<open>fault\<close>;
    an operation that can run into one has a result of type \<open>'a res\<close>;
  \<^item> \<open>std::to_string\<close>, \<open>std::stoi\<close> and the \<open>getline\<close> loop that splits a string.
\<close>

unbundle bit_operations_syntax

named_theorems umap_simps \<open>lookup equations of the container operations\<close>
named_theorems wf_intros \<open>preservation of duplicate freedom by the container operations\<close>

section \<open>Machine integers\<close>

type_synonym u32 = "32 word"
type_synonym u64 = "64 word"

section \<open>Faults\<close>

datatype fault =
    Undefined_index    \<comment> \<open>reading past the end of a vector\<close>
  | Invalid_argument   \<comment> \<open>\<open>std::invalid_argument\<close> of \<open>stoi\<close>\<close>
  | Out_of_range       \<comment> \<open>\<open>std::out_of_range\<close> of \<open>stoi\<close>\<close>
  | Bad_tier           \<comment> \<open>a tier variable left unset by \<open>Tier_Parse\<close>\<close>
  | Div_by_zero        \<comment> \<open>\<open>% threads.size()\<close> with no threads\<close>
  | Bad_conversion     \<comment> \<open>a \<open>double\<close> outside the integer type it is converted to\<close>
  | Invalid_iterator   \<comment> \<open>a vector that grows while a loop runs over it\<close>
  | Assertion_failed   \<comment> \<open>an \<open>assert\<close> that does not hold\<close>
  | Null_serializer    \<comment> \<open>a call through a null \<open>Serializer\<close> pointer\<close>
  | Diverges           \<comment> \<open>a loop that does not end\<close>

type_synonym 'a res = "fault + 'a"

definition ebind :: "'a res \<Rightarrow> ('a \<Rightarrow> 'b res) \<Rightarrow> 'b res" where
  "ebind r f = (case r of Inl e \<Rightarrow> Inl e | Inr x \<Rightarrow> f x)"

declare ebind_def [code_unfold]

lemma ebind_simps [simp]: "ebind (Inr x) f = f x" "ebind (Inl e) f = Inl e"
  by (simp_all add: ebind_def)

lemma ebind_Inr_iff: "ebind r f = Inr y \<longleftrightarrow> (\<exists>x. r = Inr x \<and> f x = Inr y)"
  by (cases r) auto

lemma ebind_cong [fundef_cong]:
  "r = r' \<Longrightarrow> (\<And>x. r' = Inr x \<Longrightarrow> f x = f' x) \<Longrightarrow> ebind r f = ebind r' f'"
  by (cases r') auto

text \<open>A \<open>for\<close> loop whose body may fault.\<close>

fun efold :: "('a \<Rightarrow> 's \<Rightarrow> 's res) \<Rightarrow> 'a list \<Rightarrow> 's \<Rightarrow> 's res" where
  "efold f [] s = Inr s"
| "efold f (x # xs) s = ebind (f x s) (efold f xs)"

lemma efold_append: "efold f (xs @ ys) s = ebind (efold f xs s) (efold f ys)"
  by (induction xs arbitrary: s) (auto simp: ebind_def split: sum.splits)

lemma efold_invariant:
  assumes "efold f xs s = Inr t" and "P s"
    and "\<And>x a b. x \<in> set xs \<Longrightarrow> P a \<Longrightarrow> f x a = Inr b \<Longrightarrow> P b"
  shows "P t"
  using assms
proof (induction xs arbitrary: s)
  case Nil
  then show ?case by simp
next
  case (Cons x xs)
  from Cons.prems(1) obtain u where u: "f x s = Inr u" "efold f xs u = Inr t"
    by (auto simp: ebind_Inr_iff)
  have "P u" by (rule Cons.prems(3) [OF _ Cons.prems(2) u(1)]) simp
  from u(2) this show ?case
    by (rule Cons.IH) (rule Cons.prems(3); simp)
qed

text \<open>A fold reaches each of its elements, and what holds after one of them is kept by the others.\<close>

lemma efold_reaches:
  assumes "efold f xs s = Inr s'" and "x \<in> set xs"
    and "\<And>s s'. f x s = Inr s' \<Longrightarrow> Q s'" and "\<And>y s s'. y \<in> set xs \<Longrightarrow> f y s = Inr s' \<Longrightarrow> Q s \<Longrightarrow> Q s'"
  shows "Q s'"
  using assms
proof (induction xs arbitrary: s)
  case (Cons y xs)
  from Cons.prems(1) obtain s1 where s1: "f y s = Inr s1" "efold f xs s1 = Inr s'" by (auto simp: ebind_Inr_iff)
  show ?case
  proof (cases "x \<in> set xs")
    case True
    show ?thesis by (rule Cons.IH [OF s1(2) True]) (auto intro: Cons.prems(3) Cons.prems(4) [rotated])
  next
    case False
    with Cons.prems(2,3) s1(1) have "Q s1" by auto
    with s1(2) show ?thesis by (rule efold_invariant) (use Cons.prems(4) in auto)
  qed
qed simp

text \<open>A loop invariant of a \<open>for\<close> loop that cannot fault.\<close>

lemma fold_invariant_list:
  assumes "P s" and "\<And>x a. x \<in> set xs \<Longrightarrow> P a \<Longrightarrow> P (f x a)"
  shows "P (fold f xs s)"
  using assms by (induction xs arbitrary: s) auto

definition vec_at :: "'a list \<Rightarrow> nat \<Rightarrow> 'a res" where
  "vec_at v i = (if i < length v then Inr (v ! i) else Inl Undefined_index)"

section \<open>Unordered containers\<close>

type_synonym 'a uset = "'a list"
type_synonym ('k, 'v) umap = "('k \<times> 'v) list"

definition uset_insert :: "'a \<Rightarrow> 'a uset \<Rightarrow> 'a uset" where
  "uset_insert x s = (if x \<in> set s then s else s @ [x])"

definition uset_erase :: "'a \<Rightarrow> 'a uset \<Rightarrow> 'a uset" where
  "uset_erase x s = filter (\<lambda>y. y \<noteq> x) s"

definition uset_eq :: "'a uset \<Rightarrow> 'a uset \<Rightarrow> bool" where
  "uset_eq s t \<longleftrightarrow> length s = length t \<and> list_all (\<lambda>x. x \<in> set t) s"

text \<open>\<open>m[k]\<close> read with the value the map would default-construct, \<open>m[k] = v\<close>,
  \<open>m[k].op(...)\<close> and \<open>m.erase(k)\<close>.\<close>

definition umap_get :: "'v \<Rightarrow> ('k, 'v) umap \<Rightarrow> 'k \<Rightarrow> 'v" where
  "umap_get d m k = (case map_of m k of None \<Rightarrow> d | Some v \<Rightarrow> v)"

definition umap_put :: "'k \<Rightarrow> 'v \<Rightarrow> ('k, 'v) umap \<Rightarrow> ('k, 'v) umap" where
  "umap_put k v m = AList.update k v m"

definition umap_mod :: "'v \<Rightarrow> 'k \<Rightarrow> ('v \<Rightarrow> 'v) \<Rightarrow> ('k, 'v) umap \<Rightarrow> ('k, 'v) umap" where
  "umap_mod d k f m = umap_put k (f (umap_get d m k)) m"

definition umap_erase :: "'k \<Rightarrow> ('k, 'v) umap \<Rightarrow> ('k, 'v) umap" where
  "umap_erase k m = filter (\<lambda>p. fst p \<noteq> k) m"

definition umap_has :: "('k, 'v) umap \<Rightarrow> 'k \<Rightarrow> bool" where
  "umap_has m k \<longleftrightarrow> map_of m k \<noteq> None"

definition umap_eq :: "('v \<Rightarrow> 'v \<Rightarrow> bool) \<Rightarrow> ('k, 'v) umap \<Rightarrow> ('k, 'v) umap \<Rightarrow> bool" where
  "umap_eq veq m n \<longleftrightarrow> length m = length n \<and>
     list_all (\<lambda>(k, v). case map_of n k of None \<Rightarrow> False | Some w \<Rightarrow> veq v w) m"

abbreviation umap_wf :: "('k, 'v) umap \<Rightarrow> bool" where
  "umap_wf m \<equiv> distinct (map fst m)"

lemma set_uset_insert [simp]: "set (uset_insert x s) = insert x (set s)"
  by (auto simp: uset_insert_def)

lemma set_uset_erase [simp]: "set (uset_erase x s) = set s - {x}"
  by (auto simp: uset_erase_def)

lemma distinct_uset_insert [wf_intros]: "distinct s \<Longrightarrow> distinct (uset_insert x s)"
  by (auto simp: uset_insert_def)

lemma distinct_uset_erase [wf_intros]: "distinct s \<Longrightarrow> distinct (uset_erase x s)"
  by (auto simp: uset_erase_def)

lemma set_fold_uset_insert [simp]: "set (fold uset_insert xs s) = set s \<union> set xs"
  by (induction xs arbitrary: s) auto

lemma distinct_fold_uset_insert [wf_intros]:
  "distinct s \<Longrightarrow> distinct (fold uset_insert xs s)"
  by (induction xs arbitrary: s) (auto intro: wf_intros)

lemma uset_eq_iff: "distinct s \<Longrightarrow> distinct t \<Longrightarrow> uset_eq s t \<longleftrightarrow> set s = set t"
proof -
  assume d: "distinct s" "distinct t"
  have "set s = set t \<Longrightarrow> length s = length t"
    using d by (metis distinct_card)
  moreover have "length s = length t \<Longrightarrow> set s \<subseteq> set t \<Longrightarrow> set s = set t"
    using d by (metis card_subset_eq distinct_card List.finite_set)
  ultimately show ?thesis
    by (auto simp: uset_eq_def list_all_iff)
qed

lemma umap_put_lookup [simp, umap_simps]: "map_of (umap_put k v m) = (map_of m)(k \<mapsto> v)"
  by (simp add: umap_put_def update_conv')

lemma umap_mod_lookup [simp, umap_simps]:
  "map_of (umap_mod d k f m) = (map_of m)(k \<mapsto> f (umap_get d m k))"
  by (simp add: umap_mod_def)

lemma umap_erase_lookup [simp, umap_simps]: "map_of (umap_erase k m) = (map_of m)(k := None)"
proof -
  have "map_of (umap_erase k m) x = ((map_of m)(k := None)) x" for x
    by (induction m) (auto simp: umap_erase_def)
  then show ?thesis by (rule ext)
qed

lemma umap_get_put [simp]: "umap_get d (umap_put k v m) k' = (if k' = k then v else umap_get d m k')"
  by (simp add: umap_get_def)

lemma umap_get_mod [simp]:
  "umap_get d (umap_mod d' k f m) k' = (if k' = k then f (umap_get d' m k) else umap_get d m k')"
  by (simp add: umap_get_def)

lemma umap_get_erase [simp]:
  "umap_get d (umap_erase k m) k' = (if k' = k then d else umap_get d m k')"
  by (simp add: umap_get_def)

lemma umap_get_Nil [simp]: "umap_get d [] k = d"
  by (simp add: umap_get_def)

lemma umap_has_put [simp]: "umap_has (umap_put k v m) k' \<longleftrightarrow> k' = k \<or> umap_has m k'"
  by (simp add: umap_has_def)

lemma umap_has_mod [simp]: "umap_has (umap_mod d k f m) k' \<longleftrightarrow> k' = k \<or> umap_has m k'"
  by (simp add: umap_has_def)

lemma umap_has_erase [simp]: "umap_has (umap_erase k m) k' \<longleftrightarrow> k' \<noteq> k \<and> umap_has m k'"
  by (simp add: umap_has_def)

lemma umap_has_Nil [simp]: "\<not> umap_has [] k"
  by (simp add: umap_has_def)

lemma umap_has_iff: "umap_has m k \<longleftrightarrow> k \<in> fst ` set m"
  by (simp add: umap_has_def map_of_eq_None_iff)

lemma keys_umap_put: "fst ` set (umap_put k v m) = insert k (fst ` set m)"
  by (simp add: umap_put_def dom_update)

lemma umap_wf_put [wf_intros]: "umap_wf m \<Longrightarrow> umap_wf (umap_put k v m)"
  unfolding umap_put_def by (rule AList.distinct_update)

lemma umap_wf_mod [wf_intros]: "umap_wf m \<Longrightarrow> umap_wf (umap_mod d k f m)"
  by (simp add: umap_mod_def wf_intros)

lemma umap_wf_erase [wf_intros]: "umap_wf m \<Longrightarrow> umap_wf (umap_erase k m)"
  by (induction m) (auto simp: umap_erase_def)

text \<open>A property of every entry of a map.\<close>

definition entries :: "('k \<Rightarrow> 'v \<Rightarrow> bool) \<Rightarrow> ('k, 'v) umap \<Rightarrow> bool" where
  "entries P m \<longleftrightarrow> list_all (\<lambda>(k, v). P k v) m"

lemma umap_put_subset: "set (umap_put k v m) \<subseteq> insert (k, v) (set m)"
  unfolding umap_put_def by (induction m) auto

lemma umap_erase_subset: "set (umap_erase k m) \<subseteq> set m"
  unfolding umap_erase_def by (induction m) auto

lemma entries_Nil [simp]: "entries P []"
  by (simp add: entries_def)

lemma entries_get: "entries P m \<Longrightarrow> map_of m k = Some v \<Longrightarrow> P k v"
  by (auto simp: entries_def list_all_iff dest: map_of_SomeD)

lemma entries_put: "entries P m \<Longrightarrow> P k v \<Longrightarrow> entries P (umap_put k v m)"
  using umap_put_subset [of k v m] by (auto simp: entries_def list_all_iff)

lemma entries_erase: "entries P m \<Longrightarrow> entries P (umap_erase k m)"
  using umap_erase_subset [of k m] by (auto simp: entries_def list_all_iff)

lemma entries_mod:
  assumes "entries P m" and "map_of m k = None \<Longrightarrow> P k (f d)" and "\<And>v. map_of m k = Some v \<Longrightarrow> P k v \<Longrightarrow> P k (f v)"
  shows "entries P (umap_mod d k f m)"
  unfolding umap_mod_def using assms entries_get [OF assms(1)]
  by (auto intro!: entries_put simp: umap_get_def split: option.splits)

lemma entries_filter: "entries P m \<Longrightarrow> entries P (filter f m)"
  by (auto simp: entries_def list_all_iff)

lemma entries_map:
  assumes "entries P m" and "\<And>k v. P k v \<Longrightarrow> Q k (f k v)"
  shows "entries Q (map (\<lambda>(k, v). (k, f k v)) m)"
  using assms by (fastforce simp: entries_def list_all_iff)

lemma map_of_map_snd: "map_of (map (\<lambda>(k, v). (k, f v)) m) k = map_option f (map_of m k)"
  by (induction m) auto

text \<open>On maps without duplicate keys, C++'s map equality is pointwise equality.\<close>

lemma umap_eq_iff:
  assumes "umap_wf m" and "umap_wf n"
  shows "umap_eq veq m n \<longleftrightarrow> (\<forall>k. rel_option veq (map_of m k) (map_of n k))"
proof
  assume eq: "umap_eq veq m n"
  then have len: "length m = length n"
    by (simp add: umap_eq_def)
  have all: "\<exists>w. map_of n k = Some w \<and> veq v w" if "(k, v) \<in> set m" for k v
    using eq that by (fastforce simp: umap_eq_def list_all_iff split: option.splits)
  have "fst ` set m \<subseteq> fst ` set n"
  proof
    fix k assume "k \<in> fst ` set m"
    then obtain v where "(k, v) \<in> set m" by auto
    then obtain w where "map_of n k = Some w" using all by blast
    then show "k \<in> fst ` set n" by (metis map_of_eq_None_iff option.distinct(1))
  qed
  moreover have "card (fst ` set m) = card (fst ` set n)"
    using len assms by (metis distinct_card image_set length_map)
  ultimately have dom: "fst ` set m = fst ` set n"
    by (simp add: card_subset_eq)
  show "\<forall>k. rel_option veq (map_of m k) (map_of n k)"
  proof
    fix k
    show "rel_option veq (map_of m k) (map_of n k)"
    proof (cases "map_of m k")
      case None
      then have "map_of n k = None" using dom by (simp add: map_of_eq_None_iff)
      with None show ?thesis by simp
    next
      case (Some v)
      then have "(k, v) \<in> set m" by (rule map_of_SomeD)
      then obtain w where "map_of n k = Some w" "veq v w" using all by blast
      with Some show ?thesis by simp
    qed
  qed
next
  assume rel: "\<forall>k. rel_option veq (map_of m k) (map_of n k)"
  have "fst ` set m = fst ` set n"
  proof -
    have "map_of m k = None \<longleftrightarrow> map_of n k = None" for k
      using rel [rule_format, of k] by (cases "map_of m k"; cases "map_of n k") auto
    then show ?thesis by (auto simp: map_of_eq_None_iff)
  qed
  then have "length m = length n"
    using assms by (metis distinct_card image_set length_map)
  moreover have "case map_of n k of None \<Rightarrow> False | Some w \<Rightarrow> veq v w" if "(k, v) \<in> set m" for k v
  proof -
    have "map_of m k = Some v" using that assms(1) by simp
    with rel [rule_format, of k] show ?thesis by (cases "map_of n k") auto
  qed
  ultimately show "umap_eq veq m n"
    by (auto simp: umap_eq_def list_all_iff)
qed

section \<open>Decimal strings\<close>

fun nat_to_string :: "nat \<Rightarrow> string" where
  "nat_to_string n =
     (if n < 10 then [char_of (48 + n)] else nat_to_string (n div 10) @ [char_of (48 + n mod 10)])"

declare nat_to_string.simps [simp del]

definition to_string :: "'a::len word \<Rightarrow> string" where
  "to_string w = nat_to_string (unat w)"

definition int_to_string :: "int \<Rightarrow> string" where
  "int_to_string i = (if i < 0 then CHR ''-'' # nat_to_string (nat (- i)) else nat_to_string (nat i))"

definition is_digit :: "char \<Rightarrow> bool" where
  "is_digit c \<longleftrightarrow> 48 \<le> (of_char c :: nat) \<and> (of_char c :: nat) < 58"

definition is_space :: "char \<Rightarrow> bool" where
  "is_space c \<longleftrightarrow> (of_char c :: nat) = 32 \<or> (9 \<le> (of_char c :: nat) \<and> (of_char c :: nat) \<le> 13)"

definition digits_value :: "string \<Rightarrow> nat" where
  "digits_value ds = foldl (\<lambda>n c. 10 * n + (of_char c - 48)) 0 ds"

text \<open>\<open>std::stoi\<close>: leading white space, a sign, then as many digits as follow.\<close>

definition stoi :: "string \<Rightarrow> int res" where
  "stoi s =
     (let t = dropWhile is_space s;
          neg = (t \<noteq> [] \<and> hd t = CHR ''-'');
          u = (if t \<noteq> [] \<and> (hd t = CHR ''-'' \<or> hd t = CHR ''+'') then tl t else t);
          ds = takeWhile is_digit u;
          n = (if neg then - int (digits_value ds) else int (digits_value ds))
      in if ds = [] then Inl Invalid_argument
         else if n < - (2 ^ 31) \<or> n > 2 ^ 31 - 1 then Inl Out_of_range
         else Inr n)"

lemma is_digit_char_of: "n < 10 \<Longrightarrow> is_digit (char_of (48 + n :: nat))"
  by (simp add: is_digit_def)

lemma nat_to_string_nonempty [simp]: "nat_to_string n \<noteq> []"
  by (subst nat_to_string.simps) simp

lemma nat_to_string_digits: "c \<in> set (nat_to_string n) \<Longrightarrow> is_digit c"
proof (induction n rule: nat_to_string.induct)
  case (1 n)
  show ?case
  proof (cases "n < 10")
    case True
    with "1.prems" show ?thesis
      by (subst (asm) nat_to_string.simps) (simp add: is_digit_char_of)
  next
    case False
    with "1.prems" have "c \<in> set (nat_to_string (n div 10)) \<or> c = char_of (48 + n mod 10)"
      by (subst (asm) nat_to_string.simps) auto
    with False "1.IH" show ?thesis
      by (auto intro: is_digit_char_of simp del: add_ac)
  qed
qed

lemma takeWhile_digits [simp]: "takeWhile is_digit (nat_to_string n) = nat_to_string n"
  by (simp add: takeWhile_eq_all_conv nat_to_string_digits)

lemma digits_value_nat_to_string: "digits_value (nat_to_string n) = n"
proof (induction n rule: nat_to_string.induct)
  case (1 n)
  show ?case
  proof (cases "n < 10")
    case True
    then show ?thesis by (subst nat_to_string.simps) (simp add: digits_value_def)
  next
    case False
    with "1.IH" have "digits_value (nat_to_string (n div 10)) = n div 10" by simp
    moreover have "(48 + n mod 10) mod 256 - 48 = n mod 10"
    proof -
      have "n mod 10 < 10" by simp
      then have "48 + n mod 10 < 256" by linarith
      then show ?thesis by simp
    qed
    ultimately show ?thesis
      using False by (subst nat_to_string.simps) (simp add: digits_value_def)
  qed
qed

lemma nat_to_string_inject [simp]: "nat_to_string m = nat_to_string n \<longleftrightarrow> m = n"
  by (metis digits_value_nat_to_string)

lemma to_string_inject [simp]: "to_string v = to_string w \<longleftrightarrow> v = w"
  by (simp add: to_string_def word_unat_eq_iff)

lemma to_string_nonempty [simp]: "to_string w \<noteq> []"
  by (simp add: to_string_def)

lemma to_string_digits: "c \<in> set (to_string w) \<Longrightarrow> is_digit c"
  unfolding to_string_def by (rule nat_to_string_digits)

lemma digit_not_space: "is_digit c \<Longrightarrow> \<not> is_space c"
  by (auto simp: is_digit_def is_space_def)

lemma digit_not_special: "is_digit c \<Longrightarrow> c \<noteq> CHR ''-'' \<and> c \<noteq> CHR ''+'' \<and> c \<noteq> CHR '':'' \<and> c \<noteq> CHR ''|'' \<and> c \<noteq> CHR ''_'' \<and> c \<noteq> CHR ''/''"
  by (auto simp: is_digit_def)

lemma stoi_digits:
  assumes "ds \<noteq> []" and "\<And>c. c \<in> set ds \<Longrightarrow> is_digit c" and "digits_value ds < 2 ^ 31"
  shows "stoi ds = Inr (int (digits_value ds))"
proof -
  obtain c cs where ds: "ds = c # cs" using assms(1) by (cases ds) auto
  have c: "is_digit c" using assms(2) ds by simp
  have "takeWhile is_digit ds = ds" using assms(2) by (simp add: takeWhile_eq_all_conv)
  then show ?thesis
    using ds assms(3) digit_not_space [OF c] digit_not_special [OF c]
    by (simp add: stoi_def Let_def)
qed

lemma stoi_nat_to_string: "n < 2 ^ 31 \<Longrightarrow> stoi (nat_to_string n) = Inr (int n)"
  using stoi_digits [of "nat_to_string n"]
  by (simp add: nat_to_string_digits digits_value_nat_to_string)

text \<open>\<open>stoi\<close> inverts \<open>to_string\<close> on every \<open>int\<close>.\<close>

lemma stoi_int_to_string:
  assumes "- (2 ^ 31) \<le> i" and "i \<le> 2 ^ 31 - 1"
  shows "stoi (int_to_string i) = Inr i"
proof (cases "i < 0")
  case False
  with assms show ?thesis by (simp add: int_to_string_def stoi_nat_to_string)
next
  case True
  let ?ds = "nat_to_string (nat (- i))"
  have "\<not> is_space (CHR ''-'')" by (simp add: is_space_def)
  then have "stoi (CHR ''-'' # ?ds) =
    (if - int (nat (- i)) < - (2 ^ 31) \<or> - int (nat (- i)) > 2 ^ 31 - 1 then Inl Out_of_range
     else Inr (- int (nat (- i))))"
    by (simp only: stoi_def Let_def) (simp add: digits_value_nat_to_string)
  with True assms show ?thesis by (simp add: int_to_string_def)
qed

text \<open>Code equations that compute decimal strings on binary integers.\<close>

definition digit_char :: "int \<Rightarrow> char" where
  "digit_char i =
     (if i = 1 then CHR ''1'' else if i = 2 then CHR ''2'' else if i = 3 then CHR ''3'' else if i = 4 then CHR ''4''
      else if i = 5 then CHR ''5'' else if i = 6 then CHR ''6'' else if i = 7 then CHR ''7''
      else if i = 8 then CHR ''8'' else if i = 9 then CHR ''9'' else CHR ''0'')"

function int_digits :: "int \<Rightarrow> string" where
  "int_digits i = (if i < 10 then [digit_char i] else int_digits (i div 10) @ [digit_char (i mod 10)])"
  by pat_completeness auto
termination by (relation "measure nat") auto

lemma digit_char_eq: "n < 10 \<Longrightarrow> digit_char (int n) = char_of (48 + n)"
proof -
  assume "n < 10"
  then have "n \<in> {0, 1, 2, 3, 4, 5, 6, 7, 8, 9}" by auto
  then show ?thesis by (auto simp: digit_char_def char_of_def bit_0)
qed

lemma nat_to_string_int [code]: "nat_to_string n = int_digits (int n)"
proof (induction n rule: nat_to_string.induct)
  case (1 n)
  show ?case
  proof (cases "n < 10")
    case True
    then show ?thesis by (simp add: nat_to_string.simps digit_char_eq)
  next
    case False
    have "int n mod 10 = int (n mod 10)" "int n div 10 = int (n div 10)" by (simp_all add: zmod_int zdiv_int)
    moreover have "digit_char (int (n mod 10)) = char_of (48 + n mod 10)" by (rule digit_char_eq) simp
    moreover have "int_digits (int n) = int_digits (int n div 10) @ [digit_char (int n mod 10)]"
      using False by (subst int_digits.simps) simp
    ultimately show ?thesis using False 1 by (simp add: nat_to_string.simps [of n])
  qed
qed

lemma to_string_uint [code]: "to_string w = int_digits (uint w)"
  by (simp add: to_string_def nat_to_string_int)

lemma int_to_string_digits [code]: "int_to_string i = (if i < 0 then CHR ''-'' # int_digits (- i) else int_digits i)"
  by (simp add: int_to_string_def nat_to_string_int)

section \<open>Splitting a string\<close>

text \<open>\<open>while (std::getline(ss, item, delim)) elems.push_back(item)\<close>: pieces between
  delimiters, with no piece after a final delimiter.\<close>

function split_string :: "string \<Rightarrow> char \<Rightarrow> string list" where
  "split_string s d =
     (if s = [] then []
      else takeWhile (\<lambda>c. c \<noteq> d) s # split_string (drop 1 (dropWhile (\<lambda>c. c \<noteq> d) s)) d)"
  by pat_completeness auto
termination
proof (relation "measure (\<lambda>(s, d). length s)", goal_cases)
  case (2 s d)
  have "length (dropWhile (\<lambda>c. c \<noteq> d) s) \<le> length s" by (rule length_dropWhile_le)
  with 2 show ?case by (cases s) auto
qed simp

declare split_string.simps [simp del]

lemma split_string_Nil [simp]: "split_string [] d = []"
  by (subst split_string.simps) simp

lemma split_string_piece:
  assumes "d \<notin> set a"
  shows "split_string (a @ d # rest) d = a # split_string rest d"
proof -
  have "takeWhile (\<lambda>c. c \<noteq> d) (a @ d # rest) = a" "dropWhile (\<lambda>c. c \<noteq> d) (a @ d # rest) = d # rest"
    using assms by (auto simp: takeWhile_append dropWhile_append)
  then show ?thesis by (subst split_string.simps) simp
qed

lemma split_string_last:
  assumes "d \<notin> set a" and "a \<noteq> []"
  shows "split_string a d = [a]"
proof -
  have "takeWhile (\<lambda>c. c \<noteq> d) a = a" using assms(1) by (auto simp: takeWhile_eq_all_conv)
  moreover have "dropWhile (\<lambda>c. c \<noteq> d) a = []" using assms(1) by auto
  ultimately show ?thesis using assms(2) by (subst split_string.simps) (simp only: drop_Nil split_string_Nil if_False)
qed

end
