(* ===== verification/Lattice_Types.thy ===== *)
theory Lattice_Types
  imports Prelude
begin

text \<open>
  The lattices of \<open>common/include/lattices/\<close>. A lattice object is represented by the
  element it holds (\<open>Lattice<T>::reveal\<close>), \<open>do_merge\<close> by a function from the
  element held and the element merged in to the element held afterwards.
  The locale \<open>merge_lattice\<close> states what \<open>Lattice<T>\<close> promises (\<open>merge\<close> is associative,
  commutative and idempotent up to the C++ \<open>operator==\<close>), proves from it that replicas
  which merged the same updates in any order and any number of times are equal, and is
  interpreted on the lattices of the code that keep the promise. The last section shows
  which lattices keep it only under a side condition and which one does not.
\<close>

section \<open>What a lattice promises\<close>

locale merge_lattice =
  fixes wf :: "'a \<Rightarrow> bool" and eq :: "'a \<Rightarrow> 'a \<Rightarrow> bool" and merge :: "'a \<Rightarrow> 'a \<Rightarrow> 'a"
  assumes merge_wf: "wf a \<Longrightarrow> wf b \<Longrightarrow> wf (merge a b)"
    and eq_refl: "wf a \<Longrightarrow> eq a a"
    and eq_sym: "wf a \<Longrightarrow> wf b \<Longrightarrow> eq a b \<Longrightarrow> eq b a"
    and eq_trans: "wf a \<Longrightarrow> wf b \<Longrightarrow> wf c \<Longrightarrow> eq a b \<Longrightarrow> eq b c \<Longrightarrow> eq a c"
    and merge_cong: "wf a \<Longrightarrow> wf a' \<Longrightarrow> wf b \<Longrightarrow> wf b' \<Longrightarrow> eq a a' \<Longrightarrow> eq b b' \<Longrightarrow>
      eq (merge a b) (merge a' b')"
    and merge_comm: "wf a \<Longrightarrow> wf b \<Longrightarrow> eq (merge a b) (merge b a)"
    and merge_assoc: "wf a \<Longrightarrow> wf b \<Longrightarrow> wf c \<Longrightarrow> eq (merge (merge a b) c) (merge a (merge b c))"
    and merge_idem: "wf a \<Longrightarrow> eq (merge a a) a"
begin

definition le :: "'a \<Rightarrow> 'a \<Rightarrow> bool" where
  "le x y \<longleftrightarrow> eq (merge x y) y"

lemma foldl_merge_wf: "wf a \<Longrightarrow> \<forall>u\<in>set us. wf u \<Longrightarrow> wf (foldl merge a us)"
  by (induction us arbitrary: a) (auto intro: merge_wf)

text \<open>\<open>eq\<close> reasoning in two steps over well-formed elements.\<close>

lemma eq_trans2: "eq a b \<Longrightarrow> eq b c \<Longrightarrow> wf a \<Longrightarrow> wf b \<Longrightarrow> wf c \<Longrightarrow> eq a c"
  by (rule eq_trans)

lemma merge_cong1: "eq a a' \<Longrightarrow> wf a \<Longrightarrow> wf a' \<Longrightarrow> wf b \<Longrightarrow> eq (merge a b) (merge a' b)"
  by (simp add: merge_cong eq_refl)

lemma merge_cong2: "eq b b' \<Longrightarrow> wf a \<Longrightarrow> wf b \<Longrightarrow> wf b' \<Longrightarrow> eq (merge a b) (merge a b')"
  by (simp add: merge_cong eq_refl)

lemma merge_assoc_sym: "wf a \<Longrightarrow> wf b \<Longrightarrow> wf c \<Longrightarrow> eq (merge a (merge b c)) (merge (merge a b) c)"
  by (simp add: eq_sym merge_assoc merge_wf)

lemma le_antisym:
  assumes wfs: "wf x" "wf y" and "le x y" "le y x"
  shows "eq x y"
proof -
  note w = wfs merge_wf [OF wfs] merge_wf [OF wfs(2,1)]
  have 1: "eq x (merge y x)" using assms(4) w by (simp add: le_def eq_sym)
  have 2: "eq (merge y x) (merge x y)" using wfs by (simp add: merge_comm)
  have 3: "eq (merge x y) y" using assms(3) by (simp add: le_def)
  have "eq x (merge x y)" by (rule eq_trans [OF _ _ _ 1 2]) (rule w)+
  then show ?thesis by (rule eq_trans2 [OF _ 3]) (rule w)+
qed

lemma le_trans:
  assumes wfs: "wf x" "wf y" "wf z" and "le x y" "le y z"
  shows "le x z"
proof -
  note w = wfs merge_wf [OF wfs(1,2)] merge_wf [OF wfs(2,3)] merge_wf [OF wfs(1,3)]
  have 1: "eq (merge x z) (merge x (merge y z))"
    using assms(5) w by (intro merge_cong2) (simp_all add: le_def eq_sym)
  have 2: "eq (merge x (merge y z)) (merge (merge x y) z)"
    using wfs by (rule merge_assoc_sym)
  have 3: "eq (merge (merge x y) z) (merge y z)"
    using assms(4) w by (intro merge_cong1) (simp_all add: le_def)
  have 4: "eq (merge y z) z" using assms(5) by (simp add: le_def)
  have "eq (merge x z) (merge (merge x y) z)"
    by (rule eq_trans2 [OF 1 2]) (simp_all add: w merge_wf)
  then have "eq (merge x z) (merge y z)"
    by (rule eq_trans2 [OF _ 3]) (simp_all add: w merge_wf)
  then have "eq (merge x z) z" by (rule eq_trans2 [OF _ 4]) (simp_all add: w)
  then show ?thesis by (simp add: le_def)
qed

lemma le_merge1:
  assumes wfs: "wf x" "wf y"
  shows "le x (merge x y)"
proof -
  note w = wfs merge_wf [OF wfs(1,1)] merge_wf [OF wfs(1,2)]
  have 1: "eq (merge x (merge x y)) (merge (merge x x) y)"
    using wfs by (simp add: merge_assoc_sym)
  have 2: "eq (merge (merge x x) y) (merge x y)"
    using w by (intro merge_cong1 merge_idem)
  have "eq (merge x (merge x y)) (merge x y)"
    by (rule eq_trans2 [OF 1 2]) (simp_all add: w merge_wf)
  then show ?thesis by (simp add: le_def)
qed

lemma le_merge2:
  assumes wfs: "wf x" "wf y"
  shows "le y (merge x y)"
proof -
  note w = wfs merge_wf [OF wfs] merge_wf [OF wfs(2,1)]
  have 1: "eq (merge (merge y x) (merge x y)) (merge (merge x y) (merge x y))"
    using w by (intro merge_cong1 merge_comm)
  have 2: "eq (merge (merge x y) (merge x y)) (merge x y)"
    using w by (intro merge_idem)
  have "eq (merge (merge y x) (merge x y)) (merge x y)"
    by (rule eq_trans2 [OF 1 2]) (simp_all add: w merge_wf)
  then have "le (merge y x) (merge x y)" by (simp add: le_def)
  with le_merge1 [OF wfs(2,1)] show ?thesis
    by (rule le_trans [OF w(2) w(4) w(3)])
qed

lemma merge_least:
  assumes wfs: "wf x" "wf y" "wf z" and "le x z" "le y z"
  shows "le (merge x y) z"
proof -
  note w = wfs merge_wf [OF wfs(1,2)] merge_wf [OF wfs(2,3)] merge_wf [OF wfs(1,3)]
  have 1: "eq (merge (merge x y) z) (merge x (merge y z))" using wfs by (rule merge_assoc)
  have 2: "eq (merge x (merge y z)) (merge x z)"
    using assms(5) w by (intro merge_cong2) (simp_all add: le_def)
  have 3: "eq (merge x z) z" using assms(4) by (simp add: le_def)
  have "eq (merge (merge x y) z) (merge x z)"
    by (rule eq_trans2 [OF 1 2]) (simp_all add: w merge_wf)
  then have "eq (merge (merge x y) z) z"
    by (rule eq_trans2 [OF _ 3]) (simp_all add: w merge_wf)
  then show ?thesis by (simp add: le_def)
qed

lemma foldl_merge_upper:
  "wf a \<Longrightarrow> \<forall>u\<in>set us. wf u \<Longrightarrow> le a (foldl merge a us) \<and> (\<forall>u\<in>set us. le u (foldl merge a us))"
proof (induction us arbitrary: a)
  case Nil
  then show ?case by (simp add: le_def merge_idem)
next
  case (Cons u us)
  then have w: "wf a" "wf u" "wf (merge a u)" "wf (foldl merge (merge a u) us)"
    by (auto intro: merge_wf foldl_merge_wf)
  have IH: "le (merge a u) (foldl merge (merge a u) us)"
    "\<forall>v\<in>set us. le v (foldl merge (merge a u) us)"
    using Cons.IH [OF w(3)] Cons.prems by simp_all
  have "le a (foldl merge (merge a u) us)"
    by (rule le_trans [OF w(1) w(3) w(4) le_merge1 [OF w(1) w(2)] IH(1)])
  moreover have "le u (foldl merge (merge a u) us)"
    by (rule le_trans [OF w(2) w(3) w(4) le_merge2 [OF w(1) w(2)] IH(1)])
  ultimately show ?case using IH(2) by simp
qed

lemma foldl_merge_least:
  "wf a \<Longrightarrow> \<forall>u\<in>set us. wf u \<Longrightarrow> wf z \<Longrightarrow> le a z \<Longrightarrow> \<forall>u\<in>set us. le u z \<Longrightarrow> le (foldl merge a us) z"
proof (induction us arbitrary: a)
  case Nil
  then show ?case by simp
next
  case (Cons u us)
  then show ?case by (simp add: merge_wf merge_least)
qed

text \<open>Replicas that start equal and merge the same set of updates, in whatever order and
  however often, end up equal.\<close>

lemma convergence:
  assumes "wf a" and "\<forall>u\<in>set us. wf u" and "\<forall>v\<in>set vs. wf v" and "set us = set vs"
  shows "eq (foldl merge a us) (foldl merge a vs)"
proof (rule le_antisym)
  show "wf (foldl merge a us)" "wf (foldl merge a vs)"
    using assms by (simp_all add: foldl_merge_wf)
  show "le (foldl merge a us) (foldl merge a vs)"
    using assms foldl_merge_upper [of a vs] by (intro foldl_merge_least) (auto intro: foldl_merge_wf)
  show "le (foldl merge a vs) (foldl merge a us)"
    using assms foldl_merge_upper [of a us] by (intro foldl_merge_least) (auto intro: foldl_merge_wf)
qed

text \<open>A redelivered update changes nothing.\<close>

lemma redelivery:
  assumes "wf a" and "\<forall>u\<in>set us. wf u" and "u \<in> set us"
  shows "eq (merge (foldl merge a us) u) (foldl merge a us)"
  using assms convergence [of a "us @ [u]" us] by auto

end

section \<open>\<open>core_lattices.hpp\<close>\<close>

subsection \<open>\<open>BoolLattice\<close> and \<open>MaxLattice<unsigned>\<close>\<close>

definition BoolLattice_do_merge :: "bool \<Rightarrow> bool \<Rightarrow> bool" where
  "BoolLattice_do_merge element e \<longleftrightarrow> element \<or> e"

text \<open>\<open>int current = this->element\<close> reads the element as a signed number; the comparison
  with the unsigned \<open>e\<close> converts it back.\<close>

definition MaxLattice_do_merge :: "u32 \<Rightarrow> u32 \<Rightarrow> u32" where
  "MaxLattice_do_merge element e =
     (let current = sint element in if (word_of_int current :: u32) < e then e else element)"

definition MaxLattice_add :: "u32 \<Rightarrow> u32 \<Rightarrow> u32" where
  "MaxLattice_add element n = element + n"

definition MaxLattice_subtract :: "u32 \<Rightarrow> u32 \<Rightarrow> u32" where
  "MaxLattice_subtract element n = element - n"

lemma MaxLattice_do_merge_max: "MaxLattice_do_merge a b = max a b"
  by (auto simp: MaxLattice_do_merge_def Let_def max_def)

subsection \<open>\<open>SetLattice\<close>\<close>

definition SetLattice_do_merge :: "'a uset \<Rightarrow> 'a uset \<Rightarrow> 'a uset" where
  "SetLattice_do_merge element e = fold uset_insert e element"

definition SetLattice_size :: "'a uset \<Rightarrow> u32" where
  "SetLattice_size element = of_nat (length element)"

definition SetLattice_insert :: "'a \<Rightarrow> 'a uset \<Rightarrow> 'a uset" where
  "SetLattice_insert e element = uset_insert e element"

definition SetLattice_intersect :: "'a uset \<Rightarrow> 'a uset \<Rightarrow> 'a uset" where
  "SetLattice_intersect element s =
     fold (\<lambda>that_elem res. fold (\<lambda>this_elem res. if this_elem = that_elem then uset_insert this_elem res else res)
                             element res) s []"

definition SetLattice_project :: "('a \<Rightarrow> bool) \<Rightarrow> 'a uset \<Rightarrow> 'a uset" where
  "SetLattice_project f element = fold (\<lambda>elem res. if f elem then uset_insert elem res else res) element []"

lemma set_SetLattice_do_merge [simp]: "set (SetLattice_do_merge a b) = set a \<union> set b"
  by (simp add: SetLattice_do_merge_def)

lemma distinct_SetLattice_do_merge [wf_intros]: "distinct a \<Longrightarrow> distinct (SetLattice_do_merge a b)"
  by (simp add: SetLattice_do_merge_def wf_intros)

lemma set_fold_filter_insert:
  "set (fold (\<lambda>x res. if P x then uset_insert x res else res) xs r) = set r \<union> {x \<in> set xs. P x}"
  by (induction xs arbitrary: r) auto

lemma set_SetLattice_project [simp]: "set (SetLattice_project f s) = {x \<in> set s. f x}"
  by (simp add: SetLattice_project_def set_fold_filter_insert)

lemma set_SetLattice_intersect [simp]: "set (SetLattice_intersect a b) = set a \<inter> set b"
proof -
  have "set (fold (\<lambda>that r. fold (\<lambda>this r. if this = that then uset_insert this r else r) a r) b r)
      = set r \<union> (set a \<inter> set b)" for r
    by (induction b arbitrary: r) (auto simp: set_fold_filter_insert)
  then show ?thesis by (simp add: SetLattice_intersect_def)
qed

subsection \<open>\<open>OrderedSetLattice\<close>\<close>

text \<open>\<open>std::set\<close> is a strictly ascending list.\<close>

definition OrderedSetLattice_do_merge :: "'a::linorder list \<Rightarrow> 'a list \<Rightarrow> 'a list" where
  "OrderedSetLattice_do_merge element e = fold insort_insert e element"

definition OrderedSetLattice_insert :: "'a::linorder \<Rightarrow> 'a list \<Rightarrow> 'a list" where
  "OrderedSetLattice_insert e element = insort_insert e element"

definition OrderedSetLattice_size :: "'a list \<Rightarrow> u32" where
  "OrderedSetLattice_size element = of_nat (length element)"

definition OrderedSetLattice_intersect :: "'a::linorder list \<Rightarrow> 'a list \<Rightarrow> 'a list" where
  "OrderedSetLattice_intersect element s =
     fold (\<lambda>that_elem res. fold (\<lambda>this_elem res. if this_elem = that_elem then insort_insert this_elem res else res)
                             element res) s []"

definition OrderedSetLattice_project :: "('a::linorder \<Rightarrow> bool) \<Rightarrow> 'a list \<Rightarrow> 'a list" where
  "OrderedSetLattice_project f element =
     fold (\<lambda>elem res. if f elem then insort_insert elem res else res) element []"

abbreviation ordered_wf :: "'a::linorder list \<Rightarrow> bool" where
  "ordered_wf xs \<equiv> sorted xs \<and> distinct xs"

lemma ordered_insert_wf: "ordered_wf xs \<Longrightarrow> ordered_wf (insort_insert x xs)"
  by (simp add: sorted_insort_insert distinct_insort_insert)

lemma ordered_merge_wf: "ordered_wf xs \<Longrightarrow> ordered_wf (OrderedSetLattice_do_merge xs ys)"
  unfolding OrderedSetLattice_do_merge_def
  by (induction ys arbitrary: xs) (simp_all add: sorted_insort_insert distinct_insort_insert)

lemma set_OrderedSetLattice_do_merge [simp]:
  "set (OrderedSetLattice_do_merge a b) = set a \<union> set b"
  unfolding OrderedSetLattice_do_merge_def
  by (induction b arbitrary: a) (auto simp: set_insort_insert)

lemma ordered_eqI: "ordered_wf xs \<Longrightarrow> ordered_wf ys \<Longrightarrow> set xs = set ys \<Longrightarrow> xs = ys"
  by (simp add: sorted_distinct_set_unique)

subsection \<open>\<open>MapLattice\<close>\<close>

text \<open>The value lattice is an argument: \<open>vmerge\<close> is its \<open>merge\<close>, \<open>dv\<close> its
  default-constructed element.\<close>

definition MapLattice_insert_pair :: "('v \<Rightarrow> 'v \<Rightarrow> 'v) \<Rightarrow> 'k \<Rightarrow> 'v \<Rightarrow> ('k, 'v) umap \<Rightarrow> ('k, 'v) umap" where
  "MapLattice_insert_pair vmerge k v element =
     (case map_of element k of
        Some w \<Rightarrow> umap_put k (vmerge w v) element
      | None \<Rightarrow> umap_put k v element)"

definition MapLattice_do_merge :: "('v \<Rightarrow> 'v \<Rightarrow> 'v) \<Rightarrow> ('k, 'v) umap \<Rightarrow> ('k, 'v) umap \<Rightarrow> ('k, 'v) umap" where
  "MapLattice_do_merge vmerge element m = fold (\<lambda>(k, v). MapLattice_insert_pair vmerge k v) m element"

definition MapLattice_size :: "('k, 'v) umap \<Rightarrow> u32" where
  "MapLattice_size element = of_nat (length element)"

definition MapLattice_contains :: "('k, 'v) umap \<Rightarrow> 'k \<Rightarrow> bool" where
  "MapLattice_contains element k = umap_has element k"

definition MapLattice_intersect ::
  "'v \<Rightarrow> ('v \<Rightarrow> 'v \<Rightarrow> 'v) \<Rightarrow> ('k, 'v) umap \<Rightarrow> ('k, 'v) umap \<Rightarrow> ('k, 'v) umap" where
  "MapLattice_intersect dv vmerge element other =
     fold (\<lambda>(k, v) res.
             if MapLattice_contains element k
             then MapLattice_insert_pair vmerge k v
                    (MapLattice_insert_pair vmerge k (umap_get dv element k) res)
             else res) other []"

definition MapLattice_project :: "('v \<Rightarrow> bool) \<Rightarrow> ('k, 'v) umap \<Rightarrow> ('k, 'v) umap" where
  "MapLattice_project f element =
     fold (\<lambda>(k, v) res. if f v \<and> \<not> umap_has res k then umap_put k v res else res) element []"

definition MapLattice_key_set :: "('k, 'v) umap \<Rightarrow> 'k uset" where
  "MapLattice_key_set element = fold (\<lambda>(k, v). uset_insert k) element []"

text \<open>\<open>at\<close> is \<open>element[k]\<close>: it returns the value and leaves a default-constructed one
  behind when there was none.\<close>

definition MapLattice_at :: "'v \<Rightarrow> 'k \<Rightarrow> ('k, 'v) umap \<Rightarrow> 'v \<times> ('k, 'v) umap" where
  "MapLattice_at dv k element = (umap_get dv element k, umap_mod dv k (\<lambda>v. v) element)"

definition MapLattice_remove :: "'k \<Rightarrow> ('k, 'v) umap \<Rightarrow> ('k, 'v) umap" where
  "MapLattice_remove k element = (if umap_has element k then umap_erase k element else element)"

definition MapLattice_insert :: "('v \<Rightarrow> 'v \<Rightarrow> 'v) \<Rightarrow> 'k \<Rightarrow> 'v \<Rightarrow> ('k, 'v) umap \<Rightarrow> ('k, 'v) umap" where
  "MapLattice_insert vmerge k v element = MapLattice_insert_pair vmerge k v element"

definition combine :: "('v \<Rightarrow> 'v \<Rightarrow> 'v) \<Rightarrow> 'v option \<Rightarrow> 'v option \<Rightarrow> 'v option" where
  "combine vmerge x y =
     (case x of None \<Rightarrow> y | Some a \<Rightarrow> (case y of None \<Rightarrow> Some a | Some b \<Rightarrow> Some (vmerge a b)))"

lemma combine_simps [simp]:
  "combine f None y = y" "combine f x None = x" "combine f (Some a) (Some b) = Some (f a b)"
  by (auto simp: combine_def split: option.splits)

lemma MapLattice_insert_pair_lookup [simp]:
  "map_of (MapLattice_insert_pair f k v m) = (map_of m)(k := combine f (map_of m k) (Some v))"
  by (auto simp: MapLattice_insert_pair_def split: option.splits)

lemma MapLattice_insert_pair_wf [wf_intros]: "umap_wf m \<Longrightarrow> umap_wf (MapLattice_insert_pair f k v m)"
  by (auto simp: MapLattice_insert_pair_def wf_intros split: option.splits)

lemma MapLattice_do_merge_wf [wf_intros]: "umap_wf m \<Longrightarrow> umap_wf (MapLattice_do_merge f m n)"
  unfolding MapLattice_do_merge_def
  by (rule fold_invariant_list) (auto intro: wf_intros split: prod.splits)

lemma MapLattice_do_merge_lookup:
  assumes "umap_wf n"
  shows "map_of (MapLattice_do_merge f m n) k = combine f (map_of m k) (map_of n k)"
  using assms
proof (induction n arbitrary: m)
  case Nil
  then show ?case by (simp add: MapLattice_do_merge_def)
next
  case (Cons p n)
  obtain k' v where p: "p = (k', v)" by (cases p)
  from Cons.prems p have k': "map_of n k' = None" by (simp add: map_of_eq_None_iff)
  have "map_of (MapLattice_do_merge f m (p # n)) k =
      combine f (map_of (MapLattice_insert_pair f k' v m) k) (map_of n k)"
    using Cons.IH [of "MapLattice_insert_pair f k' v m"] Cons.prems p
    by (simp add: MapLattice_do_merge_def)
  then show ?case using k' p by auto
qed

definition map_wf :: "('v \<Rightarrow> bool) \<Rightarrow> ('k, 'v) umap \<Rightarrow> bool" where
  "map_wf vwf m \<longleftrightarrow> umap_wf m \<and> list_all (\<lambda>p. vwf (snd p)) m"

lemma map_wf_lookup: "map_wf vwf m \<Longrightarrow> map_of m k = Some v \<Longrightarrow> vwf v"
  by (auto simp: map_wf_def list_all_iff dest!: map_of_SomeD)

lemma map_wfI:
  assumes "umap_wf m" and "\<And>k v. map_of m k = Some v \<Longrightarrow> vwf v"
  shows "map_wf vwf m"
  using assms by (auto simp: map_wf_def list_all_iff)

locale value_lattice = V: merge_lattice vwf veq vmerge
  for vwf :: "'v \<Rightarrow> bool" and veq :: "'v \<Rightarrow> 'v \<Rightarrow> bool" and vmerge :: "'v \<Rightarrow> 'v \<Rightarrow> 'v"
begin

lemma map_merge_wf:
  assumes "map_wf vwf m" and "map_wf vwf n"
  shows "map_wf vwf (MapLattice_do_merge vmerge m n)"
proof (rule map_wfI)
  show "umap_wf (MapLattice_do_merge vmerge m n)"
    using assms(1) by (simp add: map_wf_def wf_intros)
  fix k v assume "map_of (MapLattice_do_merge vmerge m n) k = Some v"
  then have "combine vmerge (map_of m k) (map_of n k) = Some v"
    using assms(2) by (simp add: map_wf_def MapLattice_do_merge_lookup)
  then show "vwf v"
    using assms by (cases "map_of m k"; cases "map_of n k") (auto dest: map_wf_lookup intro: V.merge_wf)
qed

lemma map_eqI:
  assumes "map_wf vwf m" and "map_wf vwf n"
    and "\<And>k. rel_option veq (map_of m k) (map_of n k)"
  shows "umap_eq veq m n"
  using assms by (simp add: umap_eq_iff map_wf_def)

lemma map_eqD:
  assumes "map_wf vwf m" and "map_wf vwf n" and "umap_eq veq m n"
  shows "rel_option veq (map_of m k) (map_of n k)"
  using assms by (simp add: umap_eq_iff map_wf_def)

lemma map_lookup: "map_wf vwf n \<Longrightarrow>
    map_of (MapLattice_do_merge vmerge m n) k = combine vmerge (map_of m k) (map_of n k)"
  by (simp add: map_wf_def MapLattice_do_merge_lookup)

lemma map_cong:
  assumes "map_wf vwf a" "map_wf vwf a'" "map_wf vwf b" "map_wf vwf b'"
    and "umap_eq veq a a'" "umap_eq veq b b'"
  shows "umap_eq veq (MapLattice_do_merge vmerge a b) (MapLattice_do_merge vmerge a' b')"
proof (rule map_eqI)
  fix k
  have "rel_option veq (map_of a k) (map_of a' k)" "rel_option veq (map_of b k) (map_of b' k)"
    using assms by (simp_all add: map_eqD)
  then show "rel_option veq (map_of (MapLattice_do_merge vmerge a b) k)
      (map_of (MapLattice_do_merge vmerge a' b') k)"
    using assms(1-4)
    by (cases "map_of a k"; cases "map_of a' k"; cases "map_of b k"; cases "map_of b' k")
       (auto simp: map_lookup intro: V.merge_cong map_wf_lookup)
qed (simp_all add: assms map_merge_wf)

lemma map_comm:
  assumes "map_wf vwf a" "map_wf vwf b"
  shows "umap_eq veq (MapLattice_do_merge vmerge a b) (MapLattice_do_merge vmerge b a)"
proof (rule map_eqI)
  fix k
  show "rel_option veq (map_of (MapLattice_do_merge vmerge a b) k)
      (map_of (MapLattice_do_merge vmerge b a) k)"
    using assms by (cases "map_of a k"; cases "map_of b k")
      (auto simp: map_lookup intro: V.merge_comm V.eq_refl map_wf_lookup)
qed (simp_all add: assms map_merge_wf)

lemma map_assoc:
  assumes "map_wf vwf a" "map_wf vwf b" "map_wf vwf c"
  shows "umap_eq veq (MapLattice_do_merge vmerge (MapLattice_do_merge vmerge a b) c)
    (MapLattice_do_merge vmerge a (MapLattice_do_merge vmerge b c))"
proof (rule map_eqI)
  fix k
  show "rel_option veq (map_of (MapLattice_do_merge vmerge (MapLattice_do_merge vmerge a b) c) k)
      (map_of (MapLattice_do_merge vmerge a (MapLattice_do_merge vmerge b c)) k)"
    using assms by (cases "map_of a k"; cases "map_of b k"; cases "map_of c k")
      (auto simp: map_lookup map_merge_wf intro: V.merge_assoc V.eq_refl V.merge_wf map_wf_lookup)
qed (simp_all add: assms map_merge_wf)

end

sublocale value_lattice \<subseteq> map: merge_lattice "map_wf vwf" "umap_eq veq" "MapLattice_do_merge vmerge"
proof unfold_locales
  fix a b c :: "('k, 'v) umap"
  assume wf: "map_wf vwf a" "map_wf vwf b" "map_wf vwf c"
  show "umap_eq veq a a"
    using wf(1) by (intro map_eqI) (auto simp: option.rel_refl_strong intro!: option.rel_refl_strong V.eq_refl dest: map_wf_lookup)
  show "umap_eq veq b a" if "umap_eq veq a b"
  proof (rule map_eqI [OF wf(2,1)])
    fix k show "rel_option veq (map_of b k) (map_of a k)"
      using map_eqD [OF wf(1,2) that, of k] wf(1,2)
      by (cases "map_of a k"; cases "map_of b k") (auto intro: V.eq_sym map_wf_lookup)
  qed
  show "umap_eq veq a c" if "umap_eq veq a b" "umap_eq veq b c"
  proof (rule map_eqI [OF wf(1,3)])
    fix k show "rel_option veq (map_of a k) (map_of c k)"
      using map_eqD [OF wf(1,2) that(1), of k] map_eqD [OF wf(2,3) that(2), of k] wf
      by (cases "map_of a k"; cases "map_of b k"; cases "map_of c k") (auto intro: V.eq_trans map_wf_lookup)
  qed
  show "umap_eq veq (MapLattice_do_merge vmerge a a) a"
  proof (rule map_eqI [OF map_merge_wf [OF wf(1,1)] wf(1)])
    fix k show "rel_option veq (map_of (MapLattice_do_merge vmerge a a) k) (map_of a k)"
      using wf(1) by (cases "map_of a k") (auto simp: map_lookup intro: V.merge_idem map_wf_lookup)
  qed
qed (simp_all add: map_merge_wf map_cong map_comm map_assoc)

section \<open>Vector clocks\<close>

type_synonym VectorClock = "(string, u32) umap"

definition VectorClock_merge :: "VectorClock \<Rightarrow> VectorClock \<Rightarrow> VectorClock" where
  "VectorClock_merge = MapLattice_do_merge MaxLattice_do_merge"

definition VectorClock_eq :: "VectorClock \<Rightarrow> VectorClock \<Rightarrow> bool" where
  "VectorClock_eq = umap_eq (=)"

definition VectorClock_insert :: "string \<Rightarrow> u32 \<Rightarrow> VectorClock \<Rightarrow> VectorClock" where
  "VectorClock_insert = MapLattice_insert MaxLattice_do_merge"

text \<open>The order of clocks: every entry of \<open>a\<close> is in \<open>b\<close> with at least its count.\<close>

definition vc_le :: "VectorClock \<Rightarrow> VectorClock \<Rightarrow> bool" where
  "vc_le a b \<longleftrightarrow> list_all (\<lambda>(k, v). case map_of b k of None \<Rightarrow> False | Some w \<Rightarrow> v \<le> w) a"

lemma vc_le_iff:
  assumes "umap_wf a"
  shows "vc_le a b \<longleftrightarrow> (\<forall>k v. map_of a k = Some v \<longrightarrow> (\<exists>w. map_of b k = Some w \<and> v \<le> w))"
proof -
  have "vc_le a b \<longleftrightarrow> (\<forall>k v. (k, v) \<in> set a \<longrightarrow> (\<exists>w. map_of b k = Some w \<and> v \<le> w))"
    by (fastforce simp: vc_le_def list_all_iff split: option.splits)
  then show ?thesis using assms by simp
qed

lemma VectorClock_merge_lookup:
  "umap_wf b \<Longrightarrow> map_of (VectorClock_merge a b) k = combine max (map_of a k) (map_of b k)"
  by (cases "map_of a k"; cases "map_of b k")
     (auto simp: VectorClock_merge_def MapLattice_do_merge_lookup MaxLattice_do_merge_max)

lemma VectorClock_merge_wf [wf_intros]: "umap_wf a \<Longrightarrow> umap_wf (VectorClock_merge a b)"
  by (simp add: VectorClock_merge_def wf_intros)

lemma VectorClock_eq_iff:
  "umap_wf a \<Longrightarrow> umap_wf b \<Longrightarrow> VectorClock_eq a b \<longleftrightarrow> map_of a = map_of b"
  by (auto simp: VectorClock_eq_def umap_eq_iff option.rel_eq)

lemma VectorClock_merge_absorb2:
  assumes "umap_wf a" and "umap_wf b"
  shows "VectorClock_eq (VectorClock_merge a b) b \<longleftrightarrow> vc_le a b"
proof -
  have "combine max (map_of a k) (map_of b k) = map_of b k \<longleftrightarrow>
      (\<forall>v. map_of a k = Some v \<longrightarrow> (\<exists>w. map_of b k = Some w \<and> v \<le> w))" for k
    by (cases "map_of a k"; cases "map_of b k") (auto simp: max_def)
  then show ?thesis
    using assms by (simp add: VectorClock_eq_iff wf_intros VectorClock_merge_lookup vc_le_iff fun_eq_iff)
qed

lemma VectorClock_merge_absorb1:
  assumes "umap_wf a" and "umap_wf b"
  shows "VectorClock_eq (VectorClock_merge a b) a \<longleftrightarrow> vc_le b a"
proof -
  have "combine max (map_of a k) (map_of b k) = map_of a k \<longleftrightarrow>
      (\<forall>v. map_of b k = Some v \<longrightarrow> (\<exists>w. map_of a k = Some w \<and> v \<le> w))" for k
    by (cases "map_of a k"; cases "map_of b k") (auto simp: max_def)
  then show ?thesis
    using assms by (simp add: VectorClock_eq_iff wf_intros VectorClock_merge_lookup vc_le_iff fun_eq_iff)
qed

section \<open>Lattices over a pair\<close>

subsection \<open>\<open>lww_pair_lattice.hpp\<close>\<close>

record 'a TimestampValuePair =
  tv_timestamp :: u64
  tv_value :: 'a

definition LWWPairLattice_default :: "string TimestampValuePair" where
  "LWWPairLattice_default = \<lparr>tv_timestamp = 0, tv_value = []\<rparr>"

definition LWWPairLattice_do_merge ::
  "'a TimestampValuePair \<Rightarrow> 'a TimestampValuePair \<Rightarrow> 'a TimestampValuePair" where
  "LWWPairLattice_do_merge element p =
     (if tv_timestamp p \<ge> tv_timestamp element
      then element\<lparr>tv_timestamp := tv_timestamp p, tv_value := tv_value p\<rparr>
      else element)"

definition LWWPairLattice_size :: "string TimestampValuePair \<Rightarrow> u32" where
  "LWWPairLattice_size element = of_nat (length (tv_value element)) + 8"

subsection \<open>\<open>priority_lattice.hpp\<close>\<close>

record ('p, 'v) PriorityValuePair =
  pv_priority :: 'p
  pv_value :: 'v

definition PriorityLattice_do_merge ::
  "('p::linorder, 'v) PriorityValuePair \<Rightarrow> ('p, 'v) PriorityValuePair \<Rightarrow> ('p, 'v) PriorityValuePair" where
  "PriorityLattice_do_merge element p =
     (if pv_priority p < pv_priority element then p else element)"

definition PriorityLattice_size :: "('p, string) PriorityValuePair \<Rightarrow> u32" where
  "PriorityLattice_size element = 8 + of_nat (length (pv_value element))"

subsection \<open>\<open>single_key_causal_lattice.hpp\<close>\<close>

record 'a VectorClockValuePair =
  sk_vector_clock :: VectorClock
  sk_value :: "'a uset"

definition VectorClockValuePair_default :: "'a VectorClockValuePair" where
  "VectorClockValuePair_default = \<lparr>sk_vector_clock = [], sk_value = []\<rparr>"

definition VectorClockValuePair_size :: "'a VectorClockValuePair \<Rightarrow> u32" where
  "VectorClockValuePair_size p =
     MapLattice_size (sk_vector_clock p) * 2 * 4 + SetLattice_size (sk_value p)"

definition SingleKeyCausalLattice_do_merge ::
  "'a VectorClockValuePair \<Rightarrow> 'a VectorClockValuePair \<Rightarrow> 'a VectorClockValuePair" where
  "SingleKeyCausalLattice_do_merge element p =
     (let prev = sk_vector_clock element;
          vc = VectorClock_merge (sk_vector_clock element) (sk_vector_clock p);
          element = element\<lparr>sk_vector_clock := vc\<rparr>
      in if VectorClock_eq vc (sk_vector_clock p)
         then element\<lparr>sk_value := sk_value p\<rparr>
         else if \<not> VectorClock_eq vc prev
         then element\<lparr>sk_value := SetLattice_do_merge (sk_value element) (sk_value p)\<rparr>
         else element)"

subsection \<open>\<open>multi_key_causal_lattice.hpp\<close>\<close>

type_synonym Dependencies = "(string, VectorClock) umap"

record 'a MultiKeyCausalPayload =
  mk_vector_clock :: VectorClock
  mk_dependencies :: Dependencies
  mk_value :: "'a uset"

definition MultiKeyCausalPayload_default :: "'a MultiKeyCausalPayload" where
  "MultiKeyCausalPayload_default = \<lparr>mk_vector_clock = [], mk_dependencies = [], mk_value = []\<rparr>"

definition MultiKeyCausalPayload_size :: "'a MultiKeyCausalPayload \<Rightarrow> u32" where
  "MultiKeyCausalPayload_size p =
     (let dep_size = fold (\<lambda>(k, vc) n. n + of_nat (length k) + MapLattice_size vc * 2 * 4)
                       (mk_dependencies p) 0
      in MapLattice_size (mk_vector_clock p) * 2 * 4 + dep_size + SetLattice_size (mk_value p))"

definition Dependencies_merge :: "Dependencies \<Rightarrow> Dependencies \<Rightarrow> Dependencies" where
  "Dependencies_merge = MapLattice_do_merge VectorClock_merge"

definition MultiKeyCausalLattice_do_merge ::
  "'a MultiKeyCausalPayload \<Rightarrow> 'a MultiKeyCausalPayload \<Rightarrow> 'a MultiKeyCausalPayload" where
  "MultiKeyCausalLattice_do_merge element p =
     (let prev = mk_vector_clock element;
          vc = VectorClock_merge (mk_vector_clock element) (mk_vector_clock p);
          element = element\<lparr>mk_vector_clock := vc\<rparr>
      in if VectorClock_eq vc (mk_vector_clock p)
         then element\<lparr>mk_dependencies := mk_dependencies p, mk_value := mk_value p\<rparr>
         else if \<not> VectorClock_eq vc prev
         then element\<lparr>mk_dependencies := Dependencies_merge (mk_dependencies element) (mk_dependencies p),
                      mk_value := SetLattice_do_merge (mk_value element) (mk_value p)\<rparr>
         else element)"

section \<open>The lattices that keep the promise\<close>

interpretation bool_lattice: merge_lattice "\<lambda>_. True" "(=)" BoolLattice_do_merge
  by unfold_locales (auto simp: BoolLattice_do_merge_def)

interpretation max_lattice: value_lattice "\<lambda>_. True" "(=)" MaxLattice_do_merge
  by unfold_locales (auto simp: MaxLattice_do_merge_max ac_simps)

interpretation set_lattice: merge_lattice distinct uset_eq SetLattice_do_merge
  by unfold_locales (auto simp: uset_eq_iff wf_intros)

interpretation ordered_set_lattice: merge_lattice ordered_wf "(=)" OrderedSetLattice_do_merge
proof (unfold_locales, goal_cases)
  case (6 a b)
  then show ?case by (intro ordered_eqI ordered_merge_wf) auto
next
  case (7 a b c)
  then show ?case by (intro ordered_eqI ordered_merge_wf) auto
next
  case (8 a)
  then show ?case by (intro ordered_eqI ordered_merge_wf) auto
qed (auto simp: ordered_merge_wf)

text \<open>A vector clock is the map lattice over \<open>MaxLattice\<close>, dependencies the map lattice
  over vector clocks.\<close>

interpretation clock_lattice: value_lattice "map_wf (\<lambda>_. True)" "umap_eq (=)" VectorClock_merge
  unfolding VectorClock_merge_def by unfold_locales

text \<open>Last-writer-wins and priority values form a lattice among pairs in which the
  timestamp (the priority) determines the value; \<open>f\<close> is that function.\<close>

interpretation lww_lattice: merge_lattice "\<lambda>p. tv_value p = f (tv_timestamp p)" "(=)" LWWPairLattice_do_merge
  for f
  by unfold_locales (auto simp: LWWPairLattice_do_merge_def)

interpretation priority_lattice: merge_lattice "\<lambda>p. pv_value p = f (pv_priority p)" "(=)" PriorityLattice_do_merge
  for f
  by unfold_locales (auto simp: PriorityLattice_do_merge_def)

section \<open>Properties\<close>

text \<open>C19: two replicas of a \<open>SetLattice\<close> that start from the same element and merge the same
  updates, in any order and with any repetitions, hold equal sets (\<open>operator==\<close>), and the set
  is the union of the start and of all updates.\<close>

theorem SetLattice_convergence:
  assumes "distinct a" and "\<forall>u\<in>set us. distinct u" and "\<forall>v\<in>set vs. distinct v"
    and "set us = set vs"
  shows "uset_eq (foldl SetLattice_do_merge a us) (foldl SetLattice_do_merge a vs) \<and>
    set (foldl SetLattice_do_merge a us) = set a \<union> \<Union> (set ` set us)"
proof
  show "uset_eq (foldl SetLattice_do_merge a us) (foldl SetLattice_do_merge a vs)"
    using assms by (rule set_lattice.convergence)
  show "set (foldl SetLattice_do_merge a us) = set a \<union> \<Union> (set ` set us)"
    by (induction us arbitrary: a) auto
qed

theorem SetLattice_convergence_witness:
  "uset_eq (foldl SetLattice_do_merge [1::nat] [[2], [3, 1], [2]])
           (foldl SetLattice_do_merge [1] [[3, 1], [2], [3, 1]]) \<and>
   set (foldl SetLattice_do_merge [1::nat] [[2], [3, 1], [2]]) = set [1] \<union> \<Union> (set ` set [[2], [3, 1], [2]])"
  by (rule SetLattice_convergence) auto

text \<open>Two replicas of a vector clock (\<open>MapLattice<string, MaxLattice<unsigned>>\<close>) that
  merge the same clocks in any order and with any repetitions are equal, and no merged
  clock exceeds the result.\<close>

theorem VectorClock_convergence:
  assumes "umap_wf a" and "\<forall>u\<in>set us. umap_wf u" and "\<forall>v\<in>set vs. umap_wf v"
    and "set us = set vs"
  shows "VectorClock_eq (foldl VectorClock_merge a us) (foldl VectorClock_merge a vs) \<and>
    (\<forall>u\<in>set us. vc_le u (foldl VectorClock_merge a us))"
proof
  have wf: "map_wf (\<lambda>_. True) m \<longleftrightarrow> umap_wf m" for m :: VectorClock
    by (simp add: map_wf_def list_all_iff)
  show "VectorClock_eq (foldl VectorClock_merge a us) (foldl VectorClock_merge a vs)"
    unfolding VectorClock_eq_def VectorClock_merge_def
    using assms by (intro max_lattice.map.convergence) (simp_all add: wf)
  have le_iff: "max_lattice.map.le x y \<longleftrightarrow> VectorClock_eq (VectorClock_merge x y) y" for x y
    by (simp add: max_lattice.map.le_def VectorClock_eq_def VectorClock_merge_def)
  have upper: "\<forall>u\<in>set us. max_lattice.map.le u (foldl VectorClock_merge a us)"
    unfolding VectorClock_merge_def
    using assms by (intro conjunct2 [OF max_lattice.map.foldl_merge_upper]) (simp_all add: wf)
  show "\<forall>u\<in>set us. vc_le u (foldl VectorClock_merge a us)"
  proof
    fix u assume u: "u \<in> set us"
    have "umap_wf (foldl VectorClock_merge a us)"
      using assms(1) by (induction us arbitrary: a) (auto intro: wf_intros)
    with u assms(2) upper show "vc_le u (foldl VectorClock_merge a us)"
      by (auto simp: le_iff VectorClock_merge_absorb2)
  qed
qed

theorem VectorClock_convergence_witness:
  "VectorClock_eq (foldl VectorClock_merge [(''a'', 1)] [[(''b'', 2)], [(''a'', 3)]])
                  (foldl VectorClock_merge [(''a'', 1)] [[(''a'', 3)], [(''b'', 2)]]) \<and>
   vc_le [(''b'', 2)] (foldl VectorClock_merge [(''a'', 1)] [[(''b'', 2)], [(''a'', 3)]]) \<and>
   vc_le [(''a'', 3)] (foldl VectorClock_merge [(''a'', 1)] [[(''b'', 2)], [(''a'', 3)]])"
  using VectorClock_convergence [of "[(''a'', 1)]" "[[(''b'', 2)], [(''a'', 3)]]" "[[(''a'', 3)], [(''b'', 2)]]"]
  by (simp add: insert_commute)

lemma LWW_foldl_maximal:
  "(\<forall>u\<in>insert a (set us). tv_timestamp u \<le> tv_timestamp (foldl LWWPairLattice_do_merge a us)) \<and>
   foldl LWWPairLattice_do_merge a us \<in> insert a (set us)"
proof (induction us rule: rev_induct)
  case Nil
  then show ?case by simp
next
  case (snoc u us)
  have "LWWPairLattice_do_merge x y = y \<and> tv_timestamp x \<le> tv_timestamp y \<or>
      LWWPairLattice_do_merge x y = x \<and> tv_timestamp y < tv_timestamp x"
    for x y :: "'a TimestampValuePair"
    by (auto simp: LWWPairLattice_do_merge_def)
  from this [of "foldl LWWPairLattice_do_merge a us" u] snoc show ?case
    by (auto intro: order_trans)
qed

text \<open>C20: last-writer-wins values converge when a timestamp determines its value (no two
  different writes carry the same timestamp): replicas that merge the same writes in any
  order hold the same pair, it is one of the writes, and no write has a later timestamp.\<close>

theorem LWWPairLattice_convergence:
  assumes "\<forall>u\<in>insert a (set us). tv_value u = f (tv_timestamp u)" and "set us = set vs"
  shows "foldl LWWPairLattice_do_merge a us = foldl LWWPairLattice_do_merge a vs \<and>
    foldl LWWPairLattice_do_merge a us \<in> insert a (set us) \<and>
    (\<forall>u\<in>insert a (set us). tv_timestamp u \<le> tv_timestamp (foldl LWWPairLattice_do_merge a us))"
proof (intro conjI)
  show "foldl LWWPairLattice_do_merge a us = foldl LWWPairLattice_do_merge a vs"
    using assms by (intro lww_lattice.convergence [of _ f]) auto
qed (use LWW_foldl_maximal [of a us] in blast)+

theorem LWWPairLattice_convergence_witness:
  "let w = (\<lambda>t v. \<lparr>tv_timestamp = t, tv_value = v\<rparr>) in
   foldl LWWPairLattice_do_merge (w 0 '''') [w 7 ''x'', w 9 ''y''] =
   foldl LWWPairLattice_do_merge (w 0 '''') [w 9 ''y'', w 7 ''x''] \<and>
   foldl LWWPairLattice_do_merge (w 0 '''') [w 7 ''x'', w 9 ''y''] = w 9 ''y''"
  using LWWPairLattice_convergence [of "\<lparr>tv_timestamp = 0, tv_value = ''''\<rparr>"
      "[\<lparr>tv_timestamp = 7, tv_value = ''x''\<rparr>, \<lparr>tv_timestamp = 9, tv_value = ''y''\<rparr>]"
      "\<lambda>t. if t = 7 then ''x'' else if t = 9 then ''y'' else ''''"
      "[\<lparr>tv_timestamp = 9, tv_value = ''y''\<rparr>, \<lparr>tv_timestamp = 7, tv_value = ''x''\<rparr>]"]
  by (auto simp: Let_def LWWPairLattice_do_merge_def)

text \<open>merging a single-key causal value. An update whose clock is at least the current one
  replaces the value, an update whose clock is strictly below it leaves the value and the
  clock as they were, and a concurrent update is united with the current value under the
  joined clock.\<close>

theorem SingleKeyCausal_merge_cases:
  assumes "umap_wf (sk_vector_clock e)" and "umap_wf (sk_vector_clock p)"
  shows "let r = SingleKeyCausalLattice_do_merge e p; ve = sk_vector_clock e; vp = sk_vector_clock p
    in (vc_le ve vp \<longrightarrow> VectorClock_eq (sk_vector_clock r) vp \<and> sk_value r = sk_value p) \<and>
       (\<not> vc_le ve vp \<and> vc_le vp ve \<longrightarrow>
          VectorClock_eq (sk_vector_clock r) ve \<and> sk_value r = sk_value e) \<and>
       (\<not> vc_le ve vp \<and> \<not> vc_le vp ve \<longrightarrow>
          set (sk_value r) = set (sk_value e) \<union> set (sk_value p) \<and>
          (\<forall>k. map_of (sk_vector_clock r) k = combine max (map_of ve k) (map_of vp k)))"
  using VectorClock_merge_absorb2 [OF assms] VectorClock_merge_absorb1 [OF assms]
  by (simp add: SingleKeyCausalLattice_do_merge_def Let_def VectorClock_merge_lookup assms)

theorem SingleKeyCausal_merge_cases_witness:
  "sk_value (SingleKeyCausalLattice_do_merge
     \<lparr>sk_vector_clock = [(''a'', 1)], sk_value = [''x'']\<rparr> \<lparr>sk_vector_clock = [(''a'', 2)], sk_value = [''y'']\<rparr>)
   = [''y'']"
  using SingleKeyCausal_merge_cases
    [of "\<lparr>sk_vector_clock = [(''a'', 1)], sk_value = [''x'']\<rparr>" "\<lparr>sk_vector_clock = [(''a'', 2)], sk_value = [''y'']\<rparr>"]
  by (simp add: Let_def vc_le_def)


end
