(* ===== verification/Threads.thy ===== *)
theory Threads
  imports Prelude
begin

text \<open>
  Thread identities and the addresses they listen on: \<open>common/include/threads.hpp\<close> and
  \<open>include/kvs_threads.hpp\<close>. A thread object is a record of its constructor's fields; every
  accessor that builds an address is a function of the record. Ports are \<open>unsigned\<close>, so
  \<open>tid_ + port\<close> is addition on \<open>u32\<close>.
\<close>

type_synonym Address = string
type_synonym Key = string

section \<open>Ports\<close>

definition kKeyAddressPort :: u32 where "kKeyAddressPort = 6450"
definition kUserResponsePort :: u32 where "kUserResponsePort = 6800"
definition kUserKeyAddressPort :: u32 where "kUserKeyAddressPort = 6850"
definition kCacheUpdatePort :: u32 where "kCacheUpdatePort = 7150"
definition kNodeJoinPort :: u32 where "kNodeJoinPort = 6000"
definition kNodeDepartPort :: u32 where "kNodeDepartPort = 6050"
definition kSelfDepartPort :: u32 where "kSelfDepartPort = 6100"
definition kServerReplicationResponsePort :: u32 where "kServerReplicationResponsePort = 6150"
definition kKeyRequestPort :: u32 where "kKeyRequestPort = 6200"
definition kGossipPort :: u32 where "kGossipPort = 6250"
definition kServerReplicationChangePort :: u32 where "kServerReplicationChangePort = 6300"
definition kCacheIpResponsePort :: u32 where "kCacheIpResponsePort = 7050"
definition kManagementNodeResponsePort :: u32 where "kManagementNodeResponsePort = 7100"
definition kSeedPort :: u32 where "kSeedPort = 6350"
definition kRoutingNotifyPort :: u32 where "kRoutingNotifyPort = 6400"
definition kRoutingReplicationResponsePort :: u32 where "kRoutingReplicationResponsePort = 6500"
definition kRoutingReplicationChangePort :: u32 where "kRoutingReplicationChangePort = 6550"
definition kMonitoringNotifyPort :: u32 where "kMonitoringNotifyPort = 6600"
definition kMonitoringResponsePort :: u32 where "kMonitoringResponsePort = 6650"
definition kDepartDonePort :: u32 where "kDepartDonePort = 6700"
definition kFeedbackReportPort :: u32 where "kFeedbackReportPort = 6750"
definition kBenchmarkCommandPort :: u32 where "kBenchmarkCommandPort = 6900"
definition kKopsRestartCountPort :: u32 where "kKopsRestartCountPort = 7000"
definition kKopsFuncNodesPort :: u32 where "kKopsFuncNodesPort = 7002"

lemmas port_defs = kKeyAddressPort_def kUserResponsePort_def kUserKeyAddressPort_def
  kCacheUpdatePort_def kNodeJoinPort_def kNodeDepartPort_def kSelfDepartPort_def
  kServerReplicationResponsePort_def kKeyRequestPort_def kGossipPort_def
  kServerReplicationChangePort_def kCacheIpResponsePort_def kManagementNodeResponsePort_def
  kSeedPort_def kRoutingNotifyPort_def kRoutingReplicationResponsePort_def
  kRoutingReplicationChangePort_def kMonitoringNotifyPort_def kMonitoringResponsePort_def
  kDepartDonePort_def kFeedbackReportPort_def kBenchmarkCommandPort_def
  kKopsRestartCountPort_def kKopsFuncNodesPort_def

definition kBindBase :: string where "kBindBase = ''tcp://*:''"

definition tcp_base :: "Address \<Rightarrow> Address" where
  "tcp_base ip = ''tcp://'' @ ip @ '':''"

section \<open>Server threads\<close>

text \<open>The three-argument constructor leaves \<open>virtual_num_\<close> unset; the model fixes it to 0, and
  only threads built with all four arguments are ever hashed.\<close>

record ServerThread =
  public_ip :: Address
  private_ip :: Address
  tid :: u32
  virtual_num :: u32

definition mk_ServerThread :: "Address \<Rightarrow> Address \<Rightarrow> u32 \<Rightarrow> u32 \<Rightarrow> ServerThread" where
  "mk_ServerThread pub priv t v = \<lparr>public_ip = pub, private_ip = priv, tid = t, virtual_num = v\<rparr>"

definition mk_ServerThread3 :: "Address \<Rightarrow> Address \<Rightarrow> u32 \<Rightarrow> ServerThread" where
  "mk_ServerThread3 pub priv t = mk_ServerThread pub priv t 0"

definition public_base :: "ServerThread \<Rightarrow> Address" where
  "public_base st = tcp_base (public_ip st)"

definition private_base :: "ServerThread \<Rightarrow> Address" where
  "private_base st = tcp_base (private_ip st)"

definition thread_id_string :: "ServerThread \<Rightarrow> string" where
  "thread_id_string st = private_ip st @ '':'' @ to_string (tid st)"

definition virtual_id :: "ServerThread \<Rightarrow> string" where
  "virtual_id st = private_ip st @ '':'' @ to_string (tid st) @ ''_'' @ to_string (virtual_num st)"

definition st_eq :: "ServerThread \<Rightarrow> ServerThread \<Rightarrow> bool" where
  "st_eq l r \<longleftrightarrow> thread_id_string l = thread_id_string r"

definition node_join_connect_address :: "ServerThread \<Rightarrow> Address" where
  "node_join_connect_address st = private_base st @ to_string (tid st + kNodeJoinPort)"

definition node_join_bind_address :: "ServerThread \<Rightarrow> Address" where
  "node_join_bind_address st = kBindBase @ to_string (tid st + kNodeJoinPort)"

definition node_depart_connect_address :: "ServerThread \<Rightarrow> Address" where
  "node_depart_connect_address st = private_base st @ to_string (tid st + kNodeDepartPort)"

definition node_depart_bind_address :: "ServerThread \<Rightarrow> Address" where
  "node_depart_bind_address st = kBindBase @ to_string (tid st + kNodeDepartPort)"

definition self_depart_connect_address :: "ServerThread \<Rightarrow> Address" where
  "self_depart_connect_address st = private_base st @ to_string (tid st + kSelfDepartPort)"

definition self_depart_bind_address :: "ServerThread \<Rightarrow> Address" where
  "self_depart_bind_address st = kBindBase @ to_string (tid st + kSelfDepartPort)"

definition key_request_connect_address :: "ServerThread \<Rightarrow> Address" where
  "key_request_connect_address st = public_base st @ to_string (tid st + kKeyRequestPort)"

definition key_request_bind_address :: "ServerThread \<Rightarrow> Address" where
  "key_request_bind_address st = kBindBase @ to_string (tid st + kKeyRequestPort)"

definition replication_response_connect_address :: "ServerThread \<Rightarrow> Address" where
  "replication_response_connect_address st =
     private_base st @ to_string (tid st + kServerReplicationResponsePort)"

definition replication_response_bind_address :: "ServerThread \<Rightarrow> Address" where
  "replication_response_bind_address st = kBindBase @ to_string (tid st + kServerReplicationResponsePort)"

definition cache_ip_response_connect_address :: "ServerThread \<Rightarrow> Address" where
  "cache_ip_response_connect_address st = private_base st @ to_string (tid st + kCacheIpResponsePort)"

definition cache_ip_response_bind_address :: "ServerThread \<Rightarrow> Address" where
  "cache_ip_response_bind_address st = kBindBase @ to_string (tid st + kCacheIpResponsePort)"

definition management_node_response_connect_address :: "ServerThread \<Rightarrow> Address" where
  "management_node_response_connect_address st =
     private_base st @ to_string (tid st + kManagementNodeResponsePort)"

definition management_node_response_bind_address :: "ServerThread \<Rightarrow> Address" where
  "management_node_response_bind_address st = kBindBase @ to_string (tid st + kManagementNodeResponsePort)"

definition gossip_connect_address :: "ServerThread \<Rightarrow> Address" where
  "gossip_connect_address st = private_base st @ to_string (tid st + kGossipPort)"

definition gossip_bind_address :: "ServerThread \<Rightarrow> Address" where
  "gossip_bind_address st = kBindBase @ to_string (tid st + kGossipPort)"

definition replication_change_connect_address :: "ServerThread \<Rightarrow> Address" where
  "replication_change_connect_address st =
     private_base st @ to_string (tid st + kServerReplicationChangePort)"

definition replication_change_bind_address :: "ServerThread \<Rightarrow> Address" where
  "replication_change_bind_address st = kBindBase @ to_string (tid st + kServerReplicationChangePort)"

section \<open>Routing, monitoring, cache, benchmark and user threads\<close>

record RoutingThread =
  rt_ip :: Address
  rt_tid :: u32

definition mk_RoutingThread :: "Address \<Rightarrow> u32 \<Rightarrow> RoutingThread" where
  "mk_RoutingThread ip t = \<lparr>rt_ip = ip, rt_tid = t\<rparr>"

definition rt_seed_connect_address :: "RoutingThread \<Rightarrow> Address" where
  "rt_seed_connect_address rt = tcp_base (rt_ip rt) @ to_string (rt_tid rt + kSeedPort)"

definition rt_seed_bind_address :: "RoutingThread \<Rightarrow> Address" where
  "rt_seed_bind_address rt = kBindBase @ to_string (rt_tid rt + kSeedPort)"

definition rt_notify_connect_address :: "RoutingThread \<Rightarrow> Address" where
  "rt_notify_connect_address rt = tcp_base (rt_ip rt) @ to_string (rt_tid rt + kRoutingNotifyPort)"

definition rt_notify_bind_address :: "RoutingThread \<Rightarrow> Address" where
  "rt_notify_bind_address rt = kBindBase @ to_string (rt_tid rt + kRoutingNotifyPort)"

definition rt_key_address_connect_address :: "RoutingThread \<Rightarrow> Address" where
  "rt_key_address_connect_address rt = tcp_base (rt_ip rt) @ to_string (rt_tid rt + kKeyAddressPort)"

definition rt_key_address_bind_address :: "RoutingThread \<Rightarrow> Address" where
  "rt_key_address_bind_address rt = kBindBase @ to_string (rt_tid rt + kKeyAddressPort)"

definition rt_replication_response_connect_address :: "RoutingThread \<Rightarrow> Address" where
  "rt_replication_response_connect_address rt =
     tcp_base (rt_ip rt) @ to_string (rt_tid rt + kRoutingReplicationResponsePort)"

definition rt_replication_response_bind_address :: "RoutingThread \<Rightarrow> Address" where
  "rt_replication_response_bind_address rt = kBindBase @ to_string (rt_tid rt + kRoutingReplicationResponsePort)"

definition rt_replication_change_connect_address :: "RoutingThread \<Rightarrow> Address" where
  "rt_replication_change_connect_address rt =
     tcp_base (rt_ip rt) @ to_string (rt_tid rt + kRoutingReplicationChangePort)"

definition rt_replication_change_bind_address :: "RoutingThread \<Rightarrow> Address" where
  "rt_replication_change_bind_address rt = kBindBase @ to_string (rt_tid rt + kRoutingReplicationChangePort)"

text \<open>A \<open>MonitoringThread\<close> is its IP address.\<close>

definition mt_notify_connect_address :: "Address \<Rightarrow> Address" where
  "mt_notify_connect_address ip = tcp_base ip @ to_string kMonitoringNotifyPort"

definition mt_response_connect_address :: "Address \<Rightarrow> Address" where
  "mt_response_connect_address ip = tcp_base ip @ to_string kMonitoringResponsePort"

definition mt_depart_done_connect_address :: "Address \<Rightarrow> Address" where
  "mt_depart_done_connect_address ip = tcp_base ip @ to_string kDepartDonePort"

definition mt_feedback_report_connect_address :: "Address \<Rightarrow> Address" where
  "mt_feedback_report_connect_address ip = tcp_base ip @ to_string kFeedbackReportPort"

record UserThread =
  ut_ip :: Address
  ut_tid :: u32

definition ut_response_connect_address :: "UserThread \<Rightarrow> Address" where
  "ut_response_connect_address ut = tcp_base (ut_ip ut) @ to_string (ut_tid ut + kUserResponsePort)"

definition ut_key_address_connect_address :: "UserThread \<Rightarrow> Address" where
  "ut_key_address_connect_address ut = tcp_base (ut_ip ut) @ to_string (ut_tid ut + kUserKeyAddressPort)"

definition cache_update_connect_address :: "Address \<Rightarrow> u32 \<Rightarrow> Address" where
  "cache_update_connect_address ip t = tcp_base ip @ to_string (t + kCacheUpdatePort)"

definition get_join_count_req_address :: "Address \<Rightarrow> Address" where
  "get_join_count_req_address management_ip = tcp_base management_ip @ to_string kKopsRestartCountPort"

definition get_func_nodes_req_address :: "Address \<Rightarrow> Address" where
  "get_func_nodes_req_address management_ip = tcp_base management_ip @ to_string kKopsFuncNodesPort"

section \<open>Identity of server threads\<close>

lemma split_at_last:
  assumes "a @ c # x = b @ c # y" and "c \<notin> set x" and "c \<notin> set y"
  shows "a = b \<and> x = y"
proof -
  from assms(1) have "rev (a @ c # x) = rev (b @ c # y)"
    by (simp only:)
  then have "rev x @ c # rev a = rev y @ c # rev b"
    by (simp only: rev_append rev.simps append_assoc append_Cons append_Nil)
  then have "takeWhile (\<lambda>d. d \<noteq> c) (rev x @ c # rev a) = takeWhile (\<lambda>d. d \<noteq> c) (rev y @ c # rev b)"
    by simp
  moreover have "takeWhile (\<lambda>d. d \<noteq> c) (rev z @ c # r) = rev z" if "c \<notin> set z" for z r
    using that by (simp add: takeWhile_append)
  ultimately have "rev x = rev y" using assms(2,3) by (simp del: rev_is_rev_conv)
  with assms(1) show ?thesis by simp
qed

lemma colon_notin_to_string: "CHR '':'' \<notin> set (to_string w)"
  using to_string_digits digit_not_special by blast

text \<open>\<open>operator==\<close> on server threads compares the private address and the thread number.\<close>

lemma st_eq_iff: "st_eq l r \<longleftrightarrow> private_ip l = private_ip r \<and> tid l = tid r"
proof
  assume "st_eq l r"
  then have "private_ip l @ CHR '':'' # to_string (tid l) = private_ip r @ CHR '':'' # to_string (tid r)"
    by (simp add: st_eq_def thread_id_string_def)
  from split_at_last [OF this colon_notin_to_string colon_notin_to_string]
  show "private_ip l = private_ip r \<and> tid l = tid r" by simp
qed (simp add: st_eq_def thread_id_string_def)

lemma st_eq_refl [simp]: "st_eq s s"
  by (simp add: st_eq_iff)

lemma st_eq_sym: "st_eq a b \<longleftrightarrow> st_eq b a"
  by (auto simp: st_eq_iff)

lemma st_eq_trans: "st_eq a b \<Longrightarrow> st_eq b c \<Longrightarrow> st_eq a c"
  by (simp add: st_eq_iff)

text \<open>Two addresses over the same base and different ports differ.\<close>

lemma tcp_base_inject: "tcp_base a @ to_string p = tcp_base b @ to_string q \<longleftrightarrow> a = b \<and> p = q"
proof
  assume "tcp_base a @ to_string p = tcp_base b @ to_string q"
  then have "a @ CHR '':'' # to_string p = b @ CHR '':'' # to_string q"
    by (simp add: tcp_base_def)
  from split_at_last [OF this colon_notin_to_string colon_notin_to_string]
  show "a = b \<and> p = q" by simp
qed simp

lemma gossip_connect_address_inject:
  "gossip_connect_address a = gossip_connect_address b \<longleftrightarrow> st_eq a b"
  by (simp add: gossip_connect_address_def private_base_def tcp_base_inject st_eq_iff)

section \<open>Properties\<close>

text \<open>The nine sockets a server thread binds, in the order of the poll set of \<open>server.cpp\<close>.\<close>

definition server_bind_addresses :: "ServerThread \<Rightarrow> Address list" where
  "server_bind_addresses st =
     [node_join_bind_address st, node_depart_bind_address st, self_depart_bind_address st,
      key_request_bind_address st, gossip_bind_address st, replication_response_bind_address st,
      replication_change_bind_address st, cache_ip_response_bind_address st,
      management_node_response_bind_address st]"

definition server_port_bases :: "u32 list" where
  "server_port_bases =
     [kNodeJoinPort, kNodeDepartPort, kSelfDepartPort, kKeyRequestPort, kGossipPort,
      kServerReplicationResponsePort, kServerReplicationChangePort, kCacheIpResponsePort,
      kManagementNodeResponsePort]"

lemmas server_bind_defs = node_join_bind_address_def node_depart_bind_address_def
  self_depart_bind_address_def key_request_bind_address_def gossip_bind_address_def
  replication_response_bind_address_def replication_change_bind_address_def
  cache_ip_response_bind_address_def management_node_response_bind_address_def

lemma server_bind_addresses_ports:
  "server_bind_addresses st = map (\<lambda>p. kBindBase @ to_string (tid st + p)) server_port_bases"
  by (simp add: server_bind_addresses_def server_port_bases_def server_bind_defs)

lemma server_ports_spaced:
  assumes "p \<in> set server_port_bases" and "q \<in> set server_port_bases"
    and "t < 50" and "u < (50 :: u32)" and "t + p = u + q"
  shows "t = u \<and> p = q"
proof -
  have "unat t < 50" "unat u < 50" using assms(3,4) by (simp_all add: word_less_nat_alt)
  moreover have "unat (t + p) = unat t + unat p" if "unat t < 50" "p \<in> set server_port_bases" for t p :: u32
    using that by (auto simp: server_port_bases_def port_defs unat_word_ariths)
  ultimately have "unat (t + p) = unat t + unat p" "unat (u + q) = unat u + unat q"
    using assms(1,2) by blast+
  with assms(5) have eq: "unat t + unat p = unat u + unat q" by simp
  have "unat r mod 50 = 0" if "r \<in> set server_port_bases" for r
    using that by (auto simp: server_port_bases_def port_defs)
  with assms(1,2) obtain i j where "unat p = 50 * i" "unat q = 50 * j"
    by (meson dvdE mod_0_imp_dvd)
  with eq \<open>unat t < 50\<close> \<open>unat u < 50\<close> have "unat t = unat u"
    by presburger
  moreover from this eq have "unat p = unat q" by simp
  ultimately show ?thesis by (simp only: word_unat_eq_iff)
qed

text \<open>C22: the worker threads of one machine never fight for a socket: with fewer than fifty
  threads, no two of the nine addresses bound by any two server threads coincide.\<close>

theorem server_bind_addresses_disjoint:
  assumes "tid a < 50" and "tid b < 50" and "tid a \<noteq> tid b"
  shows "distinct (server_bind_addresses a @ server_bind_addresses b)"
proof -
  have "distinct (server_bind_addresses s)" for s
    by (simp add: server_bind_addresses_ports server_port_bases_def port_defs)
  moreover have "x \<noteq> y" if "x \<in> set (server_bind_addresses a)" "y \<in> set (server_bind_addresses b)" for x y
  proof -
    obtain p q where "p \<in> set server_port_bases" "q \<in> set server_port_bases"
      and "x = kBindBase @ to_string (tid a + p)" "y = kBindBase @ to_string (tid b + q)"
      using \<open>x \<in> _\<close> \<open>y \<in> _\<close> by (auto simp: server_bind_addresses_ports)
    then show "x \<noteq> y" using assms server_ports_spaced [of p q "tid a" "tid b"] by auto
  qed
  ultimately show ?thesis by auto
qed

theorem server_bind_addresses_disjoint_witness:
  "distinct (server_bind_addresses (mk_ServerThread3 ''a'' ''b'' 0) @
             server_bind_addresses (mk_ServerThread3 ''a'' ''b'' 49))"
  by (rule server_bind_addresses_disjoint) (simp_all add: mk_ServerThread3_def mk_ServerThread_def)

end
