(* ===== verification/Wire.thy ===== *)
theory Wire
  imports Complex_Main Lattice_Types Threads "HOL-Library.List_Lexorder" "HOL-Library.Char_ord"
begin

text \<open>
  Messages, metadata keys and payload encodings: the \<open>.proto\<close> files under
  \<open>common/proto/\<close> and \<open>include/proto/\<close>, \<open>common/include/common.hpp\<close>,
  \<open>include/metadata.hpp\<close> and the tuple helpers of \<open>include/kvs_common.hpp\<close>.

  A protobuf message is a record (or, for a message with one field, that field). The
  classes that turn messages into bytes are generated by the build and are a
  parameter: a \<open>codec\<close> per payload message, holding \<open>SerializeToString\<close> (\<open>enc\<close>), the answer of
  \<open>ParseFromString\<close> (\<open>parse_ok\<close>) and the object's content afterwards (\<open>parsed\<close>). Messages
  that travel on a socket are kept as values of \<open>frame\<close>; payloads inside them are
  strings produced by the codecs. C++ \<open>double\<close> is a rational number: rounding is not
  modelled.
\<close>

type_synonym double = rat

section \<open>Enumerations\<close>

datatype Tier = TIER_UNSPECIFIED | MEMORY | DISK | ROUTING

datatype RequestType = RT_UNSPECIFIED | GET | PUT

datatype LatticeType = NONE | LWW | SET | SINGLE_CAUSAL | MULTI_CAUSAL | ORDERED_SET | PRIORITY

datatype AnnaError = NO_ERROR | KEY_DNE | WRONG_THREAD | TIMEOUT | LATTICE | NO_SERVERS

datatype MetadataType = replication | server_stats | key_access | key_size

definition Tier_Name :: "Tier \<Rightarrow> string" where
  "Tier_Name t = (case t of TIER_UNSPECIFIED \<Rightarrow> ''TIER_UNSPECIFIED'' | MEMORY \<Rightarrow> ''MEMORY''
     | DISK \<Rightarrow> ''DISK'' | ROUTING \<Rightarrow> ''ROUTING'')"

text \<open>An unknown name leaves the caller's tier variable unset.\<close>

definition Tier_Parse :: "string \<Rightarrow> Tier res" where
  "Tier_Parse s = (if s = ''TIER_UNSPECIFIED'' then Inr TIER_UNSPECIFIED
     else if s = ''MEMORY'' then Inr MEMORY else if s = ''DISK'' then Inr DISK
     else if s = ''ROUTING'' then Inr ROUTING else Inl Bad_tier)"

definition tier_value :: "Tier \<Rightarrow> nat" where
  "tier_value t = (case t of TIER_UNSPECIFIED \<Rightarrow> 0 | MEMORY \<Rightarrow> 1 | DISK \<Rightarrow> 2 | ROUTING \<Rightarrow> 3)"

definition kAllTiers :: "Tier list" where
  "kAllTiers = [MEMORY, DISK]"

lemma Tier_Parse_Name [simp]: "Tier_Parse (Tier_Name t) = Inr t"
  by (cases t) (simp_all add: Tier_Name_def Tier_Parse_def)

section \<open>Messages\<close>

record KeyTuple =
  kt_key :: Key
  kt_lattice_type :: LatticeType
  kt_error :: AnnaError
  kt_payload :: string
  kt_address_cache_size :: u32
  kt_invalidate :: bool

definition KeyTuple_default :: KeyTuple where
  "KeyTuple_default = \<lparr>kt_key = [], kt_lattice_type = NONE, kt_error = NO_ERROR, kt_payload = [],
     kt_address_cache_size = 0, kt_invalidate = False\<rparr>"

record KeyRequest =
  kr_type :: RequestType
  kr_tuples :: "KeyTuple list"
  kr_response_address :: Address
  kr_request_id :: string

definition KeyRequest_default :: KeyRequest where
  "KeyRequest_default = \<lparr>kr_type = RT_UNSPECIFIED, kr_tuples = [], kr_response_address = [], kr_request_id = []\<rparr>"

record KeyResponse =
  kp_type :: RequestType
  kp_tuples :: "KeyTuple list"
  kp_response_id :: string
  kp_error :: AnnaError

definition KeyResponse_default :: KeyResponse where
  "KeyResponse_default = \<lparr>kp_type = RT_UNSPECIFIED, kp_tuples = [], kp_response_id = [], kp_error = NO_ERROR\<rparr>"

record KeyAddressRequest =
  kar_response_address :: Address
  kar_keys :: "Key list"
  kar_request_id :: string

record KeyAddressResponse =
  kap_addresses :: "(Key \<times> Address list) list"
  kap_error :: AnnaError
  kap_response_id :: string

definition KeyAddressResponse_default :: KeyAddressResponse where
  "KeyAddressResponse_default = \<lparr>kap_addresses = [], kap_error = NO_ERROR, kap_response_id = []\<rparr>"

record LWWValue =
  lv_timestamp :: u64
  lv_value :: string

record SingleKeyCausalValue =
  skv_vector_clock :: VectorClock
  skv_values :: "string list"

record MultiKeyCausalValue =
  mkv_vector_clock :: VectorClock
  mkv_dependencies :: "(Key \<times> VectorClock) list"
  mkv_values :: "string list"

record PriorityValue =
  prv_priority :: double
  prv_value :: string

record ReplicationFactor =
  rf_key :: Key
  rf_global :: "(Tier \<times> u32) list"
  rf_local :: "(Tier \<times> u32) list"

record ServerThreadStatistics =
  sts_storage_consumption :: u64
  sts_occupancy :: double
  sts_epoch :: u32
  sts_access_count :: u32

type_synonym SetValue = "string list"
type_synonym StringSet = "string list"
type_synonym KeyAccessData = "(Key \<times> u32) list"
type_synonym KeySizeData = "(Key \<times> u32) list"
type_synonym ReplicationFactorUpdate = "ReplicationFactor list"
type_synonym ClusterMembership = "(Tier \<times> (Address \<times> Address) list) list"

datatype frame =
    Request KeyRequest
  | Response KeyResponse
  | AddressRequest KeyAddressRequest
  | AddressResponse KeyAddressResponse
  | RepUpdate ReplicationFactorUpdate
  | Membership ClusterMembership
  | Text string

type_synonym sends = "(Address \<times> frame) list"

section \<open>Generated encoders\<close>

record 'm codec =
  enc :: "'m \<Rightarrow> string"
  parse_ok :: "string \<Rightarrow> bool"
  parsed :: "string \<Rightarrow> 'm"

text \<open>What protobuf promises of a message class: parsing what was serialized succeeds and
  gives back an equal message. Messages with a map field are equal up to the order of the
  map's entries, which is what \<open>eqv\<close> is for.\<close>

definition codec_ok :: "('m \<Rightarrow> 'm \<Rightarrow> bool) \<Rightarrow> 'm codec \<Rightarrow> bool" where
  "codec_ok eqv c \<longleftrightarrow> (\<forall>m. parse_ok c (enc c m) \<and> eqv (parsed c (enc c m)) m)"

record codecs =
  pb_lww :: "LWWValue codec"
  pb_set :: "SetValue codec"
  pb_sk :: "SingleKeyCausalValue codec"
  pb_mk :: "MultiKeyCausalValue codec"
  pb_prio :: "PriorityValue codec"
  pb_rep :: "ReplicationFactor codec"
  pb_strset :: "StringSet codec"
  pb_stat :: "ServerThreadStatistics codec"
  pb_access :: "KeyAccessData codec"
  pb_size :: "KeySizeData codec"

lemma codec_ok_parsed [simp]: "codec_ok (=) c \<Longrightarrow> parsed c (enc c m) = m"
  by (simp add: codec_ok_def)

lemma codec_ok_eqv: "codec_ok eqv c \<Longrightarrow> eqv (parsed c (enc c m)) m"
  by (simp add: codec_ok_def)

lemma codec_ok_parse_ok: "codec_ok eqv c \<Longrightarrow> parse_ok c (enc c m)"
  by (simp add: codec_ok_def)

section \<open>Tuple helpers\<close>

definition prepare_get_tuple :: "Key \<Rightarrow> LatticeType \<Rightarrow> KeyRequest \<Rightarrow> KeyRequest" where
  "prepare_get_tuple key lattice_type req =
     req\<lparr>kr_tuples := kr_tuples req @ [KeyTuple_default\<lparr>kt_key := key, kt_lattice_type := lattice_type\<rparr>]\<rparr>"

definition prepare_put_tuple :: "Key \<Rightarrow> LatticeType \<Rightarrow> string \<Rightarrow> KeyRequest \<Rightarrow> KeyRequest" where
  "prepare_put_tuple key lattice_type payload req =
     req\<lparr>kr_tuples := kr_tuples req @
        [KeyTuple_default\<lparr>kt_key := key, kt_lattice_type := lattice_type, kt_payload := payload\<rparr>]\<rparr>"

section \<open>Run-time constants and replication metadata\<close>

record KeyReplication =
  global_replication :: "(Tier, u32) umap"
  local_replication :: "(Tier, u32) umap"

definition KeyReplication_default :: KeyReplication where
  "KeyReplication_default = \<lparr>global_replication = [], local_replication = []\<rparr>"

definition KeyReplication_eq :: "KeyReplication \<Rightarrow> KeyReplication \<Rightarrow> bool" where
  "KeyReplication_eq lhs rhs \<longleftrightarrow>
     list_all (\<lambda>(t, n). map_of (global_replication rhs) t = Some n) (global_replication lhs) \<and>
     list_all (\<lambda>(t, n). map_of (local_replication rhs) t = Some n) (local_replication lhs)"

record KeyProperty =
  kp_size :: u32
  kp_lattice :: LatticeType

record TierMetadata =
  tm_id :: Tier
  thread_number :: u32
  default_replication :: u32
  node_capacity :: u64

definition TierMetadata_default :: TierMetadata where
  "TierMetadata_default = \<lparr>tm_id = MEMORY, thread_number = 1, default_replication = 1, node_capacity = 0\<rparr>"

text \<open>The constants each executable reads from its configuration file. \<open>kVirtualThreadNum\<close>
  (3000 in the source) is a field so that a small cluster can be written down.\<close>

record config =
  kSelfTier :: Tier
  kSelfTierIdVector :: "Tier list"
  kThreadNum :: u32
  kMemoryThreadCount :: u32
  kEbsThreadCount :: u32
  kRoutingThreadCount :: u32
  kMemoryNodeCapacity :: u64
  kEbsNodeCapacity :: u64
  kDefaultGlobalMemoryReplication :: u32
  kDefaultGlobalEbsReplication :: u32
  kDefaultLocalReplication :: u32
  kMinimumReplicaNumber :: u32
  kTierMetadata :: "(Tier, TierMetadata) umap"
  kVirtualThreadNum :: u32

definition kMetadataReplicationFactor :: u32 where "kMetadataReplicationFactor = 1"
definition kMetadataLocalReplicationFactor :: u32 where "kMetadataLocalReplicationFactor = 1"

definition tier_metadata :: "config \<Rightarrow> Tier \<Rightarrow> TierMetadata" where
  "tier_metadata cfg t = umap_get TierMetadata_default (kTierMetadata cfg) t"

definition set_global :: "Key \<Rightarrow> Tier \<Rightarrow> u32 \<Rightarrow> (Key, KeyReplication) umap \<Rightarrow> (Key, KeyReplication) umap" where
  "set_global key t n = umap_mod KeyReplication_default key
     (\<lambda>r. r\<lparr>global_replication := umap_put t n (global_replication r)\<rparr>)"

definition set_local :: "Key \<Rightarrow> Tier \<Rightarrow> u32 \<Rightarrow> (Key, KeyReplication) umap \<Rightarrow> (Key, KeyReplication) umap" where
  "set_local key t n = umap_mod KeyReplication_default key
     (\<lambda>r. r\<lparr>local_replication := umap_put t n (local_replication r)\<rparr>)"

definition init_replication :: "config \<Rightarrow> Key \<Rightarrow> (Key, KeyReplication) umap \<Rightarrow> (Key, KeyReplication) umap" where
  "init_replication cfg key m =
     fold (\<lambda>tier m. set_local key tier (kDefaultLocalReplication cfg)
                      (set_global key tier (default_replication (tier_metadata cfg tier)) m))
       kAllTiers m"

text \<open>The source runs the warm-up for the million keys \<open>00000001\<close> to \<open>01000000\<close>; the number of
  keys is the first argument.\<close>

definition warmup_key :: "nat \<Rightarrow> Key" where
  "warmup_key i = (let d = nat_to_string i in replicate (8 - length d) (CHR ''0'') @ d)"

definition warmup_key_replication_map_to_defaults ::
  "nat \<Rightarrow> u32 \<Rightarrow> u32 \<Rightarrow> u32 \<Rightarrow> (Key, KeyReplication) umap \<Rightarrow> (Key, KeyReplication) umap" where
  "warmup_key_replication_map_to_defaults n memory_rep ebs_rep local_rep m =
     fold (\<lambda>i m. let key = warmup_key i
               in set_local key DISK local_rep (set_local key MEMORY local_rep
                    (set_global key DISK ebs_rep (set_global key MEMORY memory_rep m))))
       [1..<Suc n] m"

section \<open>Metadata keys\<close>

definition kMetadataIdentifier :: string where "kMetadataIdentifier = ''ANNA_METADATA''"
definition kMetadataDelimiter :: string where "kMetadataDelimiter = ''|''"
definition kMetadataTypeReplication :: string where "kMetadataTypeReplication = ''replication''"
definition kMetadataTypeCacheIP :: string where "kMetadataTypeCacheIP = ''cache_ip''"

lemmas metadata_consts = kMetadataIdentifier_def kMetadataDelimiter_def kMetadataTypeReplication_def
  kMetadataTypeCacheIP_def

text \<open>\<open>is_metadata\<close> reads the first piece of the key; of the empty key there is none, C++
  reads past the vector, and the model answers \<open>False\<close>.\<close>

definition is_metadata :: "Key \<Rightarrow> bool" where
  "is_metadata key \<longleftrightarrow>
     (case split_string key (CHR ''|'') of [] \<Rightarrow> False | v0 # _ \<Rightarrow> v0 = kMetadataIdentifier)"

definition get_metadata_key_thread :: "ServerThread \<Rightarrow> Tier \<Rightarrow> u32 \<Rightarrow> MetadataType \<Rightarrow> Key" where
  "get_metadata_key_thread st tier_id thread_num ty =
     (case ty of
        replication \<Rightarrow> []
      | _ \<Rightarrow> let metadata_type = (case ty of server_stats \<Rightarrow> ''stats'' | key_access \<Rightarrow> ''access'' | _ \<Rightarrow> ''size'')
             in kMetadataIdentifier @ kMetadataDelimiter @ metadata_type @ kMetadataDelimiter @
                public_ip st @ kMetadataDelimiter @ private_ip st @ kMetadataDelimiter @
                to_string thread_num @ kMetadataDelimiter @ Tier_Name tier_id)"

definition get_metadata_key :: "Key \<Rightarrow> MetadataType \<Rightarrow> Key" where
  "get_metadata_key data_key ty =
     (if ty = replication
      then kMetadataIdentifier @ kMetadataDelimiter @ kMetadataTypeReplication @ kMetadataDelimiter @ data_key
      else [])"

definition get_user_metadata_key :: "string \<Rightarrow> Key" where
  "get_user_metadata_key data_key =
     kMetadataIdentifier @ kMetadataDelimiter @ kMetadataTypeCacheIP @ kMetadataDelimiter @ data_key"

definition split_metadata_key :: "Key \<Rightarrow> string list" where
  "split_metadata_key key = split_string key (CHR ''|'')"

text \<open>\<open>s.find(c, from)\<close>; \<open>None\<close> is \<open>npos\<close>. \<open>npos + 1\<close> wraps to 0, which is \<open>find_next\<close>.\<close>

definition str_find :: "string \<Rightarrow> char \<Rightarrow> nat \<Rightarrow> nat option" where
  "str_find s c from =
     (let rest = drop from s; n = length (takeWhile (\<lambda>d. d \<noteq> c) rest)
      in if n < length rest then Some (from + n) else None)"

definition find_next :: "nat option \<Rightarrow> nat" where
  "find_next p = (case p of None \<Rightarrow> 0 | Some i \<Rightarrow> Suc i)"

definition typed_metadata_suffix :: "string \<Rightarrow> Key \<Rightarrow> Key" where
  "typed_metadata_suffix expected metadata_key =
     (let n_id = str_find metadata_key (CHR ''|'') 0;
          n_type = str_find metadata_key (CHR ''|'') (find_next n_id);
          rest = drop (find_next n_id) metadata_key;
          metadata_type = (case n_type of None \<Rightarrow> rest | Some j \<Rightarrow> take (j - find_next n_id) rest)
      in if metadata_type = expected then drop (find_next n_type) metadata_key else [])"

definition get_key_from_metadata :: "Key \<Rightarrow> Key" where
  "get_key_from_metadata metadata_key = typed_metadata_suffix kMetadataTypeReplication metadata_key"

definition get_key_from_user_metadata :: "Key \<Rightarrow> Key" where
  "get_key_from_user_metadata metadata_key = typed_metadata_suffix kMetadataTypeCacheIP metadata_key"

lemma str_find_piece:
  assumes "c \<notin> set a"
  shows "str_find (p @ a @ c # r) c (length p) = Some (length p + length a)"
proof -
  have "takeWhile (\<lambda>d. d \<noteq> c) (a @ c # r) = a" using assms by (simp add: takeWhile_append)
  then show ?thesis by (simp add: str_find_def)
qed

lemma typed_metadata_suffix_key:
  assumes "CHR ''|'' \<notin> set ident" and "CHR ''|'' \<notin> set ty"
  shows "typed_metadata_suffix ty (ident @ CHR ''|'' # ty @ CHR ''|'' # k) = k"
proof -
  have 1: "str_find (ident @ CHR ''|'' # ty @ CHR ''|'' # k) (CHR ''|'') 0 = Some (length ident)"
    using str_find_piece [of "CHR ''|''" ident "[]"] assms(1) by simp
  have 2: "str_find (ident @ CHR ''|'' # ty @ CHR ''|'' # k) (CHR ''|'') (Suc (length ident)) =
      Some (Suc (length ident) + length ty)"
    using str_find_piece [of "CHR ''|''" ty "ident @ [CHR ''|'']" k] assms(2) by simp
  show ?thesis
    by (simp add: typed_metadata_suffix_def Let_def 1 find_next_def 2)
qed

section \<open>Timestamps\<close>

text \<open>\<open>while (id >= pow) pow *= 10\<close> on \<open>unsigned\<close>: the product can wrap, so the loop need not
  end; then there is no result.\<close>

partial_function (option) pow_loop :: "u32 \<Rightarrow> u32 \<Rightarrow> u32 option" where
  "pow_loop i pow = (if i \<ge> pow then pow_loop i (pow * 10) else Some pow)"

declare pow_loop.simps [code]

definition generate_timestamp :: "u64 \<Rightarrow> u32 \<Rightarrow> u64 res" where
  "generate_timestamp time i =
     (case pow_loop i 10 of
        None \<Rightarrow> Inl Diverges
      | Some pow \<Rightarrow> Inr (time * ucast pow + ucast i))"

section \<open>Payload encodings\<close>

definition serialize_lww :: "codecs \<Rightarrow> string TimestampValuePair \<Rightarrow> string" where
  "serialize_lww pb l = enc (pb_lww pb) \<lparr>lv_timestamp = tv_timestamp l, lv_value = tv_value l\<rparr>"

definition serialize_ts :: "codecs \<Rightarrow> u64 \<Rightarrow> string \<Rightarrow> string" where
  "serialize_ts pb timestamp v = enc (pb_lww pb) \<lparr>lv_timestamp = timestamp, lv_value = v\<rparr>"

definition serialize_set :: "codecs \<Rightarrow> string uset \<Rightarrow> string" where
  "serialize_set pb l = enc (pb_set pb) (fold (\<lambda>val vs. vs @ [val]) l [])"

definition serialize_ordered_set :: "codecs \<Rightarrow> string list \<Rightarrow> string" where
  "serialize_ordered_set pb l = enc (pb_set pb) (fold (\<lambda>val vs. vs @ [val]) l [])"

definition copy_clock :: "VectorClock \<Rightarrow> VectorClock" where
  "copy_clock vc = fold (\<lambda>(k, v). umap_put k v) vc []"

definition serialize_sk :: "codecs \<Rightarrow> string VectorClockValuePair \<Rightarrow> string" where
  "serialize_sk pb l = enc (pb_sk pb)
     \<lparr>skv_vector_clock = copy_clock (sk_vector_clock l), skv_values = fold (\<lambda>val vs. vs @ [val]) (sk_value l) []\<rparr>"

definition serialize_mk :: "codecs \<Rightarrow> string MultiKeyCausalPayload \<Rightarrow> string" where
  "serialize_mk pb l = enc (pb_mk pb)
     \<lparr>mkv_vector_clock = copy_clock (mk_vector_clock l),
      mkv_dependencies = fold (\<lambda>(k, vc) ds. ds @ [(k, copy_clock vc)]) (mk_dependencies l) [],
      mkv_values = fold (\<lambda>val vs. vs @ [val]) (mk_value l) []\<rparr>"

definition serialize_priority :: "codecs \<Rightarrow> (double, string) PriorityValuePair \<Rightarrow> string" where
  "serialize_priority pb l = enc (pb_prio pb) \<lparr>prv_priority = pv_priority l, prv_value = pv_value l\<rparr>"

definition deserialize_lww :: "codecs \<Rightarrow> string \<Rightarrow> string TimestampValuePair" where
  "deserialize_lww pb s =
     (let lww = parsed (pb_lww pb) s in \<lparr>tv_timestamp = lv_timestamp lww, tv_value = lv_value lww\<rparr>)"

definition deserialize_set :: "codecs \<Rightarrow> string \<Rightarrow> string uset" where
  "deserialize_set pb s = fold uset_insert (parsed (pb_set pb) s) []"

definition deserialize_ordered_set :: "codecs \<Rightarrow> string \<Rightarrow> string list" where
  "deserialize_ordered_set pb s = fold OrderedSetLattice_insert (parsed (pb_set pb) s) []"

definition deserialize_causal :: "codecs \<Rightarrow> string \<Rightarrow> SingleKeyCausalValue" where
  "deserialize_causal pb s = parsed (pb_sk pb) s"

definition deserialize_multi_key_causal :: "codecs \<Rightarrow> string \<Rightarrow> MultiKeyCausalValue" where
  "deserialize_multi_key_causal pb s = parsed (pb_mk pb) s"

definition deserialize_priority :: "codecs \<Rightarrow> string \<Rightarrow> (double, string) PriorityValuePair" where
  "deserialize_priority pb s =
     (let pv = parsed (pb_prio pb) s in \<lparr>pv_priority = prv_priority pv, pv_value = prv_value pv\<rparr>)"

definition to_vector_clock_value_pair :: "SingleKeyCausalValue \<Rightarrow> string VectorClockValuePair" where
  "to_vector_clock_value_pair cv =
     \<lparr>sk_vector_clock = fold (\<lambda>(k, v). VectorClock_insert k v) (skv_vector_clock cv) [],
      sk_value = fold SetLattice_insert (skv_values cv) []\<rparr>"

definition to_multi_key_causal_payload :: "MultiKeyCausalValue \<Rightarrow> string MultiKeyCausalPayload" where
  "to_multi_key_causal_payload mkcv =
     \<lparr>mk_vector_clock = fold (\<lambda>(k, v). VectorClock_insert k v) (mkv_vector_clock mkcv) [],
      mk_dependencies =
        fold (\<lambda>(k, dvc) deps.
                MapLattice_insert VectorClock_merge k
                  (fold (\<lambda>(c, v). VectorClock_insert c v) dvc []) deps)
          (mkv_dependencies mkcv) [],
      mk_value = fold SetLattice_insert (mkv_values mkcv) []\<rparr>"

lemma fold_snoc [simp]: "fold (\<lambda>x ys. ys @ [x]) xs ys = ys @ xs"
  by (induction xs arbitrary: ys) auto

lemma fold_uset_insert_Nil: "distinct s \<Longrightarrow> fold uset_insert s [] = s"
proof -
  have "distinct (r @ s) \<Longrightarrow> fold uset_insert s r = r @ s" for r
    by (induction s arbitrary: r) (auto simp: uset_insert_def)
  from this [of "[]"] show "distinct s \<Longrightarrow> fold uset_insert s [] = s" by simp
qed

lemma deserialize_serialize_lww: "codec_ok (=) (pb_lww pb) \<Longrightarrow> deserialize_lww pb (serialize_lww pb l) = l"
  by (simp add: deserialize_lww_def serialize_lww_def Let_def)

lemma deserialize_serialize_set:
  "codec_ok (=) (pb_set pb) \<Longrightarrow> distinct s \<Longrightarrow> deserialize_set pb (serialize_set pb s) = s"
  by (simp add: deserialize_set_def serialize_set_def fold_uset_insert_Nil)

lemma deserialize_serialize_priority:
  "codec_ok (=) (pb_prio pb) \<Longrightarrow> deserialize_priority pb (serialize_priority pb l) = l"
  by (simp add: deserialize_priority_def serialize_priority_def Let_def)

section \<open>Properties of metadata keys and timestamps\<close>

lemma is_metadata_identifier: "is_metadata (kMetadataIdentifier @ CHR ''|'' # r)"
  by (simp add: is_metadata_def kMetadataIdentifier_def split_string_piece [of _ "''ANNA_METADATA''", simplified])

lemma typed_metadata_suffix_other:
  assumes "CHR ''|'' \<notin> set ident" and "CHR ''|'' \<notin> set ty" and "ty' \<noteq> ty"
  shows "typed_metadata_suffix ty' (ident @ CHR ''|'' # ty @ CHR ''|'' # k) = []"
proof -
  have 1: "str_find (ident @ CHR ''|'' # ty @ CHR ''|'' # k) (CHR ''|'') 0 = Some (length ident)"
    using str_find_piece [of "CHR ''|''" ident "[]"] assms(1) by simp
  have 2: "str_find (ident @ CHR ''|'' # ty @ CHR ''|'' # k) (CHR ''|'') (Suc (length ident)) =
      Some (Suc (length ident) + length ty)"
    using str_find_piece [of "CHR ''|''" ty "ident @ [CHR ''|'']" k] assms(2) by simp
  show ?thesis
    using assms(3) by (simp add: typed_metadata_suffix_def Let_def 1 find_next_def 2)
qed

lemma metadata_pieces [simp]:
  "CHR ''|'' \<notin> set kMetadataIdentifier" "CHR ''|'' \<notin> set kMetadataTypeReplication"
  "CHR ''|'' \<notin> set kMetadataTypeCacheIP" "kMetadataTypeReplication \<noteq> kMetadataTypeCacheIP"
  "kMetadataTypeCacheIP \<noteq> kMetadataTypeReplication"
  by (simp_all add: metadata_consts)

text \<open>C23: metadata keys decode to what they were made of. The replication key and the cache
  key of a data key give the data key back (whatever characters it holds), each decoder answers the empty
  string on a key of the other kind, and both are recognised as metadata.\<close>

theorem metadata_key_roundtrip:
  "get_key_from_metadata (get_metadata_key k replication) = k \<and>
   get_key_from_user_metadata (get_user_metadata_key k) = k \<and>
   get_key_from_user_metadata (get_metadata_key k replication) = [] \<and>
   get_key_from_metadata (get_user_metadata_key k) = [] \<and>
   is_metadata (get_metadata_key k replication) \<and> is_metadata (get_user_metadata_key k)"
  by (simp add: get_key_from_metadata_def get_metadata_key_def get_user_metadata_key_def
      get_key_from_user_metadata_def kMetadataDelimiter_def typed_metadata_suffix_key
      typed_metadata_suffix_other is_metadata_identifier)

lemma bar_notin_to_string: "CHR ''|'' \<notin> set (to_string w)"
  using to_string_digits digit_not_special by blast

lemma split_Tier_Name: "split_string (Tier_Name t) (CHR ''|'') = [Tier_Name t]"
  by (rule split_string_last) (cases t; simp add: Tier_Name_def)+

text \<open>The statistics keys a server thread writes are split by the monitor into exactly
  the metadata type, the two addresses, the thread number and the tier they were built from, provided no
  address holds the delimiter; \<open>stoi\<close> and \<open>Tier_Parse\<close> recover number and tier.\<close>

theorem split_metadata_key_thread:
  assumes "CHR ''|'' \<notin> set (public_ip st)" and "CHR ''|'' \<notin> set (private_ip st)" and "ty \<noteq> replication"
    and "unat n < 2 ^ 31"
  shows "\<exists>tyname. split_metadata_key (get_metadata_key_thread st tier n ty) =
      [kMetadataIdentifier, tyname, public_ip st, private_ip st, to_string n, Tier_Name tier]
     \<and> (tyname = ''stats'' \<longleftrightarrow> ty = server_stats) \<and> (tyname = ''access'' \<longleftrightarrow> ty = key_access) \<and>
       (tyname = ''size'' \<longleftrightarrow> ty = key_size) \<and>
       stoi (to_string n) = Inr (int (unat n)) \<and> Tier_Parse (Tier_Name tier) = Inr tier"
proof -
  define tn where "tn = (case ty of server_stats \<Rightarrow> ''stats'' | key_access \<Rightarrow> ''access'' | _ \<Rightarrow> ''size'')"
  have bar: "CHR ''|'' \<notin> set tn" by (cases ty) (simp_all add: tn_def)
  have key: "get_metadata_key_thread st tier n ty = kMetadataIdentifier @ CHR ''|'' # tn @ CHR ''|'' #
      public_ip st @ CHR ''|'' # private_ip st @ CHR ''|'' # to_string n @ CHR ''|'' # Tier_Name tier"
    using assms(3) by (cases ty) (simp_all add: get_metadata_key_thread_def tn_def kMetadataDelimiter_def)
  have "split_metadata_key (get_metadata_key_thread st tier n ty) =
      [kMetadataIdentifier, tn, public_ip st, private_ip st, to_string n, Tier_Name tier]"
    using assms(1,2) bar
    by (simp add: split_metadata_key_def key split_string_piece bar_notin_to_string split_Tier_Name)
  moreover have "stoi (to_string n) = Inr (int (unat n))"
    using assms(4) by (simp add: to_string_def stoi_nat_to_string)
  ultimately show ?thesis
    using assms(3) by (intro exI [of _ tn]) (cases ty; simp add: tn_def)
qed

theorem split_metadata_key_thread_witness:
  "\<exists>tyname. split_metadata_key (get_metadata_key_thread (mk_ServerThread3 ''1.2.3.4'' ''10.0.0.1'' 3) DISK 3 key_access) =
      [kMetadataIdentifier, tyname, ''1.2.3.4'', ''10.0.0.1'', to_string (3 :: u32), ''DISK''] \<and> tyname = ''access''"
  using split_metadata_key_thread [of "mk_ServerThread3 ''1.2.3.4'' ''10.0.0.1'' 3" key_access 3 DISK]
  by (simp add: mk_ServerThread3_def mk_ServerThread_def Tier_Name_def)

lemma unat_pow10: "d \<le> 9 \<Longrightarrow> unat ((10 :: u32) ^ d) = 10 ^ d"
proof -
  assume "d \<le> 9"
  then have "(10 :: nat) ^ d \<le> 10 ^ 9" by (intro power_increasing) auto
  then have "(10 :: nat) ^ d < 2 ^ 32" by simp
  moreover have "(10 :: u32) ^ d = of_nat (10 ^ d)" by simp
  ultimately show ?thesis by (simp only: unat_of_nat) (simp add: take_bit_nat_eq_self)
qed

lemma unat_ucast_u64: "unat (ucast (w :: u32) :: u64) = unat w"
proof -
  have "unat w < 2 ^ 32" using unsigned_less [of w, where ?'a = nat] by simp
  then have "unat w < 2 ^ 64" by simp
  then show ?thesis by (simp add: unsigned_ucast_eq take_bit_nat_eq_self)
qed

lemma pow_loop_pow10:
  assumes "unat i < 10 ^ m" and "m \<le> 9" and "1 \<le> d" and "d \<le> m"
  shows "\<exists>e. d \<le> e \<and> e \<le> m \<and> pow_loop i (10 ^ d) = Some (10 ^ e) \<and> unat i < 10 ^ e \<and>
      (e = d \<or> 10 ^ (e - 1) \<le> unat i)"
  using assms
proof (induction "m - d" arbitrary: d)
  case 0
  then have "d = m" by simp
  with 0 have "\<not> i \<ge> 10 ^ d" using unat_pow10 [of d] by (simp add: word_le_nat_alt)
  then have "pow_loop i (10 ^ d) = Some (10 ^ d)" by (subst pow_loop.simps) simp
  with \<open>d = m\<close> 0 show ?case by (intro exI [of _ d]) auto
next
  case (Suc n)
  show ?case
  proof (cases "i \<ge> 10 ^ d")
    case False
    then have "pow_loop i (10 ^ d) = Some (10 ^ d)" by (subst pow_loop.simps) simp
    moreover have "unat i < 10 ^ d" using False Suc.prems unat_pow10 [of d] by (simp add: word_le_nat_alt)
    ultimately show ?thesis using Suc.prems by (intro exI [of _ d]) auto
  next
    case True
    then have step: "pow_loop i (10 ^ d) = pow_loop i (10 ^ Suc d)"
      by (subst pow_loop.simps) (simp add: mult.commute)
    have n: "n = m - Suc d" "Suc d \<le> m" using Suc.hyps(2) by auto
    from Suc.hyps(1) [OF n(1) Suc.prems(1,2) _ n(2)] obtain e where e: "Suc d \<le> e" "e \<le> m" "pow_loop i (10 ^ Suc d) = Some (10 ^ e)"
      "unat i < 10 ^ e" "e = Suc d \<or> 10 ^ (e - 1) \<le> unat i"
      by auto
    moreover have "10 ^ d \<le> unat i" using True Suc.prems unat_pow10 [of d] by (simp add: word_le_nat_alt)
    ultimately show ?thesis using step by (intro exI [of _ e]) auto
  qed
qed

text \<open>\<open>generate_timestamp\<close> returns for thread ids below a million and clock readings (in
  milliseconds) below \<open>10 ^ 13\<close>, does not overflow, and the time and the id are the quotient and
  the remainder of the timestamp by the smallest power of ten above the id.\<close>

theorem generate_timestamp_decode:
  assumes "unat i < 10 ^ 6" and "unat time < 10 ^ 13"
  shows "\<exists>ts e. generate_timestamp time i = Inr ts \<and> 1 \<le> e \<and> e \<le> 6 \<and> unat i < 10 ^ e \<and>
      (e = 1 \<or> 10 ^ (e - 1) \<le> unat i) \<and> unat ts div 10 ^ e = unat time \<and> unat ts mod 10 ^ e = unat i"
proof -
  from pow_loop_pow10 [of i 6 1] assms(1) obtain e where e: "1 \<le> e" "e \<le> 6" "pow_loop i 10 = Some (10 ^ e)"
    "unat i < 10 ^ e" "e = 1 \<or> 10 ^ (e - 1) \<le> unat i" by auto
  let ?ts = "time * ucast ((10 :: u32) ^ e) + ucast i :: u64"
  have p: "unat (ucast ((10 :: u32) ^ e) :: u64) = 10 ^ e"
    using unat_pow10 [of e] e(2) by (simp add: unat_ucast_u64)
  have i: "unat (ucast i :: u64) = unat i" by (simp add: unat_ucast_u64)
  have "(10 :: nat) ^ e \<le> 10 ^ 6" using e(2) by (intro power_increasing) auto
  then have "unat time * 10 ^ e \<le> (10 ^ 13 - 1) * 10 ^ 6" using assms(2) by (intro mult_mono) auto
  then have b: "unat time * 10 ^ e + unat i < 2 ^ 64" using assms(1) by simp
  have "unat ?ts = unat time * 10 ^ e + unat i"
    using b by (simp add: unat_word_ariths p i)
  then show ?thesis using e by (intro exI [of _ ?ts] exI [of _ e]) (simp add: generate_timestamp_def)
qed

theorem generate_timestamp_decode_witness:
  "\<exists>ts e. generate_timestamp 1700000000000 12 = Inr ts \<and> unat ts div 10 ^ e = 1700000000000 \<and> unat ts mod 10 ^ e = 12"
  using generate_timestamp_decode [of 12 1700000000000] by auto

section \<open>An encoding that meets the contract\<close>

text \<open>A self-delimiting encoding, built from combinators, for every payload message: the
  concrete codec on which statements about all codecs are instantiated.\<close>

type_synonym 'a ser = "('a \<Rightarrow> string) \<times> (string \<Rightarrow> 'a \<times> string)"

definition ser_ok :: "'a ser \<Rightarrow> bool" where
  "ser_ok s \<longleftrightarrow> (\<forall>x r. snd s (fst s x @ r) = (x, r))"

definition ser_map :: "('b \<Rightarrow> 'a) \<Rightarrow> ('a \<Rightarrow> 'b) \<Rightarrow> 'a ser \<Rightarrow> 'b ser" where
  "ser_map f g s = (\<lambda>x. fst s (f x), \<lambda>r. map_prod g id (snd s r))"

definition ser_char :: "char ser" where
  "ser_char = (\<lambda>c. [c], \<lambda>r. (hd r, tl r))"

definition ser_pair :: "'a ser \<Rightarrow> 'b ser \<Rightarrow> ('a \<times> 'b) ser" where
  "ser_pair s t = (\<lambda>(x, y). fst s x @ fst t y, \<lambda>r. case snd s r of (x, r') \<Rightarrow> map_prod (Pair x) id (snd t r'))"

fun ser_list_dec :: "(string \<Rightarrow> 'a \<times> string) \<Rightarrow> nat \<Rightarrow> string \<Rightarrow> 'a list \<times> string" where
  "ser_list_dec d 0 r = ([], r)"
| "ser_list_dec d (Suc n) [] = ([], [])"
| "ser_list_dec d (Suc n) (c # r) =
     (if c = CHR ''+'' then case d r of (x, r') \<Rightarrow> map_prod (Cons x) id (ser_list_dec d n r') else ([], r))"

definition ser_list :: "'a ser \<Rightarrow> 'a list ser" where
  "ser_list s = (\<lambda>xs. concat (map (\<lambda>x. CHR ''+'' # fst s x) xs) @ ''.'', \<lambda>r. ser_list_dec (snd s) (length r) r)"

definition ser_nat :: "nat ser" where
  "ser_nat = ser_map (\<lambda>n. replicate n (CHR ''1'')) length (ser_list ser_char)"

definition ser_word :: "'a::len word ser" where
  "ser_word = ser_map unat of_nat ser_nat"

definition ser_int :: "int ser" where
  "ser_int = ser_map (\<lambda>i. (nat i, nat (- i))) (\<lambda>(a, b). int a - int b) (ser_pair ser_nat ser_nat)"

definition ser_rat :: "rat ser" where
  "ser_rat = ser_map quotient_of (\<lambda>(a, b). Fract a b) (ser_pair ser_int ser_int)"

definition ser_string :: "string ser" where
  "ser_string = ser_list ser_char"

definition ser_tier :: "Tier ser" where
  "ser_tier = ser_map tier_value
     (\<lambda>n. if n = 0 then TIER_UNSPECIFIED else if n = 1 then MEMORY else if n = 2 then DISK else ROUTING) ser_nat"

definition ser_clock :: "VectorClock ser" where
  "ser_clock = ser_list (ser_pair ser_string ser_word)"

definition codec_of :: "'m ser \<Rightarrow> 'm codec" where
  "codec_of s = \<lparr>enc = fst s, parse_ok = (\<lambda>r. snd (snd s r) = []), parsed = (\<lambda>r. fst (snd s r))\<rparr>"

definition example_codecs :: codecs where
  "example_codecs =
    \<lparr>pb_lww = codec_of (ser_map (\<lambda>m. (lv_timestamp m, lv_value m))
        (\<lambda>(t, v). \<lparr>lv_timestamp = t, lv_value = v\<rparr>) (ser_pair ser_word ser_string)),
     pb_set = codec_of (ser_list ser_string),
     pb_sk = codec_of (ser_map (\<lambda>m. (skv_vector_clock m, skv_values m))
        (\<lambda>(c, v). \<lparr>skv_vector_clock = c, skv_values = v\<rparr>) (ser_pair ser_clock (ser_list ser_string))),
     pb_mk = codec_of (ser_map (\<lambda>m. (mkv_vector_clock m, mkv_dependencies m, mkv_values m))
        (\<lambda>(c, d, v). \<lparr>mkv_vector_clock = c, mkv_dependencies = d, mkv_values = v\<rparr>)
        (ser_pair ser_clock (ser_pair (ser_list (ser_pair ser_string ser_clock)) (ser_list ser_string)))),
     pb_prio = codec_of (ser_map (\<lambda>m. (prv_priority m, prv_value m))
        (\<lambda>(t, v). \<lparr>prv_priority = t, prv_value = v\<rparr>) (ser_pair ser_rat ser_string)),
     pb_rep = codec_of (ser_map (\<lambda>m. (rf_key m, rf_global m, rf_local m))
        (\<lambda>(k, g, l). \<lparr>rf_key = k, rf_global = g, rf_local = l\<rparr>)
        (ser_pair ser_string (ser_pair (ser_list (ser_pair ser_tier ser_word)) (ser_list (ser_pair ser_tier ser_word))))),
     pb_strset = codec_of (ser_list ser_string),
     pb_stat = codec_of (ser_map (\<lambda>m. (sts_storage_consumption m, sts_occupancy m, sts_epoch m, sts_access_count m))
        (\<lambda>(s, p, e, a). \<lparr>sts_storage_consumption = s, sts_occupancy = p, sts_epoch = e, sts_access_count = a\<rparr>)
        (ser_pair ser_word (ser_pair ser_rat (ser_pair ser_word ser_word)))),
     pb_access = codec_of (ser_list (ser_pair ser_string ser_word)),
     pb_size = codec_of (ser_list (ser_pair ser_string ser_word))\<rparr>"

text \<open>What the code relies on of all the generated classes.\<close>

definition skv_eq :: "SingleKeyCausalValue \<Rightarrow> SingleKeyCausalValue \<Rightarrow> bool" where
  "skv_eq m' m \<longleftrightarrow> skv_values m' = skv_values m \<and>
     (umap_wf (skv_vector_clock m) \<longrightarrow>
        umap_wf (skv_vector_clock m') \<and> umap_eq (=) (skv_vector_clock m') (skv_vector_clock m))"

lemma ser_map_ok: "ser_ok s \<Longrightarrow> (\<And>x. g (f x) = x) \<Longrightarrow> ser_ok (ser_map f g s)"
  by (simp add: ser_ok_def ser_map_def)

lemma ser_char_ok: "ser_ok ser_char"
  by (simp add: ser_ok_def ser_char_def)

lemma ser_pair_ok: "ser_ok s \<Longrightarrow> ser_ok t \<Longrightarrow> ser_ok (ser_pair s t)"
  by (auto simp: ser_ok_def ser_pair_def)

lemma ser_list_ok: 
  assumes "ser_ok s" shows "ser_ok (ser_list s)"
proof -
  have "ser_list_dec (snd s) n (concat (map (\<lambda>x. CHR ''+'' # fst s x) xs) @ CHR ''.'' # r) = (xs, r)"
    if "length xs < n" for n xs r
    using that
  proof (induction xs arbitrary: n)
    case Nil
    then show ?case by (cases n) auto
  next
    case (Cons x xs)
    then obtain n' where "n = Suc n'" by (cases n) auto
    with Cons assms show ?case by (simp add: ser_ok_def)
  qed
  moreover have le: "length xs \<le> length (concat (map (\<lambda>x. CHR ''+'' # fst s x) xs))" for xs
    by (induction xs) auto
  have "length xs < length (concat (map (\<lambda>x. CHR ''+'' # fst s x) xs) @ CHR ''.'' # r)" for xs r
    using le [of xs] by simp
  ultimately show ?thesis unfolding ser_ok_def ser_list_def by simp
qed

lemma ser_nat_ok: "ser_ok ser_nat"
  unfolding ser_nat_def by (rule ser_map_ok [OF ser_list_ok [OF ser_char_ok]]) simp

lemma ser_word_ok: "ser_ok ser_word"
  unfolding ser_word_def by (rule ser_map_ok [OF ser_nat_ok]) simp

lemma ser_int_ok: "ser_ok ser_int"
  unfolding ser_int_def by (rule ser_map_ok [OF ser_pair_ok [OF ser_nat_ok ser_nat_ok]]) simp

lemma Fract_quotient_of: "(case quotient_of x of (a, b) \<Rightarrow> Fract a b) = x"
proof -
  obtain a b where "quotient_of x = (a, b)" by fastforce
  with quotient_of_div [OF this] show ?thesis by (simp add: Fract_of_int_quotient)
qed

lemma ser_rat_ok: "ser_ok ser_rat"
  unfolding ser_rat_def by (rule ser_map_ok [OF ser_pair_ok [OF ser_int_ok ser_int_ok]]) (rule Fract_quotient_of)

lemma ser_string_ok: "ser_ok ser_string"
  unfolding ser_string_def by (rule ser_list_ok [OF ser_char_ok])

lemma ser_tier_ok: "ser_ok ser_tier"
  unfolding ser_tier_def by (rule ser_map_ok [OF ser_nat_ok], case_tac x) (simp_all add: tier_value_def)

lemma ser_clock_ok: "ser_ok ser_clock"
  unfolding ser_clock_def by (intro ser_list_ok ser_pair_ok ser_string_ok ser_word_ok)

lemma codec_of_ok:
  assumes "ser_ok s" shows "codec_ok (=) (codec_of s)"
proof -
  have "snd s (fst s m) = (m, [])" for m
    using assms [unfolded ser_ok_def, rule_format, of m "[]"] by simp
  then show ?thesis by (simp add: codec_ok_def codec_of_def)
qed

lemma skv_eq_refl: "skv_eq m m"
  by (simp add: skv_eq_def umap_eq_iff option.rel_refl)


text \<open>The laws of all payload classes, collected.\<close>

definition codecs_ok :: "codecs \<Rightarrow> bool" where
  "codecs_ok pb \<longleftrightarrow> codec_ok (=) (pb_lww pb) \<and> codec_ok (=) (pb_set pb) \<and> codec_ok skv_eq (pb_sk pb) \<and>
     codec_ok (=) (pb_prio pb) \<and> codec_ok (=) (pb_rep pb) \<and> codec_ok (=) (pb_strset pb) \<and>
     codec_ok (=) (pb_stat pb) \<and> codec_ok (=) (pb_access pb) \<and> codec_ok (=) (pb_size pb)"

lemma codec_ok_weaken:
  assumes "codec_ok (=) c" and "\<And>m. eqv m m" shows "codec_ok eqv c"
  unfolding codec_ok_def
proof (intro allI conjI)
  fix m
  have "parsed c (enc c m) = m" by (rule codec_ok_parsed [OF assms(1)])
  then show "eqv (parsed c (enc c m)) m" by (simp only: assms(2))
qed (rule codec_ok_parse_ok [OF assms(1)])


lemma example_codecs_ok: "codecs_ok example_codecs"
proof -
  note oks = ser_word_ok ser_string_ok ser_clock_ok ser_rat_ok ser_tier_ok
  have strings: "ser_ok (ser_list ser_string)" by (rule ser_list_ok [OF ser_string_ok])
  have counts: "ser_ok (ser_list (ser_pair ser_string (ser_word :: u32 ser)))"
    by (rule ser_list_ok [OF ser_pair_ok [OF ser_string_ok ser_word_ok]])
  have reps: "ser_ok (ser_list (ser_pair ser_tier (ser_word :: u32 ser)))"
    by (rule ser_list_ok [OF ser_pair_ok [OF ser_tier_ok ser_word_ok]])
  have "codec_ok (=) (pb_lww example_codecs)" "codec_ok (=) (pb_set example_codecs)"
    "codec_ok (=) (pb_sk example_codecs)" "codec_ok (=) (pb_prio example_codecs)"
    "codec_ok (=) (pb_rep example_codecs)" "codec_ok (=) (pb_strset example_codecs)"
    "codec_ok (=) (pb_stat example_codecs)" "codec_ok (=) (pb_access example_codecs)"
    "codec_ok (=) (pb_size example_codecs)"
    unfolding example_codecs_def codecs.select_convs
    by (rule codec_of_ok ser_map_ok ser_pair_ok oks strings counts reps | simp)+
  then show ?thesis
    unfolding codecs_ok_def by (intro conjI codec_ok_weaken [OF _ skv_eq_refl])
qed

lemma copy_clock_wf:
  assumes "umap_wf vc" shows "copy_clock vc = vc"
proof -
  have "umap_wf (r @ vc) \<Longrightarrow> fold (\<lambda>(k, v). umap_put k v) vc r = r @ vc" for r
  proof (induction vc arbitrary: r)
    case (Cons p vc)
    have "umap_put (fst p) (snd p) r = r @ [p]"
      using Cons.prems by (induction r) (auto simp: umap_put_def)
    with Cons show ?case by (auto simp: split_beta)
  qed simp
  from this [of "[]"] assms show ?thesis by (simp add: copy_clock_def)
qed

lemma insert_clock_wf:
  assumes "umap_wf vc" shows "fold (\<lambda>(k, v). VectorClock_insert k v) vc [] = vc"
proof -
  have "umap_wf (r @ vc) \<Longrightarrow> fold (\<lambda>(k, v). VectorClock_insert k v) vc r = r @ vc" for r
  proof (induction vc arbitrary: r)
    case (Cons p vc)
    then have "map_of r (fst p) = None" by (auto simp: map_of_eq_None_iff)
    moreover have "umap_put (fst p) (snd p) r = r @ [p]"
      using Cons.prems by (induction r) (auto simp: umap_put_def)
    ultimately have "VectorClock_insert (fst p) (snd p) r = r @ [p]"
      by (simp add: VectorClock_insert_def MapLattice_insert_def MapLattice_insert_pair_def)
    with Cons show ?case by (auto simp: split_beta)
  qed simp
  from this [of "[]"] assms show ?thesis by simp
qed



end
