(* ===== verification/Hash_Ring.thy ===== *)
theory Hash_Ring
  imports Wire
begin

text \<open>
  Consistent hashing: \<open>include/consistent_hash_map.hpp\<close>, \<open>include/hashers.hpp\<close>,
  \<open>include/hash_ring.hpp\<close> and \<open>src/hash_ring/hash_ring.cpp\<close>.

  The \<open>std::map\<close> from hash values to virtual nodes is the list of its entries in ascending
  order, an iterator an index into it (\<open>None\<close> is \<open>end()\<close>). \<open>std::hash\<close> and \<open>rand_r\<close> are fields of the
  environment. The walk around the ring that both \<open>responsible_global\<close> and
  \<open>responsible_local\<close> perform is \<open>ring_walk\<close>, which need not end. \<open>clockwise\<close> is the order in which the
  ring is met from a hash value on; the theorems say that the walk returns its first distinct servers,
  and what a join or a departure changes.
\<close>

record env =
  std_hash :: "string \<Rightarrow> u64"
  rand_r :: "u32 \<Rightarrow> u32 \<times> u32"
  pb :: codecs
  cfg :: config

section \<open>Hashers\<close>

definition GlobalHasher_thread :: "env \<Rightarrow> ServerThread \<Rightarrow> u32" where
  "GlobalHasher_thread en th = ucast (std_hash en (''GLOBAL'' @ virtual_id th))"

definition GlobalHasher_key :: "env \<Rightarrow> Key \<Rightarrow> u32" where
  "GlobalHasher_key en key = ucast (std_hash en (''GLOBAL'' @ key))"

definition LocalHasher_thread :: "env \<Rightarrow> ServerThread \<Rightarrow> u64" where
  "LocalHasher_thread en th = std_hash en (to_string (tid th) @ ''_'' @ to_string (virtual_num th))"

definition LocalHasher_key :: "env \<Rightarrow> Key \<Rightarrow> u64" where
  "LocalHasher_key en key = std_hash en key"

section \<open>\<open>ConsistentHashMap\<close>\<close>

type_synonym 'h nodes = "('h \<times> ServerThread) list"

fun nodes_insert :: "'h::linorder \<Rightarrow> ServerThread \<Rightarrow> 'h nodes \<Rightarrow> 'h nodes" where
  "nodes_insert h st [] = [(h, st)]"
| "nodes_insert h st ((k, t) # r) =
     (if h < k then (h, st) # (k, t) # r
      else if h = k then (k, t) # r
      else (k, t) # nodes_insert h st r)"

definition nodes_erase :: "'h \<Rightarrow> 'h nodes \<Rightarrow> 'h nodes" where
  "nodes_erase h ns = filter (\<lambda>p. fst p \<noteq> h) ns"

definition lower_bound :: "'h::linorder \<Rightarrow> 'h nodes \<Rightarrow> nat" where
  "lower_bound h ns = length (takeWhile (\<lambda>p. fst p < h) ns)"

definition chm_find :: "'h::linorder \<Rightarrow> 'h nodes \<Rightarrow> nat option" where
  "chm_find h ns =
     (if ns = [] then None
      else let it = lower_bound h ns in Some (if it = length ns then 0 else it))"

section \<open>\<open>HashRing\<close>\<close>

record 'h HashRing =
  nodes :: "'h nodes"
  unique_servers :: "ServerThread list"
  server_join_count :: "(Address, int) umap"

type_synonym GlobalHashRing = "u32 HashRing"
type_synonym LocalHashRing = "u64 HashRing"

definition HashRing_empty :: "'h HashRing" where
  "HashRing_empty = \<lparr>nodes = [], unique_servers = [], server_join_count = []\<rparr>"

definition sset_has :: "ServerThread list \<Rightarrow> ServerThread \<Rightarrow> bool" where
  "sset_has s st \<longleftrightarrow> list_ex (\<lambda>t. st_eq t st) s"

definition sset_erase :: "ServerThread \<Rightarrow> ServerThread list \<Rightarrow> ServerThread list" where
  "sset_erase st s = filter (\<lambda>t. \<not> st_eq t st) s"

definition virtual_threads :: "u32 \<Rightarrow> Address \<Rightarrow> Address \<Rightarrow> u32 \<Rightarrow> ServerThread list" where
  "virtual_threads vnum pub priv t = map (\<lambda>v. mk_ServerThread pub priv t (of_nat v)) [0..<unat vnum]"

definition HashRing_insert ::
  "(ServerThread \<Rightarrow> 'h::linorder) \<Rightarrow> u32 \<Rightarrow> Address \<Rightarrow> Address \<Rightarrow> int \<Rightarrow> u32 \<Rightarrow> 'h HashRing \<Rightarrow> bool \<times> 'h HashRing" where
  "HashRing_insert hasher vnum pub priv join_count t ring =
     (let new_thread = mk_ServerThread pub priv t 0
      in if sset_has (unique_servers ring) new_thread
         then (if umap_get 0 (server_join_count ring) priv < join_count
               then (True, ring\<lparr>server_join_count := umap_put priv join_count (server_join_count ring)\<rparr>)
               else (False, ring\<lparr>server_join_count := umap_mod 0 priv id (server_join_count ring)\<rparr>))
         else (True, ring\<lparr>nodes := fold (\<lambda>st. nodes_insert (hasher st) st) (virtual_threads vnum pub priv t) (nodes ring),
                          unique_servers := unique_servers ring @ [new_thread],
                          server_join_count := umap_put priv join_count (server_join_count ring)\<rparr>))"

definition HashRing_remove ::
  "(ServerThread \<Rightarrow> 'h) \<Rightarrow> u32 \<Rightarrow> Address \<Rightarrow> Address \<Rightarrow> u32 \<Rightarrow> 'h HashRing \<Rightarrow> 'h HashRing" where
  "HashRing_remove hasher vnum pub priv t ring =
     ring\<lparr>nodes := fold (\<lambda>st. nodes_erase (hasher st)) (virtual_threads vnum pub priv t) (nodes ring),
          unique_servers := sset_erase (mk_ServerThread pub priv t 0) (unique_servers ring),
          server_join_count := umap_erase priv (server_join_count ring)\<rparr>"

definition global_insert :: "env \<Rightarrow> Address \<Rightarrow> Address \<Rightarrow> int \<Rightarrow> u32 \<Rightarrow> GlobalHashRing \<Rightarrow> bool \<times> GlobalHashRing" where
  "global_insert en = HashRing_insert (GlobalHasher_thread en) (kVirtualThreadNum (cfg en))"

definition global_remove :: "env \<Rightarrow> Address \<Rightarrow> Address \<Rightarrow> u32 \<Rightarrow> GlobalHashRing \<Rightarrow> GlobalHashRing" where
  "global_remove en = HashRing_remove (GlobalHasher_thread en) (kVirtualThreadNum (cfg en))"

definition local_insert :: "env \<Rightarrow> Address \<Rightarrow> Address \<Rightarrow> int \<Rightarrow> u32 \<Rightarrow> LocalHashRing \<Rightarrow> bool \<times> LocalHashRing" where
  "local_insert en = HashRing_insert (LocalHasher_thread en) (kVirtualThreadNum (cfg en))"

section \<open>Responsible servers\<close>

text \<open>\<open>while (i < rep)\<close>: take the element under the iterator unless an equal one was taken
  before, and advance the iterator, from the end to the beginning.\<close>

partial_function (option) ring_walk ::
  "('a \<Rightarrow> 'a \<Rightarrow> bool) \<Rightarrow> 'a list \<Rightarrow> u32 \<Rightarrow> nat \<Rightarrow> u32 \<Rightarrow> 'a list \<Rightarrow> 'a list option" where
  "ring_walk eq xs rep pos i acc =
     (if i < rep
      then let seen = list_ex (\<lambda>t. eq t (xs ! pos)) acc
           in ring_walk eq xs rep (if Suc pos = length xs then 0 else Suc pos)
                (if seen then i else i + 1) (if seen then acc else acc @ [xs ! pos])
      else Some acc)"

declare ring_walk.simps [code]

definition responsible_global :: "env \<Rightarrow> Key \<Rightarrow> u32 \<Rightarrow> GlobalHashRing \<Rightarrow> ServerThread list res" where
  "responsible_global en key global_rep ring =
     (case chm_find (GlobalHasher_key en key) (nodes ring) of
        None \<Rightarrow> Inr []
      | Some pos \<Rightarrow>
          (case ring_walk st_eq (map snd (nodes ring)) global_rep pos 0 [] of
             None \<Rightarrow> Inl Diverges
           | Some threads \<Rightarrow> Inr threads))"

definition responsible_local :: "env \<Rightarrow> Key \<Rightarrow> u32 \<Rightarrow> LocalHashRing \<Rightarrow> u32 list res" where
  "responsible_local en key local_rep ring =
     (case chm_find (LocalHasher_key en key) (nodes ring) of
        None \<Rightarrow> Inr []
      | Some pos \<Rightarrow>
          (case ring_walk (=) (map (\<lambda>p. tid (snd p)) (nodes ring)) local_rep pos 0 [] of
             None \<Rightarrow> Inl Diverges
           | Some tids \<Rightarrow> Inr tids))"

definition threads_of_tids :: "ServerThread \<Rightarrow> u32 list \<Rightarrow> ServerThread list" where
  "threads_of_tids thread tids = map (mk_ServerThread3 (public_ip thread) (private_ip thread)) tids"

definition responsible_threads_in ::
  "env \<Rightarrow> Key \<Rightarrow> u32 \<Rightarrow> u32 \<Rightarrow> GlobalHashRing \<Rightarrow> LocalHashRing \<Rightarrow> ServerThread list res" where
  "responsible_threads_in en key global_rep local_rep gring lring =
     ebind (responsible_global en key global_rep gring) (\<lambda>threads.
       efold (\<lambda>thread result. ebind (responsible_local en key local_rep lring)
                (\<lambda>tids. Inr (result @ threads_of_tids thread tids)))
         threads [])"

definition get_responsible_threads_metadata ::
  "env \<Rightarrow> Key \<Rightarrow> GlobalHashRing \<Rightarrow> LocalHashRing \<Rightarrow> ServerThread list res" where
  "get_responsible_threads_metadata en key gring lring =
     responsible_threads_in en key kMetadataReplicationFactor (kDefaultLocalReplication (cfg en)) gring lring"

section \<open>The state every node keeps about the cluster\<close>

text \<open>The rings of each tier, the replication factors, the seed of \<open>rand_r\<close> and the frames
  sent so far (the effect of \<open>SocketCache\<close> and \<open>ZmqUtil::send_string\<close>), in order. The server and the
  routing node extend this record. \<open>operator[]\<close> on an absent tier leaves an empty ring behind
  (\<open>touch_rings\<close>), on an absent replication factor a zero.\<close>

record ring_ctx =
  global_hash_rings :: "(Tier, GlobalHashRing) umap"
  local_hash_rings :: "(Tier, LocalHashRing) umap"
  key_replication_map :: "(Key, KeyReplication) umap"
  seed :: u32
  sent :: sends

definition global_ring :: "'a ring_ctx_scheme \<Rightarrow> Tier \<Rightarrow> GlobalHashRing" where
  "global_ring c t = umap_get HashRing_empty (global_hash_rings c) t"

definition local_ring :: "'a ring_ctx_scheme \<Rightarrow> Tier \<Rightarrow> LocalHashRing" where
  "local_ring c t = umap_get HashRing_empty (local_hash_rings c) t"

definition global_rep :: "'a ring_ctx_scheme \<Rightarrow> Key \<Rightarrow> Tier \<Rightarrow> u32" where
  "global_rep c key t = umap_get 0 (global_replication (umap_get KeyReplication_default (key_replication_map c) key)) t"

definition local_rep :: "'a ring_ctx_scheme \<Rightarrow> Key \<Rightarrow> Tier \<Rightarrow> u32" where
  "local_rep c key t = umap_get 0 (local_replication (umap_get KeyReplication_default (key_replication_map c) key)) t"

definition touch_global :: "Tier \<Rightarrow> 'a ring_ctx_scheme \<Rightarrow> 'a ring_ctx_scheme" where
  "touch_global t c = c\<lparr>global_hash_rings := umap_mod HashRing_empty t id (global_hash_rings c)\<rparr>"

definition touch_local :: "Tier \<Rightarrow> 'a ring_ctx_scheme \<Rightarrow> 'a ring_ctx_scheme" where
  "touch_local t c = c\<lparr>local_hash_rings := umap_mod HashRing_empty t id (local_hash_rings c)\<rparr>"

definition touch_rings :: "Tier \<Rightarrow> 'a ring_ctx_scheme \<Rightarrow> 'a ring_ctx_scheme" where
  "touch_rings t c = touch_local t (touch_global t c)"

definition touch_global_rep :: "Key \<Rightarrow> Tier \<Rightarrow> 'a ring_ctx_scheme \<Rightarrow> 'a ring_ctx_scheme" where
  "touch_global_rep key t c = c\<lparr>key_replication_map := set_global key t (global_rep c key t) (key_replication_map c)\<rparr>"

definition touch_local_rep :: "Key \<Rightarrow> Tier \<Rightarrow> 'a ring_ctx_scheme \<Rightarrow> 'a ring_ctx_scheme" where
  "touch_local_rep key t c = c\<lparr>key_replication_map := set_local key t (local_rep c key t) (key_replication_map c)\<rparr>"

definition send :: "Address \<Rightarrow> frame \<Rightarrow> 'a ring_ctx_scheme \<Rightarrow> 'a ring_ctx_scheme" where
  "send a f c = c\<lparr>sent := sent c @ [(a, f)]\<rparr>"

definition issue_replication_factor_request ::
  "env \<Rightarrow> Address \<Rightarrow> Key \<Rightarrow> GlobalHashRing \<Rightarrow> LocalHashRing \<Rightarrow> 'a ring_ctx_scheme \<Rightarrow> ('a ring_ctx_scheme) res" where
  "issue_replication_factor_request en response_address key gring lring c =
     (let replication_key = get_metadata_key key replication
      in ebind (get_responsible_threads_metadata en replication_key gring lring) (\<lambda>threads.
           if threads = [] then Inl Div_by_zero
           else let (r, seed') = rand_r en (seed c);
                    target_address = key_request_connect_address (threads ! (unat r mod length threads));
                    key_request = prepare_get_tuple replication_key LWW
                      (KeyRequest_default\<lparr>kr_type := GET, kr_response_address := response_address\<rparr>)
                in Inr (send target_address (Request key_request) (c\<lparr>seed := seed'\<rparr>))))"

definition threads_in_tier ::
  "env \<Rightarrow> Key \<Rightarrow> Tier \<Rightarrow> ServerThread list \<times> 'a ring_ctx_scheme \<Rightarrow> (ServerThread list \<times> 'a ring_ctx_scheme) res" where
  "threads_in_tier en key tier = (\<lambda>(result, c).
     let c1 = touch_global tier (touch_global_rep key tier c)
     in ebind (responsible_global en key (global_rep c key tier) (global_ring c tier)) (\<lambda>threads.
          efold (\<lambda>thread (result, c).
                   let c2 = touch_local tier (touch_local_rep key tier c)
                   in ebind (responsible_local en key (local_rep c key tier) (local_ring c tier))
                        (\<lambda>tids. Inr (result @ threads_of_tids thread tids, c2)))
            threads (result, c1)))"

definition get_responsible_threads ::
  "env \<Rightarrow> Address \<Rightarrow> Key \<Rightarrow> bool \<Rightarrow> Tier list \<Rightarrow> 'a ring_ctx_scheme \<Rightarrow>
     (ServerThread list \<times> bool \<times> 'a ring_ctx_scheme) res" where
  "get_responsible_threads en response_address key metadata tiers c =
     (if metadata
      then let c1 = touch_rings MEMORY c
           in ebind (get_responsible_threads_metadata en key (global_ring c MEMORY) (local_ring c MEMORY))
                (\<lambda>threads. Inr (threads, True, c1))
      else if \<not> umap_has (key_replication_map c) key
      then ebind (issue_replication_factor_request en response_address key (global_ring c MEMORY)
                    (local_ring c MEMORY) (touch_rings MEMORY c))
             (\<lambda>c1. Inr ([], False, c1))
      else ebind (efold (threads_in_tier en key) tiers ([], c))
             (\<lambda>(result, c1). Inr (result, True, c1)))"

section \<open>Metadata requests\<close>

text \<open>The requests collected per target address, the next request id and the state of the C
  library's \<open>rand\<close>, which the first argument draws from.\<close>

record request_acc =
  addr_request_map :: "(Address, KeyRequest) umap"
  rid :: u32
  rand_state :: u64

definition prepare_metadata_request ::
  "(u64 \<Rightarrow> u32 \<times> u64) \<Rightarrow> env \<Rightarrow> Key \<Rightarrow> GlobalHashRing \<Rightarrow> LocalHashRing \<Rightarrow> Address \<Rightarrow> RequestType \<Rightarrow>
     request_acc \<Rightarrow> (Address \<times> request_acc) res" where
  "prepare_metadata_request rand en key gring lring response_address ty acc =
     ebind (get_responsible_threads_metadata en key gring lring) (\<lambda>threads.
       if threads \<noteq> []
       then let (r, rs) = rand (rand_state acc);
                target_address = key_request_connect_address (threads ! (unat r mod length threads));
                acc1 = acc\<lparr>rand_state := rs\<rparr>
            in if \<not> umap_has (addr_request_map acc1) target_address
               then Inr (target_address,
                      acc1\<lparr>addr_request_map := umap_put target_address
                              (KeyRequest_default\<lparr>kr_type := ty, kr_response_address := response_address,
                                 kr_request_id := response_address @ '':'' @ to_string (rid acc1)\<rparr>)
                              (addr_request_map acc1),
                            rid := rid acc1 + 1\<rparr>)
               else Inr (target_address, acc1)
       else Inr ([], acc))"

definition prepare_metadata_get_request ::
  "(u64 \<Rightarrow> u32 \<times> u64) \<Rightarrow> env \<Rightarrow> Key \<Rightarrow> GlobalHashRing \<Rightarrow> LocalHashRing \<Rightarrow> Address \<Rightarrow>
     request_acc \<Rightarrow> request_acc res" where
  "prepare_metadata_get_request rand en key gring lring response_address acc =
     ebind (prepare_metadata_request rand en key gring lring response_address GET acc) (\<lambda>(target_address, acc1).
       if target_address \<noteq> []
       then Inr (acc1\<lparr>addr_request_map := umap_mod KeyRequest_default target_address (prepare_get_tuple key LWW)
                        (addr_request_map acc1)\<rparr>)
       else Inr acc1)"

definition prepare_metadata_put_request ::
  "(u64 \<Rightarrow> u32 \<times> u64) \<Rightarrow> u64 \<Rightarrow> env \<Rightarrow> Key \<Rightarrow> string \<Rightarrow> GlobalHashRing \<Rightarrow> LocalHashRing \<Rightarrow> Address \<Rightarrow>
     request_acc \<Rightarrow> request_acc res" where
  "prepare_metadata_put_request rand time en key val gring lring response_address acc =
     ebind (prepare_metadata_request rand en key gring lring response_address PUT acc) (\<lambda>(target_address, acc1).
       if target_address \<noteq> []
       then ebind (generate_timestamp time 0) (\<lambda>ts.
              Inr (acc1\<lparr>addr_request_map := umap_mod KeyRequest_default target_address
                          (prepare_put_tuple key LWW (serialize_ts (pb en) ts val)) (addr_request_map acc1)\<rparr>))
       else Inr acc1)"

section \<open>The walk around the ring\<close>

definition visit :: "('a \<Rightarrow> 'a \<Rightarrow> bool) \<Rightarrow> 'a \<Rightarrow> 'a list \<Rightarrow> 'a list" where
  "visit eq x acc = (if list_ex (\<lambda>t. eq t x) acc then acc else acc @ [x])"

text \<open>The first representative of each class, in order: what a complete round collects.\<close>

definition firsts :: "('a \<Rightarrow> 'a \<Rightarrow> bool) \<Rightarrow> 'a list \<Rightarrow> 'a list" where
  "firsts eq xs = fold (visit eq) xs []"

lemma visit_prefix: "\<exists>ys. visit eq x acc = acc @ ys \<and> length ys \<le> 1"
  by (auto simp: visit_def)

lemma fold_visit_prefix: "\<exists>ys. fold (visit eq) xs acc = acc @ ys"
proof (induction xs arbitrary: acc)
  case (Cons x xs)
  obtain y where "visit eq x acc = acc @ y" using visit_prefix [of eq x acc] by blast
  moreover obtain ys where "fold (visit eq) xs (acc @ y) = (acc @ y) @ ys" using Cons by blast
  ultimately show ?case by auto
qed simp

lemma ring_walk_done: "\<not> i < rep \<Longrightarrow> ring_walk eq xs rep pos i acc = Some acc"
  by (subst ring_walk.simps) simp

lemma ring_walk_step:
  assumes "length acc < unat rep" and "i = of_nat (length acc)"
  shows "ring_walk eq xs rep pos i acc =
    ring_walk eq xs rep (if Suc pos = length xs then 0 else Suc pos)
      (of_nat (length (visit eq (xs ! pos) acc))) (visit eq (xs ! pos) acc)"
proof -
  have "unat rep < 2 ^ 32" using unsigned_less [of rep] by simp
  then have "unat i = length acc"
    using assms by (simp add: unat_of_nat take_bit_nat_eq_self)
  then have "i < rep" using assms(1) by (simp add: word_less_nat_alt)
  then show ?thesis
    using assms(2) by (subst ring_walk.simps) (simp add: visit_def Let_def add.commute)
qed

text \<open>A walk over the rest of the ring up to the point where enough servers are found.\<close>

lemma ring_walk_along:
  assumes "ys \<noteq> []" and "length (fold (visit eq) ys acc) \<ge> unat rep" and "length acc \<le> unat rep"
    and "\<And>j. j < length ys \<Longrightarrow> xs ! ((pos + j) mod length xs) = ys ! j" and "pos < length xs"
  shows "ring_walk eq xs rep pos (of_nat (length acc)) acc = Some (take (unat rep) (fold (visit eq) ys acc))"
  using assms
proof (induction ys arbitrary: acc pos)
  case (Cons y ys)
  show ?case
  proof (cases "length acc < unat rep")
    case False
    then have l: "length acc = unat rep" using Cons.prems(3) by simp
    then have "\<not> (of_nat (length acc) :: u32) < rep" by (simp add: word_less_nat_alt)
    moreover obtain zs where "fold (visit eq) (y # ys) acc = acc @ zs" using fold_visit_prefix by blast
    ultimately show ?thesis using l by (simp add: ring_walk_done)
  next
    case True
    let ?acc = "visit eq y acc"
    have y: "xs ! pos = y" using Cons.prems(4) [of 0] Cons.prems(5) by simp
    have le: "length ?acc \<le> unat rep" using True by (auto simp: visit_def)
    let ?pos = "if Suc pos = length xs then 0 else Suc pos"
    have walk: "ring_walk eq xs rep pos (of_nat (length acc)) acc =
        ring_walk eq xs rep ?pos (of_nat (length ?acc)) ?acc"
      using ring_walk_step [OF True refl, of eq xs pos] y by simp
    show ?thesis
    proof (cases "ys = []")
      case True
      then have "length ?acc = unat rep" using Cons.prems(2) le by simp
      moreover from this have "\<not> (of_nat (length ?acc) :: u32) < rep" by (simp add: word_less_nat_alt)
      ultimately show ?thesis using walk True by (simp add: ring_walk_done)
    next
      case False
      have "xs ! ((?pos + j) mod length xs) = ys ! j" if "j < length ys" for j
      proof (cases "Suc pos = length xs")
        case True
        then have "Suc (pos + j) mod length xs = j mod length xs"
          by (metis add_Suc mod_add_self1)
        with True show ?thesis using Cons.prems(4) [of "Suc j"] that by simp
      next
        case False
        then show ?thesis using Cons.prems(4) [of "Suc j"] that by simp
      qed
      moreover have "?pos < length xs" using Cons.prems(5) by auto
      ultimately have "ring_walk eq xs rep ?pos (of_nat (length ?acc)) ?acc =
          Some (take (unat rep) (fold (visit eq) ys ?acc))"
        using Cons.IH [OF False _ le] Cons.prems(2) by simp
      with walk show ?thesis by simp
    qed
  qed
qed simp

text \<open>If the ring holds fewer classes than asked for, the walk never ends.\<close>

lemma ring_walk_diverges:
  assumes inv: "\<And>pos acc. pos < length xs \<Longrightarrow> Inv acc \<Longrightarrow> Inv (visit eq (xs ! pos) acc)"
    and short: "\<And>acc. Inv acc \<Longrightarrow> length acc < unat rep"
    and "pos < length xs" and "Inv acc"
  shows "ring_walk eq xs rep pos (of_nat (length acc)) acc = None"
proof (rule ccontr)
  assume "ring_walk eq xs rep pos (of_nat (length acc)) acc \<noteq> None"
  then obtain r where r: "ring_walk eq xs rep pos (of_nat (length acc)) acc = Some r" by blast
  define P where "P = (\<lambda>eq' xs' rep' pos' (i' :: u32) acc' (r' :: 'a list).
    \<not> (eq' = eq \<and> xs' = xs \<and> rep' = rep \<and> pos' < length xs \<and> Inv acc' \<and> i' = of_nat (length acc')))"
  have "P eq xs rep pos (of_nat (length acc)) acc r"
  proof (rule ring_walk.raw_induct [OF _ r])
    fix walk :: "('a \<Rightarrow> 'a \<Rightarrow> bool) \<Rightarrow> 'a list \<Rightarrow> u32 \<Rightarrow> nat \<Rightarrow> u32 \<Rightarrow> 'a list \<Rightarrow> 'a list option"
      and eq' xs' rep' pos' i' acc' and r' :: "'a list"
    assume IH: "\<And>eq xs rep pos i acc r. walk eq xs rep pos i acc = Some r \<Longrightarrow> P eq xs rep pos i acc r"
      and walk: "(if i' < rep' then let seen = list_ex (\<lambda>t. eq' t (xs' ! pos')) acc'
           in walk eq' xs' rep' (if Suc pos' = length xs' then 0 else Suc pos')
                (if seen then i' else i' + 1) (if seen then acc' else acc' @ [xs' ! pos'])
        else Some acc') = Some r'"
    show "P eq' xs' rep' pos' i' acc' r'"
      unfolding P_def
    proof
      assume a: "eq' = eq \<and> xs' = xs \<and> rep' = rep \<and> pos' < length xs \<and> Inv acc' \<and> i' = of_nat (length acc')"
      have "unat rep < 2 ^ 32" using unsigned_less [of rep] by simp
      then have "unat i' = length acc'"
        using a short [of acc'] by (simp add: unat_of_nat take_bit_nat_eq_self)
      then have lt: "i' < rep'" using a short [of acc'] by (simp add: word_less_nat_alt)
      let ?acc = "visit eq (xs ! pos') acc'"
      have "walk eq xs rep (if Suc pos' = length xs then 0 else Suc pos') (of_nat (length ?acc)) ?acc = Some r'"
        using walk lt a by (simp add: Let_def visit_def add.commute split: if_splits)
      from IH [OF this] a inv [of pos' acc'] show False by (auto simp: P_def split: if_splits)
    qed
  qed
  with assms(3,4) show False by (simp add: P_def)
qed

section \<open>Order of the ring\<close>

definition ring_sorted :: "'h::linorder nodes \<Rightarrow> bool" where
  "ring_sorted ns \<longleftrightarrow> sorted_wrt (<) (map fst ns)"

text \<open>The virtual nodes in the order a walk from hash value \<open>h\<close> meets them.\<close>

definition clockwise :: "'h::linorder \<Rightarrow> 'h nodes \<Rightarrow> ServerThread list" where
  "clockwise h ns = map snd (filter (\<lambda>p. h \<le> fst p) ns @ filter (\<lambda>p. fst p < h) ns)"

lemma set_nodes_insert:
  "set (nodes_insert h st ns) = (if h \<in> fst ` set ns then set ns else insert (h, st) (set ns))"
  if "ring_sorted ns"
  using that by (induction h st ns rule: nodes_insert.induct) (auto simp: ring_sorted_def)

lemma ring_sorted_insert: "ring_sorted ns \<Longrightarrow> ring_sorted (nodes_insert h st ns)"
proof (induction h st ns rule: nodes_insert.induct)
  case (2 h st k t r)
  then have s: "ring_sorted r" "\<forall>p\<in>set r. k < fst p" by (auto simp: ring_sorted_def)
  show ?case
  proof (cases "h < k \<or> h = k")
    case True
    with 2(2) show ?thesis by (auto simp: ring_sorted_def)
  next
    case False
    then have "ring_sorted (nodes_insert h st r)" using 2(1) s by auto
    moreover have "\<forall>p\<in>set (nodes_insert h st r). k < fst p"
      using s False by (auto simp: set_nodes_insert split: if_splits)
    ultimately show ?thesis using False by (auto simp: ring_sorted_def)
  qed
qed (simp add: ring_sorted_def)

lemma ring_sorted_filter: "ring_sorted ns \<Longrightarrow> ring_sorted (filter P ns)"
  by (induction ns) (auto simp: ring_sorted_def)

lemma lower_bound_split:
  assumes "ring_sorted ns"
  shows "take (lower_bound h ns) ns = filter (\<lambda>p. fst p < h) ns"
    and "drop (lower_bound h ns) ns = filter (\<lambda>p. h \<le> fst p) ns"
proof -
  have s: "takeWhile (\<lambda>p. fst p < h) ns = filter (\<lambda>p. fst p < h) ns \<and>
      dropWhile (\<lambda>p. fst p < h) ns = filter (\<lambda>p. h \<le> fst p) ns"
    using assms
  proof (induction ns)
    case (Cons p ns)
    then have "\<forall>q\<in>set ns. fst p < fst q" "ring_sorted ns" by (auto simp: ring_sorted_def)
    moreover have "filter (\<lambda>p. fst p < h) ns = [] \<and> filter (\<lambda>p. h \<le> fst p) ns = ns" if "\<not> fst p < h"
      using that \<open>\<forall>q\<in>set ns. fst p < fst q\<close> by (force simp: filter_empty_conv filter_id_conv)
    ultimately show ?case using Cons.IH by (cases "fst p < h") auto
  qed simp
  then show "take (lower_bound h ns) ns = filter (\<lambda>p. fst p < h) ns"
    unfolding lower_bound_def by (metis takeWhile_eq_take)
  from s show "drop (lower_bound h ns) ns = filter (\<lambda>p. h \<le> fst p) ns"
    unfolding lower_bound_def by (metis dropWhile_eq_drop)
qed

lemma chm_find_clockwise:
  assumes "ring_sorted ns" and "chm_find h ns = Some pos"
  shows "pos < length ns" and "map snd (rotate pos ns) = clockwise h ns"
proof -
  from assms(2) have ne: "ns \<noteq> []" and pos: "pos = (if lower_bound h ns = length ns then 0 else lower_bound h ns)"
    by (auto simp: chm_find_def Let_def split: if_splits)
  have le: "lower_bound h ns \<le> length ns" by (simp add: lower_bound_def length_takeWhile_le)
  then show lt: "pos < length ns" using ne pos by auto
  have "rotate pos ns = drop pos ns @ take pos ns" using lt by (simp add: rotate_drop_take)
  also have "\<dots> = filter (\<lambda>p. h \<le> fst p) ns @ filter (\<lambda>p. fst p < h) ns"
    using lower_bound_split [OF assms(1), of h] pos by (auto split: if_splits)
  finally show "map snd (rotate pos ns) = clockwise h ns" by (simp add: clockwise_def)
qed

lemma rotate_nth_walk: "j < length xs \<Longrightarrow> xs ! ((pos + j) mod length xs) = rotate pos xs ! j"
  by (simp add: nth_rotate add.commute)


text \<open>The walk in full: it ends exactly when the ring holds enough classes, and then
  returns the first ones.\<close>

lemma fold_visit_unique:
  assumes "\<And>a b. eq a b \<Longrightarrow> eq b a"
  shows "sorted_wrt (\<lambda>a b. \<not> eq a b) acc \<Longrightarrow> sorted_wrt (\<lambda>a b. \<not> eq a b) (fold (visit eq) xs acc)"
  by (induction xs arbitrary: acc) (auto simp: visit_def sorted_wrt_append list_ex_iff)

lemma set_fold_visit: "set (fold (visit eq) xs acc) \<subseteq> set acc \<union> set xs"
proof (induction xs arbitrary: acc)
  case (Cons x xs)
  have "set (visit eq x acc) \<subseteq> insert x (set acc)" by (auto simp: visit_def)
  with Cons [of "visit eq x acc"] show ?case by auto
qed simp

lemma fold_visit_covers:
  assumes "\<And>a. eq a a" and "x \<in> set acc \<union> set xs"
  shows "\<exists>y\<in>set (fold (visit eq) xs acc). eq y x"
  using assms(2)
proof (induction xs arbitrary: acc)
  case Nil
  with assms(1) show ?case by auto
next
  case (Cons z xs)
  obtain ys where ys: "fold (visit eq) xs (visit eq z acc) = visit eq z acc @ ys"
    using fold_visit_prefix by blast
  show ?case
  proof (cases "x \<in> set acc \<union> set xs")
    case True
    then have "x \<in> set (visit eq z acc) \<union> set xs" by (auto simp: visit_def)
    from Cons.IH [OF this] show ?thesis by simp
  next
    case False
    with Cons.prems have "x = z" by simp
    then have "\<exists>y\<in>set (visit eq z acc). eq y x" using assms(1) by (auto simp: visit_def list_ex_iff)
    with ys show ?thesis by auto
  qed
qed

lemma unique_length_le:
  assumes sym: "\<And>a b. eq a b \<Longrightarrow> eq b a" and trans: "\<And>a b c. eq a b \<Longrightarrow> eq b c \<Longrightarrow> eq a c"
    and u: "sorted_wrt (\<lambda>a b. \<not> eq a b) acc" and cov: "\<And>a. a \<in> set acc \<Longrightarrow> \<exists>y\<in>set ys. eq y a"
  shows "length acc \<le> length ys"
proof -
  obtain f where f: "\<And>a. a \<in> set acc \<Longrightarrow> f a \<in> set ys \<and> eq (f a) a" using cov by metis
  have "a = b" if "a \<in> set acc" "b \<in> set acc" "f a = f b" for a b
  proof (rule ccontr)
    assume "a \<noteq> b"
    with that(1,2) obtain i j where ij: "i < length acc" "j < length acc" "i \<noteq> j" "a = acc ! i" "b = acc ! j"
      by (metis in_set_conv_nth)
    have "eq a b" using f [OF that(1)] f [OF that(2)] that(3) sym trans by metis
    with ij u sym show False by (metis linorder_neqE_nat sorted_wrt_nth_less)
  qed
  then have "inj_on f (set acc)" by (auto intro: inj_onI)
  moreover have "distinct acc"
    unfolding distinct_conv_nth
  proof (intro allI impI)
    fix i j assume ij: "i < length acc" "j < length acc" "i \<noteq> j"
    show "acc ! i \<noteq> acc ! j"
    proof
      assume e: "acc ! i = acc ! j"
      have "eq (acc ! i) (acc ! i)" using f [of "acc ! i"] ij(1) sym trans nth_mem by metis
      with e ij u show False by (metis linorder_neqE_nat sorted_wrt_nth_less)
    qed
  qed
  ultimately have "length acc = card (f ` set acc)" by (simp add: card_image distinct_card)
  also have "\<dots> \<le> card (set ys)" using f by (intro card_mono) auto
  also have "\<dots> \<le> length ys" by (rule card_length)
  finally show ?thesis .
qed

lemma ring_walk_firsts:
  fixes xs :: "'a list"
  assumes eq: "\<And>a. eq a a" "\<And>a b. eq a b \<Longrightarrow> eq b a" "\<And>a b c. eq a b \<Longrightarrow> eq b c \<Longrightarrow> eq a c"
    and pos: "pos < length xs"
  shows "ring_walk eq xs rep pos 0 [] =
    (if unat rep \<le> length (firsts eq (rotate pos xs)) then Some (take (unat rep) (firsts eq (rotate pos xs))) else None)"
proof (cases "unat rep \<le> length (firsts eq (rotate pos xs))")
  case True
  have "rotate pos xs \<noteq> []" using pos by auto
  then have "ring_walk eq xs rep pos (of_nat (length ([] :: 'a list))) [] = Some (take (unat rep) (fold (visit eq) (rotate pos xs) []))"
    by (rule ring_walk_along) (use True pos in \<open>auto simp: firsts_def rotate_nth_walk\<close>)
  with True show ?thesis by (simp add: firsts_def)
next
  case False
  define Inv where "Inv = (\<lambda>acc. sorted_wrt (\<lambda>a b. \<not> eq a b) acc \<and> set acc \<subseteq> set xs)"
  have "ring_walk eq xs rep pos (of_nat (length ([] :: 'a list))) [] = None"
  proof (rule ring_walk_diverges [where Inv = Inv])
    fix p acc assume "p < length xs" "Inv acc"
    then show "Inv (visit eq (xs ! p) acc)"
      by (auto simp: Inv_def visit_def sorted_wrt_append list_ex_iff)
  next
    fix acc assume "Inv acc"
    then have "length acc \<le> length (firsts eq (rotate pos xs))"
      using fold_visit_covers [of eq _ "[]" "rotate pos xs", OF eq(1)]
      by (intro unique_length_le [of eq, OF eq(2,3)]) (auto simp: Inv_def firsts_def)
    with False show "length acc < unat rep" by simp
  qed (use pos in \<open>auto simp: Inv_def\<close>)
  with False show ?thesis by simp
qed


lemma responsible_global_eq:
  assumes "ring_sorted (nodes ring)"
  shows "responsible_global en key rep ring =
    (let owners = firsts st_eq (clockwise (GlobalHasher_key en key) (nodes ring))
     in if nodes ring = [] then Inr []
        else if unat rep \<le> length owners then Inr (take (unat rep) owners) else Inl Diverges)"
proof (cases "chm_find (GlobalHasher_key en key) (nodes ring)")
  case None
  then have "nodes ring = []" by (simp add: chm_find_def Let_def split: if_splits)
  with None show ?thesis by (simp add: responsible_global_def)
next
  case (Some pos)
  then have "nodes ring \<noteq> []" by (auto simp: chm_find_def)
  moreover note find = chm_find_clockwise [OF assms Some]
  moreover have "rotate pos (map snd (nodes ring)) = clockwise (GlobalHasher_key en key) (nodes ring)"
    using find(2) by (simp add: rotate_map)
  ultimately show ?thesis
    using Some ring_walk_firsts [of st_eq pos "map snd (nodes ring)" rep, OF st_eq_refl _ st_eq_trans] st_eq_sym
    by (simp add: responsible_global_def Let_def)
qed

lemma responsible_local_eq:
  assumes "ring_sorted (nodes ring)"
  shows "responsible_local en key rep ring =
    (let owners = firsts (=) (map tid (clockwise (LocalHasher_key en key) (nodes ring)))
     in if nodes ring = [] then Inr []
        else if unat rep \<le> length owners then Inr (take (unat rep) owners) else Inl Diverges)"
proof (cases "chm_find (LocalHasher_key en key) (nodes ring)")
  case None
  then have "nodes ring = []" by (simp add: chm_find_def Let_def split: if_splits)
  with None show ?thesis by (simp add: responsible_local_def)
next
  case (Some pos)
  then have "nodes ring \<noteq> []" by (auto simp: chm_find_def)
  moreover note find = chm_find_clockwise [OF assms Some]
  moreover have "rotate pos (map (\<lambda>p. tid (snd p)) (nodes ring)) = map tid (clockwise (LocalHasher_key en key) (nodes ring))"
    using find(2) [symmetric] by (simp add: rotate_map comp_def)
  ultimately show ?thesis
    using Some ring_walk_firsts [of "(=)" pos "map (\<lambda>p. tid (snd p)) (nodes ring)" rep, OF refl sym trans]
    by (simp add: responsible_local_def Let_def)
qed

section \<open>Joins and departures\<close>

text \<open>The invariant of a ring: the virtual nodes are ordered by hash value, each sits at its
  own hash value and belongs to a server of the set of servers, which holds no server twice.\<close>

definition ring_inv :: "(ServerThread \<Rightarrow> 'h::linorder) \<Rightarrow> u32 \<Rightarrow> 'h HashRing \<Rightarrow> bool" where
  "ring_inv hasher vnum ring \<longleftrightarrow> ring_sorted (nodes ring) \<and>
     list_all (\<lambda>(h, st). h = hasher st \<and> unat (virtual_num st) < unat vnum \<and> sset_has (unique_servers ring) st) (nodes ring) \<and>
     sorted_wrt (\<lambda>a b. \<not> st_eq a b) (unique_servers ring)"

lemma sset_has_iff: "sset_has s st \<longleftrightarrow> (\<exists>t\<in>set s. st_eq t st)"
  by (simp add: sset_has_def list_ex_iff)

lemma fold_nodes_insert:
  "ring_sorted ns \<Longrightarrow> ring_sorted (fold (\<lambda>st. nodes_insert (hasher st) st) sts ns) \<and>
     set ns \<subseteq> set (fold (\<lambda>st. nodes_insert (hasher st) st) sts ns) \<and>
     set (fold (\<lambda>st. nodes_insert (hasher st) st) sts ns) \<subseteq> set ns \<union> (\<lambda>st. (hasher st, st)) ` set sts"
proof (induction sts arbitrary: ns)
  case (Cons st sts)
  have "set ns \<subseteq> set (nodes_insert (hasher st) st ns)"
    "set (nodes_insert (hasher st) st ns) \<subseteq> insert (hasher st, st) (set ns)"
    using set_nodes_insert [OF Cons.prems] by (auto split: if_splits)
  with Cons.IH [OF ring_sorted_insert [OF Cons.prems, of "hasher st" st]] show ?case by auto
qed simp

lemma fold_nodes_erase:
  "fold (\<lambda>st. nodes_erase (hasher st)) sts ns = filter (\<lambda>p. fst p \<notin> hasher ` set sts) ns"
  by (induction sts arbitrary: ns) (auto simp: nodes_erase_def intro: filter_cong)

lemma set_virtual_threads:
  "st \<in> set (virtual_threads vnum pub priv t) \<longleftrightarrow>
     public_ip st = pub \<and> private_ip st = priv \<and> tid st = t \<and> unat (virtual_num st) < unat vnum"
proof -
  have lt: "v < unat vnum \<Longrightarrow> unat (of_nat v :: u32) = v" for v
  proof -
    assume "v < unat vnum"
    moreover have "unat vnum < 2 ^ 32" using unsigned_less [of vnum] by simp
    ultimately show ?thesis by (simp add: unat_of_nat take_bit_nat_eq_self)
  qed
  have "st = mk_ServerThread pub priv t (of_nat (unat (virtual_num st)))"
    if "public_ip st = pub" "private_ip st = priv" "tid st = t"
    using that by (cases st) (simp add: mk_ServerThread_def)
  then have "st \<in> set (virtual_threads vnum pub priv t)"
    if "public_ip st = pub" "private_ip st = priv" "tid st = t" "unat (virtual_num st) < unat vnum"
    unfolding virtual_threads_def using that by (auto intro!: image_eqI [of _ _ "unat (virtual_num st)"] simp del: of_nat_unat)
  then show ?thesis
    by (auto simp: virtual_threads_def mk_ServerThread_def lt)
qed

lemma HashRing_insert_inv:
  assumes "ring_inv hasher vnum ring"
  shows "ring_inv hasher vnum (snd (HashRing_insert hasher vnum pub priv jc t ring))"
proof (cases "sset_has (unique_servers ring) (mk_ServerThread pub priv t 0)")
  case True
  with assms show ?thesis by (auto simp: HashRing_insert_def ring_inv_def Let_def)
next
  case False
  let ?ns = "fold (\<lambda>st. nodes_insert (hasher st) st) (virtual_threads vnum pub priv t) (nodes ring)"
  have s: "ring_sorted ?ns" "set ?ns \<subseteq> set (nodes ring) \<union> (\<lambda>st. (hasher st, st)) ` set (virtual_threads vnum pub priv t)"
    using fold_nodes_insert [of "nodes ring"] assms by (auto simp: ring_inv_def)
  have "sset_has (unique_servers ring @ [mk_ServerThread pub priv t 0]) st"
    if "st \<in> set (virtual_threads vnum pub priv t)" for st
    using that by (simp add: sset_has_iff set_virtual_threads st_eq_iff mk_ServerThread_def)
  moreover have "sset_has (unique_servers ring) st \<Longrightarrow> sset_has (unique_servers ring @ [u]) st" for st u
    by (auto simp: sset_has_iff)
  ultimately have "h = hasher st \<and> unat (virtual_num st) < unat vnum \<and>
      sset_has (unique_servers ring @ [mk_ServerThread pub priv t 0]) st" if "(h, st) \<in> set ?ns" for h st
    using that s(2) assms by (fastforce simp: ring_inv_def list_all_iff set_virtual_threads)
  then show ?thesis
    using False s(1) assms
    by (auto simp: HashRing_insert_def ring_inv_def Let_def list_all_iff sorted_wrt_append sset_has_iff)
qed

lemma HashRing_remove_inv:
  assumes inv: "ring_inv hasher vnum ring"
    and hash: "\<And>a b. st_eq a b \<Longrightarrow> virtual_num a = virtual_num b \<Longrightarrow> hasher a = hasher b"
  shows "ring_inv hasher vnum (HashRing_remove hasher vnum pub priv t ring)"
    and "\<forall>st\<in>snd ` set (nodes (HashRing_remove hasher vnum pub priv t ring)). \<not> st_eq st (mk_ServerThread pub priv t 0)"
proof -
  let ?u = "mk_ServerThread pub priv t 0"
  let ?ns = "filter (\<lambda>p. fst p \<notin> hasher ` set (virtual_threads vnum pub priv t)) (nodes ring)"
  have gone: "\<not> st_eq st ?u" if "(h, st) \<in> set ?ns" for h st
  proof
    assume e: "st_eq st ?u"
    have hs: "h = hasher st" "unat (virtual_num st) < unat vnum"
      using that inv by (auto simp: ring_inv_def list_all_iff)
    let ?v = "mk_ServerThread pub priv t (virtual_num st)"
    have "?v \<in> set (virtual_threads vnum pub priv t)"
      using hs(2) by (simp add: set_virtual_threads mk_ServerThread_def)
    moreover have "hasher st = hasher ?v"
      using e by (intro hash) (simp_all add: st_eq_iff mk_ServerThread_def)
    ultimately show False using that hs(1) by auto
  qed
  have "sset_has (sset_erase ?u (unique_servers ring)) st" if "(h, st) \<in> set ?ns" for h st
  proof -
    have "sset_has (unique_servers ring) st" using that inv by (auto simp: ring_inv_def list_all_iff)
    with gone [OF that] show ?thesis
      by (auto simp: sset_has_iff sset_erase_def st_eq_iff)
  qed
  then show "ring_inv hasher vnum (HashRing_remove hasher vnum pub priv t ring)"
    using inv
    by (auto simp: ring_inv_def HashRing_remove_def fold_nodes_erase list_all_iff ring_sorted_filter sset_erase_def sorted_wrt_filter)
  show "\<forall>st\<in>snd ` set (nodes (HashRing_remove hasher vnum pub priv t ring)). \<not> st_eq st ?u"
    using gone by (auto simp: HashRing_remove_def fold_nodes_erase)
qed

lemma filter_nodes_insert: "\<not> P (h, st) \<Longrightarrow> filter P (nodes_insert h st ns) = filter P ns"
  by (induction h st ns rule: nodes_insert.induct) auto

lemma filter_fold_nodes_insert:
  "(\<And>st. st \<in> set sts \<Longrightarrow> \<not> P (hasher st, st)) \<Longrightarrow>
     filter P (fold (\<lambda>st. nodes_insert (hasher st) st) sts ns) = filter P ns"
  by (induction sts arbitrary: ns) (auto simp: filter_nodes_insert)

lemma fold_visit_filter:
  assumes "\<And>a b. eq a b \<Longrightarrow> Q a = Q b"
  shows "fold (visit eq) (filter Q xs) (filter Q acc) = filter Q (fold (visit eq) xs acc)"
proof (induction xs arbitrary: acc)
  case (Cons x xs)
  have "visit eq x (filter Q acc) = filter Q (visit eq x acc)" if "Q x"
    using that assms by (auto simp: visit_def list_ex_iff)
  moreover have "filter Q (visit eq x acc) = filter Q acc" if "\<not> Q x"
    using that by (auto simp: visit_def)
  ultimately show ?case using Cons [of "visit eq x acc"] by auto
qed simp

lemma firsts_filter:
  assumes "\<And>a b. eq a b \<Longrightarrow> Q a = Q b"
  shows "firsts eq (filter Q xs) = filter Q (firsts eq xs)"
  using fold_visit_filter [of eq Q xs "[]", OF assms] by (simp add: firsts_def)

lemma take_filter: "x \<in> set (take n xs) \<Longrightarrow> Q x \<Longrightarrow> x \<in> set (take n (filter Q xs))"
proof (induction xs arbitrary: n)
  case (Cons y xs)
  then obtain m where n: "n = Suc m" by (cases n) auto
  have "set (take m ys) \<subseteq> set (take (Suc m) ys)" for ys :: "'a list" by (simp add: set_take_subset_set_take)
  with Cons n show ?case by auto
qed simp

lemma clockwise_filter: "clockwise h (filter (\<lambda>p. Q (snd p)) ns) = filter Q (clockwise h ns)"
  by (simp add: clockwise_def filter_map comp_def conj_commute)

lemma set_firsts: "set (firsts eq xs) \<subseteq> set xs"
  using set_fold_visit [of eq xs "[]"] by (simp add: firsts_def)

lemma set_clockwise: "set (clockwise h ns) = snd ` set ns"
  by (auto simp: clockwise_def image_iff not_less)

lemma join_new_or_old:
  assumes u: "u = mk_ServerThread pub priv t 0"
  shows "filter (\<lambda>p. \<not> st_eq (snd p) u) (nodes (snd (HashRing_insert hasher vnum pub priv jc t ring))) =
      filter (\<lambda>p. \<not> st_eq (snd p) u) (nodes ring)"
proof (cases "sset_has (unique_servers ring) u")
  case True
  then show ?thesis using u by (simp add: HashRing_insert_def Let_def)
next
  case False
  have "st_eq st u" if "st \<in> set (virtual_threads vnum pub priv t)" for st
    using that u by (simp add: set_virtual_threads st_eq_iff mk_ServerThread_def)
  with False u show ?thesis
    by (simp add: HashRing_insert_def Let_def filter_fold_nodes_insert)
qed

section \<open>A small cluster\<close>

definition example_config :: config where
  "example_config = \<lparr>kSelfTier = MEMORY, kSelfTierIdVector = [MEMORY], kThreadNum = 1, kMemoryThreadCount = 1,
     kEbsThreadCount = 1, kRoutingThreadCount = 1, kMemoryNodeCapacity = 1000, kEbsNodeCapacity = 1000,
     kDefaultGlobalMemoryReplication = 1, kDefaultGlobalEbsReplication = 1, kDefaultLocalReplication = 1,
     kMinimumReplicaNumber = 1,
     kTierMetadata = [(MEMORY, \<lparr>tm_id = MEMORY, thread_number = 1, default_replication = 1, node_capacity = 1000\<rparr>),
       (DISK, \<lparr>tm_id = DISK, thread_number = 1, default_replication = 0, node_capacity = 1000\<rparr>)],
     kVirtualThreadNum = 2\<rparr>"

definition example_env :: env where
  "example_env = \<lparr>std_hash = (\<lambda>s. of_nat (length s)), rand_r = (\<lambda>s. (s, s + 1)), pb = example_codecs, cfg = example_config\<rparr>"

definition example_ring :: GlobalHashRing where
  "example_ring = snd (global_insert example_env ''B'' ''bb'' 0 0 (snd (global_insert example_env ''A'' ''a'' 0 0 HashRing_empty)))"

definition example_local_ring :: LocalHashRing where
  "example_local_ring = snd (local_insert example_env ''A'' ''a'' 0 10 (snd (local_insert example_env ''A'' ''a'' 0 0 HashRing_empty)))"

lemma example_ring_code [code]: "example_ring =
    \<lparr>nodes = [(11, mk_ServerThread ''A'' ''a'' 0 0), (12, mk_ServerThread ''B'' ''bb'' 0 0)],
     unique_servers = [mk_ServerThread ''A'' ''a'' 0 0, mk_ServerThread ''B'' ''bb'' 0 0],
     server_join_count = [(''a'', 0), (''bb'', 0)]\<rparr>"
  by code_simp

lemma example_local_ring_code [code]: "example_local_ring =
    \<lparr>nodes = [(3, mk_ServerThread ''A'' ''a'' 0 0), (4, mk_ServerThread ''A'' ''a'' 10 0)],
     unique_servers = [mk_ServerThread ''A'' ''a'' 0 0, mk_ServerThread ''A'' ''a'' 10 0],
     server_join_count = [(''a'', 0)]\<rparr>"
  by code_simp

lemma example_vnum: "kVirtualThreadNum (cfg example_env) = 2"
  by (simp add: example_env_def example_config_def)

lemma example_ring_inv: "ring_inv (GlobalHasher_thread example_env) 2 example_ring"
  by code_simp

lemma example_local_ring_inv: "ring_inv (LocalHasher_thread example_env) 2 example_local_ring"
  by code_simp

lemma example_remove: "nodes (global_remove example_env ''A'' ''a'' 0 example_ring) = [(12, mk_ServerThread ''B'' ''bb'' 0 0)]"
  by code_simp

section \<open>Properties\<close>

text \<open>C2: the owners of a key. On any ring built by joins and departures,
  \<open>responsible_global\<close> returns the first \<open>rep\<close> distinct servers met clockwise from the key's hash value; on an
  empty ring it returns none, and when the ring holds fewer servers than \<open>rep\<close> it does not return.\<close>

theorem responsible_global_correct:
  assumes "ring_inv (GlobalHasher_thread en) vnum ring"
  shows "responsible_global en key rep ring =
    (let owners = firsts st_eq (clockwise (GlobalHasher_key en key) (nodes ring))
     in if nodes ring = [] then Inr []
        else if unat rep \<le> length owners then Inr (take (unat rep) owners) else Inl Diverges)"
  using assms responsible_global_eq by (simp only: ring_inv_def)

theorem responsible_global_correct_witness:
  "responsible_global example_env ''012345'' 2 example_ring =
     Inr [mk_ServerThread ''B'' ''bb'' 0 0, mk_ServerThread ''A'' ''a'' 0 0] \<and>
   responsible_global example_env ''012345'' 3 example_ring = Inl Diverges"
  unfolding responsible_global_correct [OF example_ring_inv] by code_simp

text \<open>C16: the worker threads of a server that own a key. \<open>responsible_local\<close> returns the first
  \<open>rep\<close> distinct thread numbers met clockwise from the key's hash value, none on an empty ring, and does
  not return when the ring has fewer threads than \<open>rep\<close>.\<close>

theorem responsible_local_correct:
  assumes "ring_inv (LocalHasher_thread en) vnum ring"
  shows "responsible_local en key rep ring =
    (let owners = firsts (=) (map tid (clockwise (LocalHasher_key en key) (nodes ring)))
     in if nodes ring = [] then Inr []
        else if unat rep \<le> length owners then Inr (take (unat rep) owners) else Inl Diverges)"
  using assms responsible_local_eq by (simp only: ring_inv_def)

theorem responsible_local_correct_witness:
  "responsible_local example_env ''0123'' 2 example_local_ring = Inr [10, 0]"
  unfolding responsible_local_correct [OF example_local_ring_inv] by code_simp

lemma global_hash_eq: "st_eq a b \<Longrightarrow> virtual_num a = virtual_num b \<Longrightarrow> GlobalHasher_thread en a = GlobalHasher_thread en b"
  by (simp add: GlobalHasher_thread_def virtual_id_def st_eq_iff)

text \<open>joins and departures keep the ring well formed (hash order, every virtual node
  at its own hash value and owned by a known server, no server twice), and after a departure no virtual
  node of the server is left.\<close>

theorem ring_membership_invariant:
  assumes "ring_inv (GlobalHasher_thread en) (kVirtualThreadNum (cfg en)) ring"
  shows "ring_inv (GlobalHasher_thread en) (kVirtualThreadNum (cfg en)) (snd (global_insert en pub priv jc t ring)) \<and>
     ring_inv (GlobalHasher_thread en) (kVirtualThreadNum (cfg en)) (global_remove en pub priv t ring) \<and>
     (\<forall>st\<in>snd ` set (nodes (global_remove en pub priv t ring)). \<not> st_eq st (mk_ServerThread pub priv t 0))"
  unfolding global_insert_def global_remove_def
  using HashRing_insert_inv [OF assms] HashRing_remove_inv [OF assms global_hash_eq] by blast

theorem ring_membership_invariant_witness:
  "ring_inv (GlobalHasher_thread example_env) 2 (global_remove example_env ''A'' ''a'' 0 example_ring) \<and>
   snd ` set (nodes (global_remove example_env ''A'' ''a'' 0 example_ring)) = {mk_ServerThread ''B'' ''bb'' 0 0}"
  using ring_membership_invariant [of example_env example_ring "''A''" "''a''" 0 0] example_ring_inv
  by (simp add: example_vnum example_remove)

text \<open>C18: consistent hashing moves keys only to the server that joins: every owner of a key
  after a join is the new server or already owned the key before.\<close>

theorem join_minimal_disruption:
  assumes inv: "ring_inv (GlobalHasher_thread en) (kVirtualThreadNum (cfg en)) ring"
    and after: "responsible_global en key rep (snd (global_insert en pub priv jc t ring)) = Inr owners'"
    and before: "responsible_global en key rep ring = Inr owners"
    and st: "st \<in> set owners'" and old: "\<not> st_eq st (mk_ServerThread pub priv t 0)"
  shows "st \<in> set owners"
proof -
  let ?ring = "snd (global_insert en pub priv jc t ring)" and ?u = "mk_ServerThread pub priv t 0"
  let ?h = "GlobalHasher_key en key"
  let ?Q = "\<lambda>s. \<not> st_eq s ?u"
  have sorted: "ring_sorted (nodes ring)" "ring_sorted (nodes ?ring)"
    using inv HashRing_insert_inv [OF inv] by (simp_all add: ring_inv_def global_insert_def)
  have Q: "st_eq a b \<Longrightarrow> ?Q a = ?Q b" for a b by (auto simp: st_eq_iff)
  have "filter ?Q (clockwise ?h (nodes ?ring)) = filter ?Q (clockwise ?h (nodes ring))"
    unfolding clockwise_filter [symmetric] global_insert_def by (simp only: join_new_or_old [OF refl])
  moreover have ff: "firsts st_eq (filter ?Q xs) = filter ?Q (firsts st_eq xs)" for xs
    by (rule firsts_filter) (rule Q)
  ultimately have same: "filter ?Q (firsts st_eq (clockwise ?h (nodes ?ring))) = filter ?Q (firsts st_eq (clockwise ?h (nodes ring)))"
    by (simp only: ff [symmetric])
  have "nodes ?ring \<noteq> []" using after st by (auto simp: responsible_global_eq [OF sorted(2)])
  then have "st \<in> set (take (unat rep) (firsts st_eq (clockwise ?h (nodes ?ring))))"
    using after st by (simp add: responsible_global_eq [OF sorted(2)] Let_def split: if_splits)
  from take_filter [of st _ _ ?Q, OF this old]
  have in_take: "st \<in> set (take (unat rep) (filter ?Q (firsts st_eq (clockwise ?h (nodes ring)))))"
    by (simp only: same)
  then have "nodes ring \<noteq> []" by (auto simp: clockwise_def firsts_def)
  then have owners: "owners = take (unat rep) (firsts st_eq (clockwise ?h (nodes ring)))"
    using before by (simp add: responsible_global_eq [OF sorted(1)] Let_def split: if_splits)
  show ?thesis
  proof (cases "filter ?Q (firsts st_eq (clockwise ?h (nodes ring))) = firsts st_eq (clockwise ?h (nodes ring))")
    case True
    with in_take owners show ?thesis by simp
  next
    case False
    then have "\<exists>s\<in>snd ` set (nodes ring). st_eq s ?u"
      using set_firsts [of st_eq "clockwise ?h (nodes ring)"] by (auto simp: filter_id_conv set_clockwise)
    then have "sset_has (unique_servers ring) ?u"
      using inv by (fastforce simp: ring_inv_def list_all_iff sset_has_iff st_eq_iff)
    then have "nodes ?ring = nodes ring"
      by (simp add: global_insert_def HashRing_insert_def Let_def)
    then have "responsible_global en key rep ?ring = responsible_global en key rep ring"
      by (simp only: responsible_global_def)
    with st after before show ?thesis by simp
  qed
qed

theorem join_minimal_disruption_witness:
  "mk_ServerThread ''A'' ''a'' 0 0 \<in> set [mk_ServerThread ''A'' ''a'' 0 0, mk_ServerThread ''B'' ''bb'' 0 0] \<and>
   responsible_global example_env ''0123456'' 2 (snd (global_insert example_env ''C'' ''ccc'' 0 0 example_ring)) =
     Inr [mk_ServerThread ''C'' ''ccc'' 0 0, mk_ServerThread ''A'' ''a'' 0 0]"
proof -
  have after: "responsible_global example_env ''0123456'' 2 (snd (global_insert example_env ''C'' ''ccc'' 0 0 example_ring)) =
     Inr [mk_ServerThread ''C'' ''ccc'' 0 0, mk_ServerThread ''A'' ''a'' 0 0]"
    by code_simp
  have before: "responsible_global example_env ''0123456'' 2 example_ring =
     Inr [mk_ServerThread ''A'' ''a'' 0 0, mk_ServerThread ''B'' ''bb'' 0 0]"
    by code_simp
  have "ring_inv (GlobalHasher_thread example_env) (kVirtualThreadNum (cfg example_env)) example_ring"
    using example_ring_inv by (simp only: example_vnum)
  from join_minimal_disruption [OF this after before, of "mk_ServerThread ''A'' ''a'' 0 0"] after
  show ?thesis by (simp add: st_eq_iff mk_ServerThread_def)
qed

text \<open>A server that joins and departs again leaves the ring as it was, provided no
  virtual node of it falls on the hash value of another server's.\<close>

theorem join_depart_roundtrip:
  assumes inv: "ring_inv (GlobalHasher_thread en) (kVirtualThreadNum (cfg en)) ring"
    and new: "\<not> sset_has (unique_servers ring) (mk_ServerThread pub priv t 0)"
    and free: "\<forall>st\<in>set (virtual_threads (kVirtualThreadNum (cfg en)) pub priv t). GlobalHasher_thread en st \<notin> fst ` set (nodes ring)"
  shows "nodes (global_remove en pub priv t (snd (global_insert en pub priv jc t ring))) = nodes ring \<and>
     unique_servers (global_remove en pub priv t (snd (global_insert en pub priv jc t ring))) = unique_servers ring"
proof -
  have "filter (\<lambda>p. fst p \<notin> GlobalHasher_thread en ` set (virtual_threads (kVirtualThreadNum (cfg en)) pub priv t)) (nodes ring) = nodes ring"
    using free by (force simp: filter_id_conv)
  moreover have "sset_erase (mk_ServerThread pub priv t 0) (unique_servers ring) = unique_servers ring"
    using new by (auto simp: sset_erase_def sset_has_iff filter_id_conv)
  ultimately show ?thesis
    using new
    by (simp add: global_remove_def global_insert_def HashRing_remove_def HashRing_insert_def Let_def
        fold_nodes_erase filter_fold_nodes_insert) (simp add: sset_erase_def)
qed

theorem join_depart_roundtrip_witness:
  "nodes (global_remove example_env ''C'' ''ccc'' 0 (snd (global_insert example_env ''C'' ''ccc'' 0 0 example_ring))) =
     nodes example_ring"
proof -
  have "ring_inv (GlobalHasher_thread example_env) (kVirtualThreadNum (cfg example_env)) example_ring"
    using example_ring_inv by (simp only: example_vnum)
  moreover have "\<not> sset_has (unique_servers example_ring) (mk_ServerThread ''C'' ''ccc'' 0 0)"
    by code_simp
  moreover have "\<forall>st\<in>set (virtual_threads (kVirtualThreadNum (cfg example_env)) ''C'' ''ccc'' 0).
      GlobalHasher_thread example_env st \<notin> fst ` set (nodes example_ring)"
    by code_simp
  ultimately show ?thesis by (rule join_depart_roundtrip [THEN conjunct1])
qed

section \<open>Reading the cluster state\<close>

text \<open>Two states that answer every question about rings and replication factors alike and
  differ at most in default entries left behind by \<open>operator[]\<close>.\<close>

definition ctx_same :: "'a ring_ctx_scheme \<Rightarrow> 'a ring_ctx_scheme \<Rightarrow> bool" where
  "ctx_same c d \<longleftrightarrow> global_ring d = global_ring c \<and> local_ring d = local_ring c \<and>
     global_rep d = global_rep c \<and> local_rep d = local_rep c \<and>
     umap_has (key_replication_map d) = umap_has (key_replication_map c) \<and>
     seed d = seed c \<and> sent d = sent c \<and> ring_ctx.more d = ring_ctx.more c"

lemma ctx_same_refl [simp]: "ctx_same c c"
  by (simp add: ctx_same_def)

lemma ctx_same_trans: "ctx_same a b \<Longrightarrow> ctx_same b c \<Longrightarrow> ctx_same a c"
  by (simp add: ctx_same_def)

lemma ctx_same_touch_global [simp]: "ctx_same c (touch_global t c)"
  by (auto simp: ctx_same_def touch_global_def global_ring_def local_ring_def global_rep_def local_rep_def fun_eq_iff)

lemma ctx_same_touch_local [simp]: "ctx_same c (touch_local t c)"
  by (auto simp: ctx_same_def touch_local_def global_ring_def local_ring_def global_rep_def local_rep_def fun_eq_iff)

lemma ctx_same_touch_rings [simp]: "ctx_same c (touch_rings t c)"
  unfolding touch_rings_def by (rule ctx_same_trans [OF ctx_same_touch_global ctx_same_touch_local])

lemma ctx_same_touch_rep:
  assumes "umap_has (key_replication_map c) key"
  shows "ctx_same c (touch_global_rep key t c)" and "ctx_same c (touch_local_rep key t c)"
  using assms
  by (auto simp: ctx_same_def touch_global_rep_def touch_local_rep_def set_global_def set_local_def
      global_ring_def local_ring_def global_rep_def local_rep_def fun_eq_iff)

text \<open>The owners of a key whose replication factors are known, as a function of the state.\<close>

definition owners :: "env \<Rightarrow> 'a ring_ctx_scheme \<Rightarrow> Key \<Rightarrow> Tier list \<Rightarrow> ServerThread list res" where
  "owners en c key tiers =
     efold (\<lambda>tier result. ebind (responsible_threads_in en key (global_rep c key tier) (local_rep c key tier)
               (global_ring c tier) (local_ring c tier)) (\<lambda>ts. Inr (result @ ts)))
       tiers []"

lemma threads_in_tier_loop:
  assumes "umap_has (key_replication_map c) key"
  shows "\<exists>c'. ctx_same c c' \<and>
    efold (\<lambda>thread (result, c). let c2 = touch_local tier (touch_local_rep key tier c)
        in ebind (responsible_local en key (local_rep c key tier) (local_ring c tier))
             (\<lambda>tids. Inr (result @ threads_of_tids thread tids, c2))) threads (r @ r', c) =
    ebind (efold (\<lambda>thread result. ebind (responsible_local en key (local_rep c key tier) (local_ring c tier))
                (\<lambda>tids. Inr (result @ threads_of_tids thread tids))) threads r') (\<lambda>x. Inr (r @ x, c'))"
  using assms
proof (induction threads arbitrary: r' c)
  case Nil
  then show ?case by (intro exI [of _ c]) simp
next
  case (Cons th ths)
  let ?c = "touch_local tier (touch_local_rep key tier c)"
  have same: "ctx_same c ?c"
    by (rule ctx_same_trans [OF ctx_same_touch_rep(2) [OF Cons.prems] ctx_same_touch_local])
  then have has: "umap_has (key_replication_map ?c) key" using Cons.prems by (simp add: ctx_same_def)
  show ?case
  proof (cases "responsible_local en key (local_rep c key tier) (local_ring c tier)")
    case (Inl e)
    then show ?thesis by (intro exI [of _ c]) simp
  next
    case (Inr tids)
    have rd: "local_rep ?c = local_rep c" "local_ring ?c = local_ring c" using same by (simp_all add: ctx_same_def)
    from Cons.IH [OF has, of "r' @ threads_of_tids th tids"] obtain c' where "ctx_same ?c c'"
      and eq: "efold (\<lambda>thread (result, c). let c2 = touch_local tier (touch_local_rep key tier c)
        in ebind (responsible_local en key (local_rep c key tier) (local_ring c tier))
             (\<lambda>tids. Inr (result @ threads_of_tids thread tids, c2))) ths (r @ (r' @ threads_of_tids th tids), ?c) =
        ebind (efold (\<lambda>thread result. ebind (responsible_local en key (local_rep c key tier) (local_ring c tier))
                (\<lambda>tids. Inr (result @ threads_of_tids thread tids))) ths (r' @ threads_of_tids th tids)) (\<lambda>x. Inr (r @ x, c'))"
      by (auto simp: rd)
    with same Inr show ?thesis
      by (intro exI [of _ c']) (auto simp: Let_def intro: ctx_same_trans)
  qed
qed

lemma threads_in_tier_eq:
  assumes "umap_has (key_replication_map c) key"
  shows "\<exists>c'. ctx_same c c' \<and> threads_in_tier en key tier (r, c) =
    ebind (responsible_threads_in en key (global_rep c key tier) (local_rep c key tier) (global_ring c tier) (local_ring c tier))
      (\<lambda>ts. Inr (r @ ts, c'))"
proof (cases "responsible_global en key (global_rep c key tier) (global_ring c tier)")
  case (Inl e)
  then show ?thesis
    by (intro exI [of _ c]) (simp add: threads_in_tier_def responsible_threads_in_def Let_def)
next
  case (Inr threads)
  let ?c = "touch_global tier (touch_global_rep key tier c)"
  have same: "ctx_same c ?c"
    by (rule ctx_same_trans [OF ctx_same_touch_rep(1) [OF assms] ctx_same_touch_global])
  then have has: "umap_has (key_replication_map ?c) key" using assms by (simp add: ctx_same_def)
  have rd: "local_rep ?c = local_rep c" "local_ring ?c = local_ring c" using same by (simp_all add: ctx_same_def)
  from threads_in_tier_loop [OF has, of tier en threads r "[]"] same rd Inr show ?thesis
    unfolding threads_in_tier_def responsible_threads_in_def
    by (auto simp: Let_def intro: ctx_same_trans)
qed

lemma get_responsible_threads_known:
  assumes "umap_has (key_replication_map c) key"
  shows "\<exists>c'. ctx_same c c' \<and>
    get_responsible_threads en addr key False tiers c = ebind (owners en c key tiers) (\<lambda>ts. Inr (ts, True, c'))"
proof -
  have "\<exists>c'. ctx_same c c' \<and> efold (threads_in_tier en key) tiers (r, c) =
     ebind (efold (\<lambda>tier result. ebind (responsible_threads_in en key (global_rep c key tier) (local_rep c key tier)
               (global_ring c tier) (local_ring c tier)) (\<lambda>ts. Inr (result @ ts))) tiers r) (\<lambda>ts. Inr (ts, c'))" for r
    using assms
  proof (induction tiers arbitrary: r c)
    case Nil
    then show ?case by (intro exI [of _ c]) simp
  next
    case (Cons tier tiers)
    from threads_in_tier_eq [OF Cons.prems, of en tier r] obtain c1 where c1: "ctx_same c c1"
      "threads_in_tier en key tier (r, c) = ebind (responsible_threads_in en key (global_rep c key tier) (local_rep c key tier)
         (global_ring c tier) (local_ring c tier)) (\<lambda>ts. Inr (r @ ts, c1))" by blast
    have has: "umap_has (key_replication_map c1) key" using Cons.prems c1(1) by (simp add: ctx_same_def)
    have rd: "global_rep c1 = global_rep c" "local_rep c1 = local_rep c" "global_ring c1 = global_ring c" "local_ring c1 = local_ring c"
      using c1(1) by (simp_all add: ctx_same_def)
    show ?case
    proof (cases "responsible_threads_in en key (global_rep c key tier) (local_rep c key tier) (global_ring c tier) (local_ring c tier)")
      case (Inl e)
      with c1 show ?thesis by (intro exI [of _ c1]) simp
    next
      case (Inr ts)
      from Cons.IH [OF has, of "r @ ts"] c1 Inr rd show ?thesis by (auto intro: ctx_same_trans)
    qed
  qed
  from this [of "[]"] assms show ?thesis
    by (auto simp: get_responsible_threads_def owners_def ebind_def split: sum.splits)
qed

lemma get_responsible_threads_metadata_ok:
  "\<exists>c'. ctx_same c c' \<and> get_responsible_threads en addr key True tiers c =
     ebind (get_responsible_threads_metadata en key (global_ring c MEMORY) (local_ring c MEMORY)) (\<lambda>ts. Inr (ts, True, c'))"
  by (intro exI [of _ "touch_rings MEMORY c"]) (simp add: get_responsible_threads_def)

text \<open>Asking for the replication factors of a key.\<close>

definition replication_request :: "Address \<Rightarrow> Key \<Rightarrow> KeyRequest" where
  "replication_request addr key =
     \<lparr>kr_type = GET, kr_tuples = [KeyTuple_default\<lparr>kt_key := get_metadata_key key replication, kt_lattice_type := LWW\<rparr>],
      kr_response_address = addr, kr_request_id = []\<rparr>"

definition ctx_asked :: "Address \<Rightarrow> Key \<Rightarrow> 'a ring_ctx_scheme \<Rightarrow> 'a ring_ctx_scheme \<Rightarrow> bool" where
  "ctx_asked addr key c d \<longleftrightarrow> global_ring d = global_ring c \<and> local_ring d = local_ring c \<and>
     key_replication_map d = key_replication_map c \<and> ring_ctx.more d = ring_ctx.more c \<and>
     (\<exists>st. sent d = sent c @ [(key_request_connect_address st, Request (replication_request addr key))])"

lemma issue_replication_factor_request_eq:
  assumes "get_responsible_threads_metadata en (get_metadata_key key replication) g l = Inr ts"
  shows "issue_replication_factor_request en addr key g l c =
    (if ts = [] then Inl Div_by_zero
     else Inr (c\<lparr>seed := snd (rand_r en (seed c)),
                 sent := sent c @ [(key_request_connect_address (ts ! (unat (fst (rand_r en (seed c))) mod length ts)),
                                    Request (replication_request addr key))]\<rparr>))"
  using assms
  by (simp add: issue_replication_factor_request_def Let_def send_def replication_request_def prepare_get_tuple_def
      KeyRequest_default_def split: prod.split)

text \<open>A key whose replication factors are unknown has no answer yet: one GET of its
  replication metadata key goes to a thread responsible for that key, with the given response address, and
  the caller is told to wait; rings and factors stay as they are. If no memory server has joined, the
  request divides by zero.\<close>

theorem unknown_key_asks_for_replication:
  assumes "\<not> umap_has (key_replication_map c) key"
    and "get_responsible_threads_metadata en (get_metadata_key key replication) (global_ring c MEMORY) (local_ring c MEMORY) = Inr ts"
  shows "if ts = [] then get_responsible_threads en addr key False tiers c = Inl Div_by_zero
    else \<exists>c' st. st \<in> set ts \<and> get_responsible_threads en addr key False tiers c = Inr ([], False, c') \<and>
      sent c' = sent c @ [(key_request_connect_address st, Request (replication_request addr key))] \<and>
      key_replication_map c' = key_replication_map c \<and> global_ring c' = global_ring c \<and> local_ring c' = local_ring c"
proof (cases "ts = []")
  case True
  with assms show ?thesis
    by (simp add: get_responsible_threads_def issue_replication_factor_request_eq)
next
  case False
  let ?i = "unat (fst (rand_r en (seed c))) mod length ts"
  have "ts ! ?i \<in> set ts" using False by simp
  then have "\<exists>st. st \<in> set ts \<and> key_request_connect_address (ts ! ?i) = key_request_connect_address st" by blast
  moreover have c: "ctx_same c (touch_rings MEMORY c)" by simp
  moreover have "key_replication_map (touch_rings MEMORY c) = key_replication_map c"
    by (simp add: touch_rings_def touch_local_def touch_global_def)
  moreover have "global_ring (d\<lparr>seed := s, sent := x\<rparr>) = global_ring d" "local_ring (d\<lparr>seed := s, sent := x\<rparr>) = local_ring d"
    for d :: "'a ring_ctx_scheme" and s x
    by (simp_all add: global_ring_def local_ring_def fun_eq_iff)
  ultimately show ?thesis
    using False assms
    by (intro if_not_P [THEN iffD2])
       (auto simp: get_responsible_threads_def issue_replication_factor_request_eq ctx_same_def)
qed

definition example_ctx :: ring_ctx where
  "example_ctx = \<lparr>global_hash_rings = [(MEMORY, example_ring)], local_hash_rings = [(MEMORY, example_local_ring)],
     key_replication_map = [], seed = 5, sent = []\<rparr>"

theorem unknown_key_asks_for_replication_witness:
  "\<exists>c' st. get_responsible_threads example_env ''tcp://x:1'' ''k'' False [MEMORY] example_ctx = Inr ([], False, c') \<and>
     st \<in> set [mk_ServerThread3 ''A'' ''a'' 0] \<and>
     sent c' = [(key_request_connect_address st, Request (replication_request ''tcp://x:1'' ''k''))]"
proof -
  have "\<not> umap_has (key_replication_map example_ctx) ''k''" by code_simp
  moreover have "get_responsible_threads_metadata example_env (get_metadata_key ''k'' replication)
      (global_ring example_ctx MEMORY) (local_ring example_ctx MEMORY) = Inr [mk_ServerThread3 ''A'' ''a'' 0]"
    by code_simp
  moreover have "sent example_ctx = []" by (simp add: example_ctx_def)
  ultimately show ?thesis
    using unknown_key_asks_for_replication
      [of example_ctx "''k''" example_env "[mk_ServerThread3 ''A'' ''a'' 0]" "''tcp://x:1''" "[MEMORY]"] by auto
qed

lemma get_responsible_threads_unknown:
  assumes "\<not> umap_has (key_replication_map c) key"
    and "get_responsible_threads en addr key False tiers c = Inr (ts, ok, c')"
  shows "ts = [] \<and> \<not> ok \<and> ctx_asked addr key c c'"
proof -
  let ?c = "touch_rings MEMORY c"
  have same: "ctx_same c ?c" by simp
  have km: "key_replication_map ?c = key_replication_map c"
    by (simp add: touch_rings_def touch_local_def touch_global_def)
  from assms obtain ms where ms: "get_responsible_threads_metadata en (get_metadata_key key replication)
      (global_ring c MEMORY) (local_ring c MEMORY) = Inr ms"
    by (auto simp: get_responsible_threads_def issue_replication_factor_request_def Let_def ebind_Inr_iff)
  have "global_ring (d\<lparr>seed := s, sent := x\<rparr>) = global_ring d" "local_ring (d\<lparr>seed := s, sent := x\<rparr>) = local_ring d"
    for d :: "'a ring_ctx_scheme" and s x
    by (simp_all add: global_ring_def local_ring_def fun_eq_iff)
  with assms ms same km show ?thesis
    by (auto simp: get_responsible_threads_def issue_replication_factor_request_eq ctx_asked_def ctx_same_def split: if_splits)
qed
end
