(* ===== verification/Serializers.thy ===== *)
theory Serializers
  imports Wire
begin

text \<open>
  Storage: \<open>include/kvs/base_kv_store.hpp\<close> and the serializers of
  \<open>include/kvs/server_utils.hpp\<close>.

  \<open>stores\<close> holds the six in-memory key-value stores of a worker thread and the files of its disk
  directory, which all disk serializers share. A \<open>Serializer\<close> object is a value of a datatype with one
  constructor per subclass, its virtual methods are \<open>Serializer_get\<close>, \<open>Serializer_put\<close> and
  \<open>Serializer_remove\<close>; a null pointer is \<open>None\<close>. Writing a file succeeds. The position a stream reports after
  protobuf has parsed it to its end is a parameter (\<open>istream_pos\<close>).

  The locale \<open>kv_serializer\<close> is the contract of the abstract class: a serializer keeps one lattice element
  per key, \<open>put\<close> merges into it, \<open>get\<close> returns it or says that the key does not exist. It is interpreted
  on the last-writer-wins and the set serializers of both tiers, and gives the refinement theorems:
  no sequence of operations distinguishes the disk serializer from the memory serializer.
\<close>

section \<open>\<open>KVStore\<close>\<close>

definition KVStore_get :: "'v \<Rightarrow> 'k \<Rightarrow> AnnaError \<Rightarrow> ('k, 'v) umap \<Rightarrow> ('v \<times> AnnaError) \<times> ('k, 'v) umap" where
  "KVStore_get d k error db =
     (let error' = (if \<not> MapLattice_contains db k then KEY_DNE else error);
          (v, db') = MapLattice_at d k db
      in ((v, error'), db'))"

definition KVStore_put :: "('v \<Rightarrow> 'v \<Rightarrow> 'v) \<Rightarrow> 'v \<Rightarrow> 'k \<Rightarrow> 'v \<Rightarrow> ('k, 'v) umap \<Rightarrow> ('k, 'v) umap" where
  "KVStore_put merge d k v db = (let (old, db') = MapLattice_at d k db in umap_put k (merge old v) db')"

definition KVStore_size :: "('v \<Rightarrow> u32) \<Rightarrow> 'v \<Rightarrow> 'k \<Rightarrow> ('k, 'v) umap \<Rightarrow> u32 \<times> ('k, 'v) umap" where
  "KVStore_size sz d k db = (let (v, db') = MapLattice_at d k db in (sz v, db'))"

definition KVStore_remove :: "'k \<Rightarrow> ('k, 'v) umap \<Rightarrow> ('k, 'v) umap" where
  "KVStore_remove k db = MapLattice_remove k db"

section \<open>The state behind the serializers\<close>

record stores =
  lww_kvs :: "(Key, string TimestampValuePair) umap"
  set_kvs :: "(Key, string uset) umap"
  ordered_set_kvs :: "(Key, string list) umap"
  causal_kvs :: "(Key, string VectorClockValuePair) umap"
  multi_key_causal_kvs :: "(Key, string MultiKeyCausalPayload) umap"
  priority_kvs :: "(Key, (double, string) PriorityValuePair) umap"
  files :: "(string, string) umap"

definition stores_empty :: stores where
  "stores_empty = \<lparr>lww_kvs = [], set_kvs = [], ordered_set_kvs = [], causal_kvs = [],
     multi_key_causal_kvs = [], priority_kvs = [], files = []\<rparr>"

text \<open>\<open>INT_MAX\<close> is the priority of a default-constructed pair.\<close>

definition PriorityValuePair_default :: "(double, string) PriorityValuePair" where
  "PriorityValuePair_default = \<lparr>pv_priority = 2147483647, pv_value = []\<rparr>"

record disk_env =
  ebs_conf :: string
  disk_tid :: u32
  istream_pos :: "string \<Rightarrow> u32"

definition ebs_root :: "disk_env \<Rightarrow> string" where
  "ebs_root de = (if ebs_conf de = [] \<or> last (ebs_conf de) \<noteq> CHR ''/'' then ebs_conf de @ ''/'' else ebs_conf de)"

definition fname :: "disk_env \<Rightarrow> Key \<Rightarrow> string" where
  "fname de key = ebs_root de @ ''ebs_'' @ to_string (disk_tid de) @ ''/'' @ key"

definition write_file :: "disk_env \<Rightarrow> Key \<Rightarrow> string \<Rightarrow> stores \<Rightarrow> u32 \<times> stores" where
  "write_file de key content s = (of_nat (length content), s\<lparr>files := umap_put (fname de key) content (files s)\<rparr>)"

section \<open>Memory serializers\<close>

definition MemoryLWW_get :: "codecs \<Rightarrow> Key \<Rightarrow> AnnaError \<Rightarrow> stores \<Rightarrow> (string \<times> AnnaError) \<times> stores" where
  "MemoryLWW_get pb key error s =
     (let ((val, e1), db) = KVStore_get LWWPairLattice_default key error (lww_kvs s);
          e2 = (if tv_value val = [] then KEY_DNE else e1)
      in ((serialize_lww pb val, e2), s\<lparr>lww_kvs := db\<rparr>))"

definition MemoryLWW_put :: "codecs \<Rightarrow> Key \<Rightarrow> string \<Rightarrow> stores \<Rightarrow> u32 \<times> stores" where
  "MemoryLWW_put pb key serialized s =
     (let val = deserialize_lww pb serialized;
          db = KVStore_put LWWPairLattice_do_merge LWWPairLattice_default key val (lww_kvs s);
          (n, db') = KVStore_size LWWPairLattice_size LWWPairLattice_default key db
      in (n, s\<lparr>lww_kvs := db'\<rparr>))"

definition MemoryLWW_remove :: "Key \<Rightarrow> stores \<Rightarrow> stores" where
  "MemoryLWW_remove key s = s\<lparr>lww_kvs := KVStore_remove key (lww_kvs s)\<rparr>"

definition MemorySet_get :: "codecs \<Rightarrow> Key \<Rightarrow> AnnaError \<Rightarrow> stores \<Rightarrow> (string \<times> AnnaError) \<times> stores" where
  "MemorySet_get pb key error s =
     (let ((val, e1), db) = KVStore_get [] key error (set_kvs s);
          e2 = (if SetLattice_size val = 0 then KEY_DNE else e1)
      in ((serialize_set pb val, e2), s\<lparr>set_kvs := db\<rparr>))"

definition MemorySet_put :: "codecs \<Rightarrow> Key \<Rightarrow> string \<Rightarrow> stores \<Rightarrow> u32 \<times> stores" where
  "MemorySet_put pb key serialized s =
     (let sl = deserialize_set pb serialized;
          db = KVStore_put SetLattice_do_merge [] key sl (set_kvs s);
          (n, db') = KVStore_size SetLattice_size [] key db
      in (n, s\<lparr>set_kvs := db'\<rparr>))"

definition MemorySet_remove :: "Key \<Rightarrow> stores \<Rightarrow> stores" where
  "MemorySet_remove key s = s\<lparr>set_kvs := KVStore_remove key (set_kvs s)\<rparr>"

definition MemoryOrderedSet_get :: "codecs \<Rightarrow> Key \<Rightarrow> AnnaError \<Rightarrow> stores \<Rightarrow> (string \<times> AnnaError) \<times> stores" where
  "MemoryOrderedSet_get pb key error s =
     (let ((val, e1), db) = KVStore_get [] key error (ordered_set_kvs s)
      in ((serialize_ordered_set pb val, e1), s\<lparr>ordered_set_kvs := db\<rparr>))"

definition MemoryOrderedSet_put :: "codecs \<Rightarrow> Key \<Rightarrow> string \<Rightarrow> stores \<Rightarrow> u32 \<times> stores" where
  "MemoryOrderedSet_put pb key serialized s =
     (let sl = deserialize_ordered_set pb serialized;
          db = KVStore_put OrderedSetLattice_do_merge [] key sl (ordered_set_kvs s);
          (n, db') = KVStore_size OrderedSetLattice_size [] key db
      in (n, s\<lparr>ordered_set_kvs := db'\<rparr>))"

definition MemoryOrderedSet_remove :: "Key \<Rightarrow> stores \<Rightarrow> stores" where
  "MemoryOrderedSet_remove key s = s\<lparr>ordered_set_kvs := KVStore_remove key (ordered_set_kvs s)\<rparr>"

definition MemorySingleKeyCausal_get :: "codecs \<Rightarrow> Key \<Rightarrow> AnnaError \<Rightarrow> stores \<Rightarrow> (string \<times> AnnaError) \<times> stores" where
  "MemorySingleKeyCausal_get pb key error s =
     (let ((val, e1), db) = KVStore_get VectorClockValuePair_default key error (causal_kvs s);
          e2 = (if SetLattice_size (sk_value val) = 0 then KEY_DNE else e1)
      in ((serialize_sk pb val, e2), s\<lparr>causal_kvs := db\<rparr>))"

definition MemorySingleKeyCausal_put :: "codecs \<Rightarrow> Key \<Rightarrow> string \<Rightarrow> stores \<Rightarrow> u32 \<times> stores" where
  "MemorySingleKeyCausal_put pb key serialized s =
     (let p = to_vector_clock_value_pair (deserialize_causal pb serialized);
          db = KVStore_put SingleKeyCausalLattice_do_merge VectorClockValuePair_default key p (causal_kvs s);
          (n, db') = KVStore_size VectorClockValuePair_size VectorClockValuePair_default key db
      in (n, s\<lparr>causal_kvs := db'\<rparr>))"

definition MemorySingleKeyCausal_remove :: "Key \<Rightarrow> stores \<Rightarrow> stores" where
  "MemorySingleKeyCausal_remove key s = s\<lparr>causal_kvs := KVStore_remove key (causal_kvs s)\<rparr>"

definition MemoryMultiKeyCausal_get :: "codecs \<Rightarrow> Key \<Rightarrow> AnnaError \<Rightarrow> stores \<Rightarrow> (string \<times> AnnaError) \<times> stores" where
  "MemoryMultiKeyCausal_get pb key error s =
     (let ((val, e1), db) = KVStore_get MultiKeyCausalPayload_default key error (multi_key_causal_kvs s);
          e2 = (if SetLattice_size (mk_value val) = 0 then KEY_DNE else e1)
      in ((serialize_mk pb val, e2), s\<lparr>multi_key_causal_kvs := db\<rparr>))"

definition MemoryMultiKeyCausal_put :: "codecs \<Rightarrow> Key \<Rightarrow> string \<Rightarrow> stores \<Rightarrow> u32 \<times> stores" where
  "MemoryMultiKeyCausal_put pb key serialized s =
     (let p = to_multi_key_causal_payload (deserialize_multi_key_causal pb serialized);
          db = KVStore_put MultiKeyCausalLattice_do_merge MultiKeyCausalPayload_default key p (multi_key_causal_kvs s);
          (n, db') = KVStore_size MultiKeyCausalPayload_size MultiKeyCausalPayload_default key db
      in (n, s\<lparr>multi_key_causal_kvs := db'\<rparr>))"

definition MemoryMultiKeyCausal_remove :: "Key \<Rightarrow> stores \<Rightarrow> stores" where
  "MemoryMultiKeyCausal_remove key s = s\<lparr>multi_key_causal_kvs := KVStore_remove key (multi_key_causal_kvs s)\<rparr>"

definition MemoryPriority_get :: "codecs \<Rightarrow> Key \<Rightarrow> AnnaError \<Rightarrow> stores \<Rightarrow> (string \<times> AnnaError) \<times> stores" where
  "MemoryPriority_get pb key error s =
     (let ((val, e1), db) = KVStore_get PriorityValuePair_default key error (priority_kvs s);
          e2 = (if pv_value val = [] then KEY_DNE else e1)
      in ((serialize_priority pb val, e2), s\<lparr>priority_kvs := db\<rparr>))"

definition MemoryPriority_put :: "codecs \<Rightarrow> Key \<Rightarrow> string \<Rightarrow> stores \<Rightarrow> u32 \<times> stores" where
  "MemoryPriority_put pb key serialized s =
     (let val = deserialize_priority pb serialized;
          db = KVStore_put PriorityLattice_do_merge PriorityValuePair_default key val (priority_kvs s);
          (n, db') = KVStore_size PriorityLattice_size PriorityValuePair_default key db
      in (n, s\<lparr>priority_kvs := db'\<rparr>))"

definition MemoryPriority_remove :: "Key \<Rightarrow> stores \<Rightarrow> stores" where
  "MemoryPriority_remove key s = s\<lparr>priority_kvs := KVStore_remove key (priority_kvs s)\<rparr>"

section \<open>Disk serializers\<close>

text \<open>All \<open>get\<close> methods read the whole file into a message and answer \<open>KEY_DNE\<close> if there is no file
  or it cannot be parsed.\<close>

definition Disk_get :: "'m codec \<Rightarrow> ('m \<Rightarrow> bool) \<Rightarrow> disk_env \<Rightarrow> Key \<Rightarrow> AnnaError \<Rightarrow> stores \<Rightarrow> (string \<times> AnnaError) \<times> stores" where
  "Disk_get c missing de key error s =
     (case map_of (files s) (fname de key) of
        None \<Rightarrow> (([], KEY_DNE), s)
      | Some input \<Rightarrow>
          if \<not> parse_ok c input then (([], KEY_DNE), s)
          else if missing (parsed c input) then (([], KEY_DNE), s)
          else ((enc c (parsed c input), error), s))"

definition DiskLWW_get :: "codecs \<Rightarrow> disk_env \<Rightarrow> Key \<Rightarrow> AnnaError \<Rightarrow> stores \<Rightarrow> (string \<times> AnnaError) \<times> stores" where
  "DiskLWW_get pb = Disk_get (pb_lww pb) (\<lambda>v. lv_value v = [])"

definition DiskLWW_put :: "codecs \<Rightarrow> disk_env \<Rightarrow> Key \<Rightarrow> string \<Rightarrow> stores \<Rightarrow> u32 \<times> stores" where
  "DiskLWW_put pb de key serialized s =
     (let c = pb_lww pb; input_value = parsed c serialized
      in case map_of (files s) (fname de key) of
           None \<Rightarrow> write_file de key (enc c input_value) s
         | Some input \<Rightarrow>
             if \<not> parse_ok c input then (0, s)
             else if lv_timestamp input_value \<ge> lv_timestamp (parsed c input)
             then write_file de key (enc c input_value) s
             else (istream_pos de input, s))"

definition Disk_remove :: "disk_env \<Rightarrow> Key \<Rightarrow> stores \<Rightarrow> stores" where
  "Disk_remove de key s = s\<lparr>files := umap_erase (fname de key) (files s)\<rparr>"

definition DiskSet_get :: "codecs \<Rightarrow> disk_env \<Rightarrow> Key \<Rightarrow> AnnaError \<Rightarrow> stores \<Rightarrow> (string \<times> AnnaError) \<times> stores" where
  "DiskSet_get pb = Disk_get (pb_set pb) (\<lambda>v. v = [])"

definition DiskSet_put :: "codecs \<Rightarrow> disk_env \<Rightarrow> Key \<Rightarrow> string \<Rightarrow> stores \<Rightarrow> u32 \<times> stores" where
  "DiskSet_put pb de key serialized s =
     (let c = pb_set pb; input_value = parsed c serialized
      in case map_of (files s) (fname de key) of
           None \<Rightarrow> write_file de key (enc c input_value) s
         | Some input \<Rightarrow>
             if \<not> parse_ok c input then (0, s)
             else let set_union = fold uset_insert input_value (fold uset_insert (parsed c input) [])
                  in write_file de key (enc c set_union) s)"

definition DiskOrderedSet_get :: "codecs \<Rightarrow> disk_env \<Rightarrow> Key \<Rightarrow> AnnaError \<Rightarrow> stores \<Rightarrow> (string \<times> AnnaError) \<times> stores" where
  "DiskOrderedSet_get pb = Disk_get (pb_set pb) (\<lambda>_. False)"

definition DiskOrderedSet_put :: "codecs \<Rightarrow> disk_env \<Rightarrow> Key \<Rightarrow> string \<Rightarrow> stores \<Rightarrow> u32 \<times> stores" where
  "DiskOrderedSet_put pb de key serialized s =
     (let c = pb_set pb; input_value = parsed c serialized
      in case map_of (files s) (fname de key) of
           None \<Rightarrow> write_file de key (enc c input_value) s
         | Some input \<Rightarrow>
             if \<not> parse_ok c input then (0, s)
             else let set_union = fold OrderedSetLattice_insert input_value
                                    (fold OrderedSetLattice_insert (parsed c input) [])
                  in write_file de key (enc c set_union) s)"

definition DiskSingleKeyCausal_get :: "codecs \<Rightarrow> disk_env \<Rightarrow> Key \<Rightarrow> AnnaError \<Rightarrow> stores \<Rightarrow> (string \<times> AnnaError) \<times> stores" where
  "DiskSingleKeyCausal_get pb = Disk_get (pb_sk pb) (\<lambda>v. skv_values v = [])"

definition DiskSingleKeyCausal_put :: "codecs \<Rightarrow> disk_env \<Rightarrow> Key \<Rightarrow> string \<Rightarrow> stores \<Rightarrow> u32 \<times> stores" where
  "DiskSingleKeyCausal_put pb de key serialized s =
     (let c = pb_sk pb; input_value = parsed c serialized
      in case map_of (files s) (fname de key) of
           None \<Rightarrow> write_file de key (enc c input_value) s
         | Some input \<Rightarrow>
             if \<not> parse_ok c input then (0, s)
             else let orig = to_vector_clock_value_pair (parsed c input);
                      orig' = SingleKeyCausalLattice_do_merge orig (to_vector_clock_value_pair input_value)
                  in write_file de key
                       (enc c \<lparr>skv_vector_clock = copy_clock (sk_vector_clock orig'),
                               skv_values = fold (\<lambda>val vs. vs @ [val]) (sk_value orig') []\<rparr>) s)"

definition DiskMultiKeyCausal_get :: "codecs \<Rightarrow> disk_env \<Rightarrow> Key \<Rightarrow> AnnaError \<Rightarrow> stores \<Rightarrow> (string \<times> AnnaError) \<times> stores" where
  "DiskMultiKeyCausal_get pb = Disk_get (pb_mk pb) (\<lambda>v. mkv_values v = [])"

definition DiskMultiKeyCausal_put :: "codecs \<Rightarrow> disk_env \<Rightarrow> Key \<Rightarrow> string \<Rightarrow> stores \<Rightarrow> u32 \<times> stores" where
  "DiskMultiKeyCausal_put pb de key serialized s =
     (let c = pb_mk pb; input_value = parsed c serialized
      in case map_of (files s) (fname de key) of
           None \<Rightarrow> write_file de key (enc c input_value) s
         | Some input \<Rightarrow>
             if \<not> parse_ok c input then (0, s)
             else let orig = to_multi_key_causal_payload (parsed c input);
                      orig' = MultiKeyCausalLattice_do_merge orig (to_multi_key_causal_payload input_value)
                  in write_file de key
                       (enc c \<lparr>mkv_vector_clock = copy_clock (mk_vector_clock orig'),
                               mkv_dependencies = fold (\<lambda>(k, vc) ds. ds @ [(k, copy_clock vc)]) (mk_dependencies orig') [],
                               mkv_values = fold (\<lambda>val vs. vs @ [val]) (mk_value orig') []\<rparr>) s)"

definition DiskPriority_get :: "codecs \<Rightarrow> disk_env \<Rightarrow> Key \<Rightarrow> AnnaError \<Rightarrow> stores \<Rightarrow> (string \<times> AnnaError) \<times> stores" where
  "DiskPriority_get pb = Disk_get (pb_prio pb) (\<lambda>v. prv_value v = [])"

text \<open>\<open>open(..., O_CREAT)\<close> makes an empty file where there was none; the position at the end is
  the length of what was read or written.\<close>

definition DiskPriority_put :: "codecs \<Rightarrow> disk_env \<Rightarrow> Key \<Rightarrow> string \<Rightarrow> stores \<Rightarrow> u32 \<times> stores" where
  "DiskPriority_put pb de key serialized s =
     (let c = pb_prio pb; input_value = parsed c serialized;
          content = umap_get [] (files s) (fname de key);
          s1 = s\<lparr>files := umap_put (fname de key) content (files s)\<rparr>
      in if \<not> parse_ok c content \<or> prv_priority input_value < prv_priority (parsed c content)
         then write_file de key (enc c input_value) s1
         else (of_nat (length content), s1))"

section \<open>Dynamic dispatch\<close>

datatype Serializer =
    MemoryLWWSerializer | MemorySetSerializer | MemoryOrderedSetSerializer
  | MemorySingleKeyCausalSerializer | MemoryMultiKeyCausalSerializer | MemoryPrioritySerializer
  | DiskLWWSerializer | DiskSetSerializer | DiskOrderedSetSerializer
  | DiskSingleKeyCausalSerializer | DiskMultiKeyCausalSerializer | DiskPrioritySerializer

definition Serializer_get ::
  "codecs \<Rightarrow> disk_env \<Rightarrow> Serializer \<Rightarrow> Key \<Rightarrow> AnnaError \<Rightarrow> stores \<Rightarrow> (string \<times> AnnaError) \<times> stores" where
  "Serializer_get pb de sr =
     (case sr of
        MemoryLWWSerializer \<Rightarrow> MemoryLWW_get pb
      | MemorySetSerializer \<Rightarrow> MemorySet_get pb
      | MemoryOrderedSetSerializer \<Rightarrow> MemoryOrderedSet_get pb
      | MemorySingleKeyCausalSerializer \<Rightarrow> MemorySingleKeyCausal_get pb
      | MemoryMultiKeyCausalSerializer \<Rightarrow> MemoryMultiKeyCausal_get pb
      | MemoryPrioritySerializer \<Rightarrow> MemoryPriority_get pb
      | DiskLWWSerializer \<Rightarrow> DiskLWW_get pb de
      | DiskSetSerializer \<Rightarrow> DiskSet_get pb de
      | DiskOrderedSetSerializer \<Rightarrow> DiskOrderedSet_get pb de
      | DiskSingleKeyCausalSerializer \<Rightarrow> DiskSingleKeyCausal_get pb de
      | DiskMultiKeyCausalSerializer \<Rightarrow> DiskMultiKeyCausal_get pb de
      | DiskPrioritySerializer \<Rightarrow> DiskPriority_get pb de)"

definition Serializer_put ::
  "codecs \<Rightarrow> disk_env \<Rightarrow> Serializer \<Rightarrow> Key \<Rightarrow> string \<Rightarrow> stores \<Rightarrow> u32 \<times> stores" where
  "Serializer_put pb de sr =
     (case sr of
        MemoryLWWSerializer \<Rightarrow> MemoryLWW_put pb
      | MemorySetSerializer \<Rightarrow> MemorySet_put pb
      | MemoryOrderedSetSerializer \<Rightarrow> MemoryOrderedSet_put pb
      | MemorySingleKeyCausalSerializer \<Rightarrow> MemorySingleKeyCausal_put pb
      | MemoryMultiKeyCausalSerializer \<Rightarrow> MemoryMultiKeyCausal_put pb
      | MemoryPrioritySerializer \<Rightarrow> MemoryPriority_put pb
      | DiskLWWSerializer \<Rightarrow> DiskLWW_put pb de
      | DiskSetSerializer \<Rightarrow> DiskSet_put pb de
      | DiskOrderedSetSerializer \<Rightarrow> DiskOrderedSet_put pb de
      | DiskSingleKeyCausalSerializer \<Rightarrow> DiskSingleKeyCausal_put pb de
      | DiskMultiKeyCausalSerializer \<Rightarrow> DiskMultiKeyCausal_put pb de
      | DiskPrioritySerializer \<Rightarrow> DiskPriority_put pb de)"

definition Serializer_remove :: "disk_env \<Rightarrow> Serializer \<Rightarrow> Key \<Rightarrow> stores \<Rightarrow> stores" where
  "Serializer_remove de sr =
     (case sr of
        MemoryLWWSerializer \<Rightarrow> MemoryLWW_remove
      | MemorySetSerializer \<Rightarrow> MemorySet_remove
      | MemoryOrderedSetSerializer \<Rightarrow> MemoryOrderedSet_remove
      | MemorySingleKeyCausalSerializer \<Rightarrow> MemorySingleKeyCausal_remove
      | MemoryMultiKeyCausalSerializer \<Rightarrow> MemoryMultiKeyCausal_remove
      | MemoryPrioritySerializer \<Rightarrow> MemoryPriority_remove
      | _ \<Rightarrow> Disk_remove de)"

text \<open>The map from lattice types to serializers that a worker thread of each tier sets up;
  \<open>operator[]\<close> gives a null pointer for \<open>NONE\<close>.\<close>

definition serializers :: "Tier \<Rightarrow> LatticeType \<Rightarrow> Serializer option" where
  "serializers tier ty =
     (case ty of
        NONE \<Rightarrow> None
      | LWW \<Rightarrow> Some (if tier = MEMORY then MemoryLWWSerializer else DiskLWWSerializer)
      | SET \<Rightarrow> Some (if tier = MEMORY then MemorySetSerializer else DiskSetSerializer)
      | ORDERED_SET \<Rightarrow> Some (if tier = MEMORY then MemoryOrderedSetSerializer else DiskOrderedSetSerializer)
      | SINGLE_CAUSAL \<Rightarrow> Some (if tier = MEMORY then MemorySingleKeyCausalSerializer else DiskSingleKeyCausalSerializer)
      | MULTI_CAUSAL \<Rightarrow> Some (if tier = MEMORY then MemoryMultiKeyCausalSerializer else DiskMultiKeyCausalSerializer)
      | PRIORITY \<Rightarrow> Some (if tier = MEMORY then MemoryPrioritySerializer else DiskPrioritySerializer))"

section \<open>The contract of a serializer\<close>

datatype store_op = Get Key | Put Key string | Remove Key

datatype 'v answer = Found 'v | Missing

text \<open>Running operations through a serializer; the answer to a \<open>Get\<close> is the decoded payload or
  the news that the key does not exist.\<close>

fun run_ops ::
  "(Key \<Rightarrow> 's \<Rightarrow> (string \<times> AnnaError) \<times> 's) \<Rightarrow> (Key \<Rightarrow> string \<Rightarrow> 's \<Rightarrow> u32 \<times> 's) \<Rightarrow> (Key \<Rightarrow> 's \<Rightarrow> 's) \<Rightarrow>
     (string \<Rightarrow> 'v) \<Rightarrow> store_op list \<Rightarrow> 's \<Rightarrow> 'v answer list \<times> 's" where
  "run_ops get put rem decode [] s = ([], s)"
| "run_ops get put rem decode (Get k # ops) s =
     (let ((payload, error), s1) = get k s; (as, s2) = run_ops get put rem decode ops s1
      in ((if error = NO_ERROR then Found (decode payload) else Missing) # as, s2))"
| "run_ops get put rem decode (Put k p # ops) s = run_ops get put rem decode ops (snd (put k p s))"
| "run_ops get put rem decode (Remove k # ops) s = run_ops get put rem decode ops (rem k s)"

text \<open>What the answers should be: one lattice element per key.\<close>

fun spec_run ::
  "('v \<Rightarrow> bool) \<Rightarrow> ('v \<Rightarrow> 'v \<Rightarrow> 'v) \<Rightarrow> 'v \<Rightarrow> (string \<Rightarrow> 'v) \<Rightarrow> store_op list \<Rightarrow> (Key \<Rightarrow> 'v) \<Rightarrow> 'v answer list \<times> (Key \<Rightarrow> 'v)" where
  "spec_run absent merge dflt decode [] m = ([], m)"
| "spec_run absent merge dflt decode (Get k # ops) m =
     (let (as, m') = spec_run absent merge dflt decode ops m
      in ((if absent (m k) then Missing else Found (m k)) # as, m'))"
| "spec_run absent merge dflt decode (Put k p # ops) m =
     spec_run absent merge dflt decode ops (m(k := merge (m k) (decode p)))"
| "spec_run absent merge dflt decode (Remove k # ops) m = spec_run absent merge dflt decode ops (m(k := dflt))"

locale kv_serializer =
  fixes get :: "Key \<Rightarrow> 's \<Rightarrow> (string \<times> AnnaError) \<times> 's"
    and put :: "Key \<Rightarrow> string \<Rightarrow> 's \<Rightarrow> u32 \<times> 's"
    and rem :: "Key \<Rightarrow> 's \<Rightarrow> 's"
    and inv :: "'s \<Rightarrow> bool"
    and view :: "'s \<Rightarrow> Key \<Rightarrow> 'v"
    and absent :: "'v \<Rightarrow> bool"
    and merge :: "'v \<Rightarrow> 'v \<Rightarrow> 'v"
    and dflt :: 'v
    and decode :: "string \<Rightarrow> 'v"
  assumes get_inv: "inv s \<Longrightarrow> inv (snd (get k s))"
    and get_view: "inv s \<Longrightarrow> view (snd (get k s)) = view s"
    and get_error: "inv s \<Longrightarrow> snd (fst (get k s)) = (if absent (view s k) then KEY_DNE else NO_ERROR)"
    and get_payload: "inv s \<Longrightarrow> \<not> absent (view s k) \<Longrightarrow> decode (fst (fst (get k s))) = view s k"
    and put_inv: "inv s \<Longrightarrow> inv (snd (put k p s))"
    and put_view: "inv s \<Longrightarrow> view (snd (put k p s)) = (view s)(k := merge (view s k) (decode p))"
    and rem_inv: "inv s \<Longrightarrow> inv (rem k s)"
    and rem_view: "inv s \<Longrightarrow> view (rem k s) = (view s)(k := dflt)"
begin

lemma run_spec:
  assumes "inv s"
  shows "fst (run_ops get put rem decode ops s) = fst (spec_run absent merge dflt decode ops (view s)) \<and>
    view (snd (run_ops get put rem decode ops s)) = snd (spec_run absent merge dflt decode ops (view s)) \<and>
    inv (snd (run_ops get put rem decode ops s))"
  using assms
proof (induction ops arbitrary: s)
  case (Cons op ops)
  show ?case
  proof (cases op)
    case (Get k)
    obtain payload error s1 where g: "get k s = ((payload, error), s1)" by (metis prod.exhaust)
    then have "inv s1" "view s1 = view s" "error = (if absent (view s k) then KEY_DNE else NO_ERROR)"
      "\<not> absent (view s k) \<Longrightarrow> decode payload = view s k"
      using get_inv [OF Cons.prems, of k] get_view [OF Cons.prems, of k] get_error [OF Cons.prems, of k]
        get_payload [OF Cons.prems, of k] by simp_all
    with Cons.IH [of s1] g Get show ?thesis by (auto simp: split_beta Let_def)
  next
    case (Put k p)
    from Cons.IH [OF put_inv [OF Cons.prems, of k p]] Put show ?thesis
      by (simp only: put_view [OF Cons.prems] run_ops.simps spec_run.simps)
  next
    case (Remove k)
    from Cons.IH [OF rem_inv [OF Cons.prems, of k]] Remove show ?thesis
      by (simp only: rem_view [OF Cons.prems] run_ops.simps spec_run.simps)
  qed
qed simp

text \<open>A \<open>get\<close> after a series of \<open>put\<close>s of one key sees the merge of all of them.\<close>

lemma get_after_puts:
  assumes "inv s"
  shows "view (snd (run_ops get put rem decode (map (Put k) ps) s)) k = foldl merge (view s k) (map decode ps)"
  using assms
proof (induction ps arbitrary: s)
  case (Cons p ps)
  then show ?case using put_inv [of s k p] put_view [of s k p] by simp
qed simp

end

section \<open>The serializers that keep the contract\<close>

abbreviation lww_view :: "stores \<Rightarrow> Key \<Rightarrow> string TimestampValuePair" where
  "lww_view s \<equiv> umap_get LWWPairLattice_default (lww_kvs s)"

abbreviation set_view :: "stores \<Rightarrow> Key \<Rightarrow> string uset" where
  "set_view s \<equiv> umap_get [] (set_kvs s)"

definition disk_lww_view :: "codecs \<Rightarrow> disk_env \<Rightarrow> stores \<Rightarrow> Key \<Rightarrow> string TimestampValuePair" where
  "disk_lww_view pb de s k =
     (case map_of (files s) (fname de k) of None \<Rightarrow> LWWPairLattice_default | Some f \<Rightarrow> deserialize_lww pb f)"

definition disk_set_view :: "codecs \<Rightarrow> disk_env \<Rightarrow> stores \<Rightarrow> Key \<Rightarrow> string uset" where
  "disk_set_view pb de s k =
     (case map_of (files s) (fname de k) of None \<Rightarrow> [] | Some f \<Rightarrow> deserialize_set pb f)"

definition files_parse :: "'m codec \<Rightarrow> stores \<Rightarrow> bool" where
  "files_parse c s \<longleftrightarrow> (\<forall>f content. map_of (files s) f = Some content \<longrightarrow> parse_ok c content)"

lemma fname_inject [simp]: "fname de k = fname de k' \<longleftrightarrow> k = k'"
  by (simp add: fname_def)

lemma KVStore_get_view [simp]:
  "umap_get d (snd (KVStore_get d k e db)) = umap_get d db"
  "fst (fst (KVStore_get d k e db)) = umap_get d db k"
  "snd (fst (KVStore_get d k e db)) = (if umap_has db k then e else KEY_DNE)"
  by (auto simp: KVStore_get_def MapLattice_at_def MapLattice_contains_def Let_def fun_eq_iff umap_has_def split: option.splits)

lemma KVStore_put_view [simp]: "umap_get d (KVStore_put merge d k v db) = (umap_get d db)(k := merge (umap_get d db k) v)"
  by (auto simp: KVStore_put_def MapLattice_at_def fun_eq_iff)

lemma KVStore_size_view [simp]: "umap_get d (snd (KVStore_size sz d k db)) = umap_get d db"
  by (auto simp: KVStore_size_def MapLattice_at_def fun_eq_iff)

lemma umap_get_absent: "\<not> umap_has db k \<Longrightarrow> umap_get d db k = d"
  by (cases "map_of db k") (auto simp: umap_has_def umap_get_def)

lemma KVStore_remove_view [simp]: "umap_get d (KVStore_remove k db) = (umap_get d db)(k := d)"
  by (auto simp: KVStore_remove_def MapLattice_remove_def fun_eq_iff umap_get_absent)

interpretation mem_lww: kv_serializer "\<lambda>k. MemoryLWW_get pb k NO_ERROR" "MemoryLWW_put pb" MemoryLWW_remove
  "\<lambda>s. codec_ok (=) (pb_lww pb)" lww_view "\<lambda>v. tv_value v = []" LWWPairLattice_do_merge LWWPairLattice_default
  "deserialize_lww pb" for pb
proof (unfold_locales, goal_cases)
  case (3 s k)
  have "\<not> umap_has (lww_kvs s) k \<Longrightarrow> tv_value (lww_view s k) = []"
    by (simp add: umap_get_absent LWWPairLattice_default_def)
  then show ?case by (auto simp: MemoryLWW_get_def Let_def split_beta)
qed (simp_all add: MemoryLWW_get_def MemoryLWW_put_def MemoryLWW_remove_def Let_def split_beta deserialize_serialize_lww)

lemma deserialize_set_distinct: "distinct (deserialize_set pb p)"
  by (simp add: deserialize_set_def wf_intros)

interpretation mem_set: kv_serializer "\<lambda>k. MemorySet_get pb k NO_ERROR" "MemorySet_put pb" MemorySet_remove
  "\<lambda>s. codec_ok (=) (pb_set pb) \<and> (\<forall>k. distinct (set_view s k))" set_view "\<lambda>v. SetLattice_size v = 0"
  SetLattice_do_merge "[]" "deserialize_set pb" for pb
proof (unfold_locales, goal_cases)
  case (3 s k)
  have "\<not> umap_has (set_kvs s) k \<Longrightarrow> SetLattice_size (set_view s k) = 0"
    by (simp add: umap_get_absent SetLattice_size_def)
  then show ?case by (auto simp: MemorySet_get_def Let_def split_beta)
qed (simp_all add: MemorySet_get_def MemorySet_put_def MemorySet_remove_def Let_def split_beta
    deserialize_serialize_set SetLattice_do_merge_def wf_intros)

lemma lww_record: "\<lparr>lv_timestamp = lv_timestamp v, lv_value = lv_value v\<rparr> = v"
  by simp

lemma deserialize_lww_parsed: "codec_ok (=) (pb_lww pb) \<Longrightarrow> deserialize_lww pb (enc (pb_lww pb) v) = \<lparr>tv_timestamp = lv_timestamp v, tv_value = lv_value v\<rparr>"
  by (simp add: deserialize_lww_def)

lemma write_file_lookup [simp]:
  "map_of (files (snd (write_file de k content s))) = (map_of (files s))(fname de k \<mapsto> content)"
  by (simp add: write_file_def)

lemma files_parse_write: "files_parse c s \<Longrightarrow> codec_ok (=) c \<Longrightarrow> files_parse c (snd (write_file de k (enc c m) s))"
  by (simp add: files_parse_def codec_ok_parse_ok)

lemma files_parse_remove: "files_parse c s \<Longrightarrow> files_parse c (Disk_remove de k s)"
  by (simp add: files_parse_def Disk_remove_def)

lemma Disk_get_state [simp]: "snd (Disk_get c missing de k e s) = s"
  by (simp add: Disk_get_def split: option.split)

lemma DiskLWW_put_cases:
  assumes "codec_ok (=) (pb_lww pb)" and "files_parse (pb_lww pb) s"
  shows "disk_lww_view pb de (snd (DiskLWW_put pb de k p s)) =
      (disk_lww_view pb de s)(k := LWWPairLattice_do_merge (disk_lww_view pb de s k) (deserialize_lww pb p))"
    and "files_parse (pb_lww pb) (snd (DiskLWW_put pb de k p s))"
proof -
  let ?c = "pb_lww pb"
  have written: "disk_lww_view pb de (snd (write_file de k (enc ?c (parsed ?c p)) s)) =
      (disk_lww_view pb de s)(k := deserialize_lww pb p)"
    using assms(1) by (auto simp: disk_lww_view_def fun_eq_iff deserialize_lww_def)
  show "disk_lww_view pb de (snd (DiskLWW_put pb de k p s)) =
      (disk_lww_view pb de s)(k := LWWPairLattice_do_merge (disk_lww_view pb de s k) (deserialize_lww pb p))"
  proof (cases "map_of (files s) (fname de k)")
    case None
    then have "disk_lww_view pb de s k = LWWPairLattice_default" by (simp add: disk_lww_view_def)
    then have "LWWPairLattice_do_merge (disk_lww_view pb de s k) (deserialize_lww pb p) = deserialize_lww pb p"
      by (simp add: LWWPairLattice_do_merge_def LWWPairLattice_default_def)
    with None written show ?thesis by (simp add: DiskLWW_put_def Let_def)
  next
    case (Some f)
    then have ok: "parse_ok ?c f" using assms(2) by (simp add: files_parse_def)
    have v: "disk_lww_view pb de s k = deserialize_lww pb f" using Some by (simp add: disk_lww_view_def)
    show ?thesis
    proof (cases "lv_timestamp (parsed ?c p) \<ge> lv_timestamp (parsed ?c f)")
      case True
      then have "LWWPairLattice_do_merge (deserialize_lww pb f) (deserialize_lww pb p) = deserialize_lww pb p"
        by (simp add: LWWPairLattice_do_merge_def deserialize_lww_def Let_def)
      with True Some ok v written show ?thesis by (simp add: DiskLWW_put_def Let_def)
    next
      case False
      then have "LWWPairLattice_do_merge (deserialize_lww pb f) (deserialize_lww pb p) = deserialize_lww pb f"
        by (simp add: LWWPairLattice_do_merge_def deserialize_lww_def Let_def)
      with False Some ok v show ?thesis by (simp add: DiskLWW_put_def Let_def fun_upd_idem)
    qed
  qed
  show "files_parse ?c (snd (DiskLWW_put pb de k p s))"
    using assms by (auto simp: DiskLWW_put_def Let_def files_parse_write split: option.split)
qed

interpretation disk_lww: kv_serializer "\<lambda>k. DiskLWW_get pb de k NO_ERROR" "DiskLWW_put pb de" "Disk_remove de"
  "\<lambda>s. codec_ok (=) (pb_lww pb) \<and> files_parse (pb_lww pb) s" "disk_lww_view pb de" "\<lambda>v. tv_value v = []"
  LWWPairLattice_do_merge LWWPairLattice_default "deserialize_lww pb" for pb de
proof (unfold_locales, goal_cases)
  case (3 s k)
  then show ?case
    by (auto simp: DiskLWW_get_def Disk_get_def disk_lww_view_def files_parse_def LWWPairLattice_default_def
        deserialize_lww_def Let_def split: option.split)
next
  case (4 s k)
  then show ?case
    by (auto simp: DiskLWW_get_def Disk_get_def disk_lww_view_def files_parse_def LWWPairLattice_default_def
        deserialize_lww_def Let_def split: option.splits)
next
  case (8 s k)
  then show ?case by (auto simp: Disk_remove_def disk_lww_view_def fun_eq_iff)
qed (simp_all add: DiskLWW_get_def DiskLWW_put_cases files_parse_remove)

lemma fold_uset_insert_twice: "fold uset_insert (fold uset_insert xs ys) s = fold uset_insert xs (fold uset_insert ys s)"
proof (induction xs arbitrary: ys)
  case (Cons x xs)
  have "fold uset_insert (uset_insert x ys) s = uset_insert x (fold uset_insert ys s)"
    by (auto simp: uset_insert_def)
  with Cons show ?case by simp
qed simp

lemma DiskSet_put_cases:
  assumes "codec_ok (=) (pb_set pb)" and "files_parse (pb_set pb) s"
  shows "disk_set_view pb de (snd (DiskSet_put pb de k p s)) =
      (disk_set_view pb de s)(k := SetLattice_do_merge (disk_set_view pb de s k) (deserialize_set pb p))"
    and "files_parse (pb_set pb) (snd (DiskSet_put pb de k p s))"
proof -
  let ?c = "pb_set pb"
  have written: "disk_set_view pb de (snd (write_file de k (enc ?c m) s)) =
      (disk_set_view pb de s)(k := fold uset_insert m [])" for m
    using assms(1) by (auto simp: disk_set_view_def fun_eq_iff deserialize_set_def)
  show "disk_set_view pb de (snd (DiskSet_put pb de k p s)) =
      (disk_set_view pb de s)(k := SetLattice_do_merge (disk_set_view pb de s k) (deserialize_set pb p))"
  proof (cases "map_of (files s) (fname de k)")
    case None
    then have "SetLattice_do_merge (disk_set_view pb de s k) (deserialize_set pb p) = fold uset_insert (parsed ?c p) []"
      by (simp add: disk_set_view_def SetLattice_do_merge_def deserialize_set_def fold_uset_insert_twice)
    with None written show ?thesis by (simp add: DiskSet_put_def Let_def)
  next
    case (Some f)
    then have ok: "parse_ok ?c f" using assms(2) by (simp add: files_parse_def)
    have "SetLattice_do_merge (disk_set_view pb de s k) (deserialize_set pb p) =
        fold uset_insert (parsed ?c p) (fold uset_insert (parsed ?c f) [])"
      using Some by (simp add: disk_set_view_def SetLattice_do_merge_def deserialize_set_def fold_uset_insert_twice)
    moreover have "fold uset_insert (fold uset_insert (parsed ?c p) (fold uset_insert (parsed ?c f) [])) [] =
        fold uset_insert (parsed ?c p) (fold uset_insert (parsed ?c f) [])"
      by (simp add: fold_uset_insert_twice)
    ultimately show ?thesis using Some ok written by (simp add: DiskSet_put_def Let_def)
  qed
  show "files_parse ?c (snd (DiskSet_put pb de k p s))"
    using assms by (auto simp: DiskSet_put_def Let_def files_parse_write split: option.split)
qed

lemma fold_uset_insert_empty: "fold uset_insert xs [] = [] \<longleftrightarrow> xs = []"
  using set_fold_uset_insert [of xs "[]"] by (metis Un_commute set_empty sup_bot_left fold_simps(1))

interpretation disk_set: kv_serializer "\<lambda>k. DiskSet_get pb de k NO_ERROR" "DiskSet_put pb de" "Disk_remove de"
  "\<lambda>s. codec_ok (=) (pb_set pb) \<and> files_parse (pb_set pb) s" "disk_set_view pb de" "\<lambda>v. v = []"
  SetLattice_do_merge "[]" "deserialize_set pb" for pb de
proof (unfold_locales, goal_cases)
  case (3 s k)
  then show ?case
    by (auto simp: DiskSet_get_def Disk_get_def disk_set_view_def files_parse_def
        deserialize_set_def fold_uset_insert_empty split: option.split)
next
  case (4 s k)
  then show ?case
    by (auto simp: DiskSet_get_def Disk_get_def disk_set_view_def files_parse_def
        deserialize_set_def fold_uset_insert_empty split: option.splits)
next
  case (8 s k)
  then show ?case by (auto simp: Disk_remove_def disk_set_view_def fun_eq_iff)
qed (simp_all add: DiskSet_get_def DiskSet_put_cases files_parse_remove)

section \<open>Properties\<close>

lemma spec_puts_get:
  "fst (spec_run absent merge dflt decode (map (Put k) ps @ [Get k]) m) =
     [let v = foldl merge (m k) (map decode ps) in if absent v then Missing else Found v]"
  by (induction ps arbitrary: m) (auto simp: Let_def)

definition put_values :: "codecs \<Rightarrow> store_op \<Rightarrow> nat" where
  "put_values pb op = (case op of Put k p \<Rightarrow> length (deserialize_set pb p) | _ \<Rightarrow> 0)"

lemma length_fold_uset_insert: "length (fold uset_insert xs s) \<le> length s + length xs"
proof (induction xs arbitrary: s)
  case (Cons x xs)
  have "length (uset_insert x s) \<le> Suc (length s)" by (simp add: uset_insert_def)
  with Cons [of "uset_insert x s"] show ?case by simp
qed simp

text \<open>Below \<open>2 ^ 32\<close> elements, the 32-bit size of a set is zero only for the empty set.\<close>

lemma SetLattice_size_0: "length v < 2 ^ 32 \<Longrightarrow> SetLattice_size v = 0 \<longleftrightarrow> v = []"
proof -
  assume "length v < 2 ^ 32"
  then have len: "unat (SetLattice_size v) = length v"
    by (simp add: SetLattice_size_def unat_of_nat take_bit_nat_eq_self)
  show ?thesis
  proof
    assume "SetLattice_size v = 0"
    with len show "v = []" by simp
  qed (simp add: SetLattice_size_def)
qed

lemma spec_run_set_size:
  assumes "\<forall>k. length (m k) + sum_list (map (put_values pb) ops) < 2 ^ 32"
  shows "fst (spec_run (\<lambda>v. SetLattice_size v = 0) SetLattice_do_merge [] (deserialize_set pb) ops m) =
    fst (spec_run (\<lambda>v. v = []) SetLattice_do_merge [] (deserialize_set pb) ops m)"
  using assms
proof (induction ops arbitrary: m)
  case (Cons op ops)
  show ?case
  proof (cases op)
    case (Get k)
    have "length (m k) < 2 ^ 32" using Cons.prems [rule_format, of k] by linarith
    with Cons Get show ?thesis by (simp add: put_values_def split_beta Let_def SetLattice_size_0)
  next
    case (Put k p)
    have "length (SetLattice_do_merge (m k) (deserialize_set pb p)) \<le> length (m k) + put_values pb op"
      using Put by (simp add: SetLattice_do_merge_def put_values_def length_fold_uset_insert)
    then have "length ((m(k := SetLattice_do_merge (m k) (deserialize_set pb p))) j) + sum_list (map (put_values pb) ops) < 2 ^ 32" for j
      using Cons.prems [rule_format, of j] Cons.prems [rule_format, of k] by auto
    from Cons.IH [OF allI, OF this] Put show ?thesis by (simp only: spec_run.simps)
  next
    case (Remove k)
    have "length ((m(k := [])) j) + sum_list (map (put_values pb) ops) < 2 ^ 32" for j
      using Cons.prems [rule_format, of j] by (auto simp: Remove put_values_def)
    from Cons.IH [OF allI, OF this] Remove show ?thesis by (simp only: spec_run.simps)
  qed
qed simp

lemma empty_views:
  "lww_view stores_empty = (\<lambda>_. LWWPairLattice_default)" "set_view stores_empty = (\<lambda>_. [])"
  "disk_lww_view pb de stores_empty = (\<lambda>_. LWWPairLattice_default)" "disk_set_view pb de stores_empty = (\<lambda>_. [])"
  "files_parse c stores_empty"
  by (auto simp: stores_empty_def disk_lww_view_def disk_set_view_def files_parse_def fun_eq_iff)

abbreviation mem_lww_run where
  "mem_lww_run pb \<equiv> run_ops (\<lambda>k. MemoryLWW_get pb k NO_ERROR) (MemoryLWW_put pb) MemoryLWW_remove (deserialize_lww pb)"

abbreviation disk_lww_run where
  "disk_lww_run pb de \<equiv> run_ops (\<lambda>k. DiskLWW_get pb de k NO_ERROR) (DiskLWW_put pb de) (Disk_remove de) (deserialize_lww pb)"

abbreviation mem_set_run where
  "mem_set_run pb \<equiv> run_ops (\<lambda>k. MemorySet_get pb k NO_ERROR) (MemorySet_put pb) MemorySet_remove (deserialize_set pb)"

abbreviation disk_set_run where
  "disk_set_run pb de \<equiv> run_ops (\<lambda>k. DiskSet_get pb de k NO_ERROR) (DiskSet_put pb de) (Disk_remove de) (deserialize_set pb)"

lemma mem_lww_answers:
  assumes "codec_ok (=) (pb_lww pb)"
  shows "fst (mem_lww_run pb ops stores_empty) =
    fst (spec_run (\<lambda>v. tv_value v = []) LWWPairLattice_do_merge LWWPairLattice_default (deserialize_lww pb) ops
      (\<lambda>_. LWWPairLattice_default))"
  using mem_lww.run_spec [where pb = pb and s = stores_empty and ops = ops] assms by (simp only: empty_views)

lemma disk_lww_answers:
  assumes "codec_ok (=) (pb_lww pb)"
  shows "fst (disk_lww_run pb de ops stores_empty) =
    fst (spec_run (\<lambda>v. tv_value v = []) LWWPairLattice_do_merge LWWPairLattice_default (deserialize_lww pb) ops
      (\<lambda>_. LWWPairLattice_default))"
  using disk_lww.run_spec [where pb = pb and de = de and s = stores_empty and ops = ops] assms by (simp only: empty_views)


definition example_disk :: disk_env where
  "example_disk = \<lparr>ebs_conf = ''/ebs'', disk_tid = 0, istream_pos = (\<lambda>s. of_nat (length s))\<rparr>"

lemma example_lww_ok: "codec_ok (=) (pb_lww example_codecs)"
  using example_codecs_ok by (simp add: codecs_ok_def)


text \<open>the same for set keys, as long as fewer than \<open>2 ^ 32\<close> values are put (the memory
  serializer tests emptiness on a 32-bit size).\<close>

theorem disk_set_refines_memory:
  assumes "codec_ok (=) (pb_set pb)" and "sum_list (map (put_values pb) ops) < 2 ^ 32"
  shows "fst (disk_set_run pb de ops stores_empty) = fst (mem_set_run pb ops stores_empty)"
proof -
  have "fst (mem_set_run pb ops stores_empty) =
      fst (spec_run (\<lambda>v. SetLattice_size v = 0) SetLattice_do_merge [] (deserialize_set pb) ops (\<lambda>_. []))"
    using mem_set.run_spec [where pb = pb and s = stores_empty and ops = ops] assms by (simp only: empty_views) simp
  moreover have "fst (disk_set_run pb de ops stores_empty) =
      fst (spec_run (\<lambda>v. v = []) SetLattice_do_merge [] (deserialize_set pb) ops (\<lambda>_. []))"
    using disk_set.run_spec [where pb = pb and de = de and s = stores_empty and ops = ops] assms by (simp only: empty_views)
  ultimately show ?thesis
    using spec_run_set_size [of "\<lambda>_. []" pb ops] assms(2) by simp
qed

theorem disk_set_refines_memory_witness:
  "fst (disk_set_run example_codecs example_disk
      [Put ''k'' (serialize_set example_codecs [''a'']), Put ''k'' (serialize_set example_codecs [''b'', ''a'']), Get ''k'', Remove ''k'', Get ''k'']
      stores_empty) = [Found [''a'', ''b''], Missing]"
proof -
  let ?ops = "[Put ''k'' (serialize_set example_codecs [''a'']), Put ''k'' (serialize_set example_codecs [''b'', ''a'']), Get ''k'', Remove ''k'', Get ''k'']"
  have ok: "codec_ok (=) (pb_set example_codecs)" using example_codecs_ok by (simp add: codecs_ok_def)
  have "sum_list (map (put_values example_codecs) ?ops) < 2 ^ 32"
    using ok by (simp add: put_values_def deserialize_serialize_set)
  then have "fst (disk_set_run example_codecs example_disk ?ops stores_empty) = fst (mem_set_run example_codecs ?ops stores_empty)"
    by (rule disk_set_refines_memory [OF ok])
  also have "\<dots> = [Found [''a'', ''b''], Missing]" by code_simp
  finally show ?thesis .
qed

text \<open>eventual consistency of last-writer-wins keys across the tiers. If a memory replica
  and a disk replica of a key received the same writes, each in its own order and any number of times,
  and a timestamp identifies its write, both answer a \<open>get\<close> alike.\<close>

theorem lww_replicas_agree:
  assumes "codec_ok (=) (pb_lww pb)"
    and "\<forall>p\<in>set ps. tv_value (deserialize_lww pb p) = f (tv_timestamp (deserialize_lww pb p))" and "f 0 = []"
    and "deserialize_lww pb ` set ps = deserialize_lww pb ` set qs"
  shows "fst (mem_lww_run pb (map (Put k) ps @ [Get k]) stores_empty) =
    fst (disk_lww_run pb de (map (Put k) qs @ [Get k]) stores_empty)"
proof -
  have "tv_value (deserialize_lww pb q) = f (tv_timestamp (deserialize_lww pb q))" if "q \<in> set qs" for q
  proof -
    from that assms(4) obtain p where "p \<in> set ps" "deserialize_lww pb q = deserialize_lww pb p" by (metis imageE image_eqI)
    with assms(2) show ?thesis by simp
  qed
  with assms have "foldl LWWPairLattice_do_merge LWWPairLattice_default (map (deserialize_lww pb) ps) =
      foldl LWWPairLattice_do_merge LWWPairLattice_default (map (deserialize_lww pb) qs)"
    by (intro lww_lattice.convergence [of _ f]) (auto simp: LWWPairLattice_default_def)
  then show ?thesis
    unfolding mem_lww_answers [OF assms(1)] disk_lww_answers [OF assms(1)] spec_puts_get by simp
qed

theorem lww_replicas_agree_witness:
  "fst (disk_lww_run example_codecs example_disk
      (map (Put ''k'') [serialize_ts example_codecs 3 ''old'', serialize_ts example_codecs 5 ''new''] @ [Get ''k'']) stores_empty) =
   fst (mem_lww_run example_codecs
      (map (Put ''k'') [serialize_ts example_codecs 5 ''new'', serialize_ts example_codecs 3 ''old''] @ [Get ''k'']) stores_empty)"
  by (rule lww_replicas_agree [OF example_lww_ok, of _ "\<lambda>t. if t = 3 then ''old'' else if t = 5 then ''new'' else []", symmetric])
     (auto simp: serialize_ts_def deserialize_lww_def example_lww_ok)

text \<open>The in-memory ordered-set serializer has no emptiness test, so a failed lookup creates
  the key: the first \<open>get\<close> of an absent key answers \<open>KEY_DNE\<close>, the second one reports success.\<close>

theorem ordered_set_get_creates_key:
  assumes "map_of (ordered_set_kvs s) k = None"
  shows "snd (fst (MemoryOrderedSet_get pb k NO_ERROR s)) = KEY_DNE \<and>
    snd (fst (MemoryOrderedSet_get pb k NO_ERROR (snd (MemoryOrderedSet_get pb k NO_ERROR s)))) = NO_ERROR"
  using assms
  by (simp add: MemoryOrderedSet_get_def KVStore_get_def MapLattice_at_def MapLattice_contains_def Let_def split_beta umap_has_def)

theorem ordered_set_get_creates_key_witness:
  "snd (fst (MemoryOrderedSet_get example_codecs ''k'' NO_ERROR stores_empty)) = KEY_DNE"
  using ordered_set_get_creates_key [of stores_empty "''k''" example_codecs] by (simp add: stores_empty_def)

text \<open>The disk priority serializer loses the first write of a key unless its priority is
  negative: an empty file parses as a message with priority 0, the write is dropped and a following \<open>get\<close> does
  not find the key. The memory serializer, whose default is \<open>INT_MAX\<close>, keeps the same write.\<close>

theorem disk_priority_drops_first_put:
  assumes "codec_ok (=) (pb_prio pb)"
    and "parse_ok (pb_prio pb) []" and "parsed (pb_prio pb) [] = \<lparr>prv_priority = 0, prv_value = []\<rparr>"
    and "0 \<le> pr" and "pr < 2147483647" and "v \<noteq> []"
  shows "let p = serialize_priority pb \<lparr>pv_priority = pr, pv_value = v\<rparr>
    in snd (fst (DiskPriority_get pb de k NO_ERROR (snd (DiskPriority_put pb de k p stores_empty)))) = KEY_DNE \<and>
       fst (MemoryPriority_get pb k NO_ERROR (snd (MemoryPriority_put pb k p stores_empty))) = (p, NO_ERROR)"
proof -
  let ?p = "serialize_priority pb \<lparr>pv_priority = pr, pv_value = v\<rparr>"
  have d: "deserialize_priority pb ?p = \<lparr>pv_priority = pr, pv_value = v\<rparr>"
    by (rule deserialize_serialize_priority [OF assms(1)])
  have p: "parsed (pb_prio pb) ?p = \<lparr>prv_priority = pr, prv_value = v\<rparr>"
    using assms(1) by (simp add: serialize_priority_def)
  have "snd (fst (DiskPriority_get pb de k NO_ERROR (snd (DiskPriority_put pb de k ?p stores_empty)))) = KEY_DNE"
    using assms(2-4) by (simp add: DiskPriority_put_def DiskPriority_get_def Disk_get_def Let_def p stores_empty_def)
  moreover have "fst (MemoryPriority_get pb k NO_ERROR (snd (MemoryPriority_put pb k ?p stores_empty))) = (?p, NO_ERROR)"
    using assms(5,6)
    by (simp add: MemoryPriority_get_def MemoryPriority_put_def Let_def split_beta d stores_empty_def
        PriorityLattice_do_merge_def PriorityValuePair_default_def KVStore_size_def KVStore_get_def MapLattice_at_def
        MapLattice_contains_def KVStore_put_def)
  ultimately show ?thesis by (simp add: Let_def)
qed

theorem disk_priority_drops_first_put_witness:
  "let p = serialize_priority example_codecs \<lparr>pv_priority = 3, pv_value = ''v''\<rparr>
   in snd (fst (DiskPriority_get example_codecs example_disk ''k'' NO_ERROR
        (snd (DiskPriority_put example_codecs example_disk ''k'' p stores_empty)))) = KEY_DNE \<and>
      fst (MemoryPriority_get example_codecs ''k'' NO_ERROR
        (snd (MemoryPriority_put example_codecs ''k'' p stores_empty))) = (p, NO_ERROR)"
proof (rule disk_priority_drops_first_put)
  show "codec_ok (=) (pb_prio example_codecs)" using example_codecs_ok by (simp add: codecs_ok_def)
  show "parse_ok (pb_prio example_codecs) []" "parsed (pb_prio example_codecs) [] = \<lparr>prv_priority = 0, prv_value = []\<rparr>"
    by (simp_all add: example_codecs_def codec_of_def ser_map_def ser_pair_def ser_rat_def ser_int_def ser_nat_def ser_list_def
        ser_string_def rat_number_collapse)
qed simp_all

end
