(* ===== verification/Kvs_Handlers.thy ===== *)
theory Kvs_Handlers
  imports Hash_Ring Serializers
begin

text \<open>
  The message handlers of a storage worker thread: \<open>src/kvs/*_handler.cpp\<close> and
  \<open>src/kvs/utils.cpp\<close>.

  \<open>kvs_state\<close> extends the cluster state of \<open>Hash_Ring\<close> with everything else the event loop of
  \<open>server.cpp\<close> passes to its handlers by reference; \<open>kvs_env\<close> holds what never changes. A handler maps a message
  and a state to the next state or a fault; the frames it sends are appended to \<open>sent\<close>. Messages arrive
  parsed; logging is left out; the clock is read once per handler (\<open>now\<close>).
\<close>

record PendingRequest =
  pr_type :: RequestType
  pr_lattice_type :: LatticeType
  pr_payload :: string
  pr_addr :: Address
  pr_response_id :: string

record PendingGossip =
  pg_lattice_type :: LatticeType
  pg_payload :: string

record kvs_env =
  kv_env :: env
  kv_disk :: disk_env
  wt :: ServerThread
  routing_ips :: "Address list"
  monitoring_ips :: "Address list"
  management_ip :: Address
  self_join_count :: int
  kv_rand :: "u64 \<Rightarrow> u32 \<times> u64"

record kvs_state = ring_ctx +
  stored_key_map :: "(Key, KeyProperty) umap"
  pending_requests :: "(Key, PendingRequest list) umap"
  pending_gossip :: "(Key, PendingGossip list) umap"
  key_access_tracker :: "(Key, u64 list) umap"
  access_count :: u32
  local_changeset :: "Key uset"
  join_gossip_map :: "(Address, Key uset) umap"
  join_remove_set :: "Key uset"
  extant_caches :: "Address uset"
  cache_ip_to_keys :: "(Address, Key uset) umap"
  key_to_cache_ips :: "(Key, Address uset) umap"
  store :: stores
  kvs_rid :: u32
  kvs_rand_state :: u64

definition KeyProperty_default :: KeyProperty where
  "KeyProperty_default = \<lparr>kp_size = 0, kp_lattice = NONE\<rparr>"

abbreviation kv_cfg :: "kvs_env \<Rightarrow> config" where
  "kv_cfg ke \<equiv> cfg (kv_env ke)"

abbreviation kv_pb :: "kvs_env \<Rightarrow> codecs" where
  "kv_pb ke \<equiv> pb (kv_env ke)"

section \<open>\<open>utils.cpp\<close>\<close>

definition process_get :: "kvs_env \<Rightarrow> Key \<Rightarrow> Serializer option \<Rightarrow> kvs_state \<Rightarrow> ((string \<times> AnnaError) \<times> kvs_state) res" where
  "process_get ke key serializer st =
     (case serializer of
        None \<Rightarrow> Inl Null_serializer
      | Some sr \<Rightarrow> (case Serializer_get (kv_pb ke) (kv_disk ke) sr key NO_ERROR (store st) of
            (res, s) \<Rightarrow> Inr (res, st\<lparr>store := s\<rparr>)))"

definition process_put :: "kvs_env \<Rightarrow> Key \<Rightarrow> LatticeType \<Rightarrow> string \<Rightarrow> Serializer option \<Rightarrow> kvs_state \<Rightarrow> kvs_state res" where
  "process_put ke key lattice_type payload serializer st =
     (case serializer of
        None \<Rightarrow> Inl Null_serializer
      | Some sr \<Rightarrow> (case Serializer_put (kv_pb ke) (kv_disk ke) sr key payload (store st) of
            (n, s) \<Rightarrow> Inr (st\<lparr>store := s,
                             stored_key_map := umap_put key \<lparr>kp_size = n, kp_lattice = lattice_type\<rparr> (stored_key_map st)\<rparr>)))"

definition self_serializers :: "kvs_env \<Rightarrow> LatticeType \<Rightarrow> Serializer option" where
  "self_serializers ke = serializers (kSelfTier (kv_cfg ke))"

type_synonym AddressKeysetMap = "(Address, Key uset) umap"

definition gossip_key ::
  "kvs_env \<Rightarrow> Address \<Rightarrow> Key \<Rightarrow> (Address, KeyRequest) umap \<times> kvs_state \<Rightarrow> ((Address, KeyRequest) umap \<times> kvs_state) res" where
  "gossip_key ke address key = (\<lambda>(gossip_map, st).
     case map_of (stored_key_map st) key of
       None \<Rightarrow> Inr (gossip_map, st)
     | Some prop \<Rightarrow>
         ebind (process_get ke key (self_serializers ke (kp_lattice prop)) st) (\<lambda>((payload, error), st1).
           if error = NO_ERROR
           then Inr (umap_mod KeyRequest_default address (prepare_put_tuple key (kp_lattice prop) payload) gossip_map, st1)
           else Inr (gossip_map, st1)))"

definition send_all :: "(Address, KeyRequest) umap \<Rightarrow> 'a ring_ctx_scheme \<Rightarrow> 'a ring_ctx_scheme" where
  "send_all gossip_map st = fold (\<lambda>(address, request). send address (Request request)) gossip_map st"

definition send_gossip :: "kvs_env \<Rightarrow> AddressKeysetMap \<Rightarrow> kvs_state \<Rightarrow> kvs_state res" where
  "send_gossip ke addr_keyset_map st =
     ebind (efold (\<lambda>(address, keys) (gossip_map, st).
              efold (gossip_key ke address) keys
                (umap_mod KeyRequest_default address (\<lambda>r. r\<lparr>kr_type := PUT\<rparr>) gossip_map, st))
            addr_keyset_map ([], st))
       (\<lambda>(gossip_map, st1). Inr (send_all gossip_map st1))"

definition is_primary_replica :: "kvs_env \<Rightarrow> Key \<Rightarrow> ServerThread \<Rightarrow> kvs_state \<Rightarrow> bool \<times> kvs_state" where
  "is_primary_replica ke key th st =
     (let self = kSelfTier (kv_cfg ke); en = kv_env ke;
          st1 = touch_global_rep key self st
      in if global_rep st key self = 0 then (False, st1)
         else let upper = filter (\<lambda>tier. tier_value tier < tier_value self) kAllTiers;
                  st2 = (if tier_value self > tier_value MEMORY then fold (touch_global_rep key) upper st1 else st1);
                  has_upper_tier_replica = list_ex (\<lambda>tier. global_rep st1 key tier > 0) upper
              in if tier_value self > tier_value MEMORY \<and> has_upper_tier_replica then (False, st2)
                 else let st3 = touch_global self st2
                      in (case chm_find (GlobalHasher_key en key) (nodes (global_ring st3 self)) of
                            None \<Rightarrow> (False, st3)
                          | Some g \<Rightarrow>
                              if private_ip th = private_ip (snd (nodes (global_ring st3 self) ! g))
                              then let st4 = touch_local self st3
                                   in (case chm_find (LocalHasher_key en key) (nodes (local_ring st4 self)) of
                                         None \<Rightarrow> (False, st4)
                                       | Some l \<Rightarrow> (tid th = tid (snd (nodes (local_ring st4 self) ! l)), st4))
                              else (False, st3)))"

section \<open>\<open>user_request_handler.cpp\<close>\<close>

definition responsible ::
  "kvs_env \<Rightarrow> Key \<Rightarrow> Tier list \<Rightarrow> kvs_state \<Rightarrow> (ServerThread list \<times> bool \<times> kvs_state) res" where
  "responsible ke key tiers st =
     get_responsible_threads (kv_env ke) (replication_response_connect_address (wt ke)) key (is_metadata key) tiers st"

definition ask_replication :: "kvs_env \<Rightarrow> Key \<Rightarrow> kvs_state \<Rightarrow> kvs_state res" where
  "ask_replication ke key st =
     issue_replication_factor_request (kv_env ke) (replication_response_connect_address (wt ke)) key
       (global_ring st MEMORY) (local_ring st MEMORY) (touch_rings MEMORY st)"

definition push_pending_request :: "Key \<Rightarrow> PendingRequest \<Rightarrow> kvs_state \<Rightarrow> kvs_state" where
  "push_pending_request key r st = st\<lparr>pending_requests := umap_mod [] key (\<lambda>rs. rs @ [r]) (pending_requests st)\<rparr>"

definition push_pending_gossip :: "Key \<Rightarrow> PendingGossip \<Rightarrow> kvs_state \<Rightarrow> kvs_state" where
  "push_pending_gossip key g st = st\<lparr>pending_gossip := umap_mod [] key (\<lambda>gs. gs @ [g]) (pending_gossip st)\<rparr>"

definition track_access :: "u64 \<Rightarrow> Key \<Rightarrow> kvs_state \<Rightarrow> kvs_state" where
  "track_access now key st =
     st\<lparr>key_access_tracker := umap_mod [] key (insort now) (key_access_tracker st), access_count := access_count st + 1\<rparr>"

definition type_conflict :: "kvs_state \<Rightarrow> Key \<Rightarrow> LatticeType \<Rightarrow> bool" where
  "type_conflict st key ty \<longleftrightarrow>
     (case map_of (stored_key_map st) key of
        None \<Rightarrow> False
      | Some prop \<Rightarrow> kp_lattice prop \<noteq> NONE \<and> kp_lattice prop \<noteq> ty)"

definition answer_get :: "kvs_env \<Rightarrow> KeyTuple \<Rightarrow> kvs_state \<Rightarrow> (KeyTuple \<times> kvs_state) res" where
  "answer_get ke tp st =
     (case map_of (stored_key_map st) (kt_key tp) of
        None \<Rightarrow> Inr (tp\<lparr>kt_error := KEY_DNE\<rparr>, st)
      | Some prop \<Rightarrow>
          if kp_lattice prop = NONE then Inr (tp\<lparr>kt_error := KEY_DNE\<rparr>, st)
          else ebind (process_get ke (kt_key tp) (self_serializers ke (kp_lattice prop)) st)
                 (\<lambda>((payload, error), st1).
                    Inr (tp\<lparr>kt_lattice_type := kp_lattice prop, kt_payload := payload, kt_error := error\<rparr>, st1)))"

definition answer_put :: "kvs_env \<Rightarrow> LatticeType \<Rightarrow> string \<Rightarrow> KeyTuple \<Rightarrow> kvs_state \<Rightarrow> (KeyTuple \<times> kvs_state) res" where
  "answer_put ke ty payload tp st =
     (if ty = NONE then Inr (tp, st)
      else if type_conflict st (kt_key tp) ty then Inr (tp, st)
      else ebind (process_put ke (kt_key tp) ty payload (self_serializers ke ty) st)
             (\<lambda>st1. Inr (tp\<lparr>kt_lattice_type := ty\<rparr>,
                         st1\<lparr>local_changeset := uset_insert (kt_key tp) (local_changeset st1)\<rparr>)))"

definition user_request_tuple ::
  "kvs_env \<Rightarrow> u64 \<Rightarrow> KeyRequest \<Rightarrow> KeyTuple \<Rightarrow> KeyResponse \<times> kvs_state \<Rightarrow> (KeyResponse \<times> kvs_state) res" where
  "user_request_tuple ke now request tuple = (\<lambda>(response, st).
     let key = kt_key tuple;
         pend = \<lparr>pr_type = kr_type request, pr_lattice_type = kt_lattice_type tuple, pr_payload = kt_payload tuple,
                 pr_addr = kr_response_address request, pr_response_id = kr_request_id request\<rparr>
     in ebind (responsible ke key (kSelfTierIdVector (kv_cfg ke)) st) (\<lambda>(threads, succeed, st1).
          if succeed
          then if \<not> sset_has threads (wt ke)
               then if is_metadata key
                    then Inr (response\<lparr>kp_tuples := kp_tuples response @
                                [KeyTuple_default\<lparr>kt_key := key, kt_lattice_type := kt_lattice_type tuple,
                                                  kt_error := WRONG_THREAD\<rparr>]\<rparr>, st1)
                    else ebind (ask_replication ke key st1) (\<lambda>st2. Inr (response, push_pending_request key pend st2))
               else let tp = KeyTuple_default\<lparr>kt_key := key\<rparr>
                    in ebind (if kr_type request = GET then answer_get ke tp st1
                              else if kr_type request = PUT
                              then answer_put ke (kt_lattice_type tuple) (kt_payload tuple) tp st1
                              else Inr (tp, st1)) (\<lambda>(tp1, st2).
                         let tp2 = (if kt_address_cache_size tuple > 0 \<and>
                                       unat (kt_address_cache_size tuple) \<noteq> length threads
                                    then tp1\<lparr>kt_invalidate := True\<rparr> else tp1)
                         in Inr (response\<lparr>kp_tuples := kp_tuples response @ [tp2]\<rparr>, track_access now key st2))
          else Inr (response, push_pending_request key pend st1)))"

definition user_request_handler :: "kvs_env \<Rightarrow> u64 \<Rightarrow> KeyRequest \<Rightarrow> kvs_state \<Rightarrow> kvs_state res" where
  "user_request_handler ke now request st =
     ebind (efold (user_request_tuple ke now request) (kr_tuples request)
              (KeyResponse_default\<lparr>kp_response_id := kr_request_id request, kp_type := kr_type request\<rparr>, st))
       (\<lambda>(response, st1).
          if kp_tuples response \<noteq> [] \<and> kr_response_address request \<noteq> []
          then Inr (send (kr_response_address request) (Response response) st1)
          else Inr st1)"

section \<open>\<open>gossip_handler.cpp\<close>\<close>

definition gossip_tuple ::
  "kvs_env \<Rightarrow> KeyTuple \<Rightarrow> (Address, KeyRequest) umap \<times> kvs_state \<Rightarrow> ((Address, KeyRequest) umap \<times> kvs_state) res" where
  "gossip_tuple ke tuple = (\<lambda>(gossip_map, st).
     let key = kt_key tuple; ty = kt_lattice_type tuple;
         pend = \<lparr>pg_lattice_type = ty, pg_payload = kt_payload tuple\<rparr>
     in ebind (responsible ke key (kSelfTierIdVector (kv_cfg ke)) st) (\<lambda>(threads, succeed, st1).
          if succeed
          then if sset_has threads (wt ke)
               then (case map_of (stored_key_map st1) key of
                       Some prop \<Rightarrow>
                         if kp_lattice prop \<noteq> ty then Inr (gossip_map, st1)
                         else ebind (process_put ke key ty (kt_payload tuple) (self_serializers ke ty) st1)
                                (\<lambda>st2. Inr (gossip_map, st2))
                     | None \<Rightarrow> ebind (process_put ke key ty (kt_payload tuple) (self_serializers ke ty) st1)
                                (\<lambda>st2. Inr (gossip_map, st2)))
               else if is_metadata key
               then Inr (fold (\<lambda>thread m.
                           let address = gossip_connect_address thread;
                               m1 = (if umap_has m address then m
                                     else umap_put address (KeyRequest_default\<lparr>kr_type := PUT\<rparr>) m)
                           in umap_mod KeyRequest_default address (prepare_put_tuple key ty (kt_payload tuple)) m1)
                         threads gossip_map, st1)
               else ebind (ask_replication ke key st1) (\<lambda>st2. Inr (gossip_map, push_pending_gossip key pend st2))
          else Inr (gossip_map, push_pending_gossip key pend st1)))"

definition gossip_handler :: "kvs_env \<Rightarrow> KeyRequest \<Rightarrow> kvs_state \<Rightarrow> kvs_state res" where
  "gossip_handler ke gossip st =
     ebind (efold (gossip_tuple ke) (kr_tuples gossip) ([], st))
       (\<lambda>(gossip_map, st1). Inr (send_all gossip_map st1))"

section \<open>Caches: \<open>cache_ip_response_handler.cpp\<close>, \<open>management_node_response_handler.cpp\<close>\<close>

definition cache_ip_response_tuple :: "kvs_env \<Rightarrow> KeyTuple \<Rightarrow> kvs_state \<Rightarrow> kvs_state" where
  "cache_ip_response_tuple ke tuple st =
     (if kt_error tuple = NO_ERROR
      then let cache_ip = get_key_from_user_metadata (kt_key tuple);
               lww_value = parsed (pb_lww (kv_pb ke)) (kt_payload tuple);
               key_set = parsed (pb_strset (kv_pb ke)) (lv_value lww_value);
               deleted_keys = fold uset_erase key_set (umap_get [] (cache_ip_to_keys st) cache_ip);
               k2c = fold (\<lambda>key m. umap_mod [] key (uset_erase cache_ip) m) deleted_keys (key_to_cache_ips st);
               c2k = umap_put cache_ip [] (cache_ip_to_keys st);
               (c2k', k2c') = fold (\<lambda>cache_key (c, k).
                    (umap_mod [] cache_ip (uset_insert cache_key) c, umap_mod [] cache_key (uset_insert cache_ip) k))
                  key_set (c2k, k2c)
           in st\<lparr>cache_ip_to_keys := c2k', key_to_cache_ips := k2c'\<rparr>
      else st)"

definition cache_ip_response_handler :: "kvs_env \<Rightarrow> KeyResponse \<Rightarrow> kvs_state \<Rightarrow> kvs_state" where
  "cache_ip_response_handler ke response st = fold (cache_ip_response_tuple ke) (kp_tuples response) st"

definition management_node_response_handler :: "kvs_env \<Rightarrow> StringSet \<Rightarrow> kvs_state \<Rightarrow> kvs_state res" where
  "management_node_response_handler ke func_nodes st =
     (let deleted_caches = fold uset_erase func_nodes (extant_caches st);
          extant = fold uset_insert func_nodes [];
          st1 = st\<lparr>extant_caches := extant,
                   cache_ip_to_keys := fold umap_erase deleted_caches (cache_ip_to_keys st),
                   key_to_cache_ips := map (\<lambda>(k, ips). (k, fold uset_erase deleted_caches ips)) (key_to_cache_ips st)\<rparr>
      in ebind (efold (\<lambda>cacheip (acc, st).
                  ebind (prepare_metadata_get_request (kv_rand ke) (kv_env ke) (get_user_metadata_key cacheip)
                           (global_ring st MEMORY) (local_ring st MEMORY) (cache_ip_response_connect_address (wt ke)) acc)
                    (\<lambda>acc'. Inr (acc', touch_rings MEMORY st)))
                extant (\<lparr>addr_request_map = [], rid = kvs_rid st1, rand_state = kvs_rand_state st1\<rparr>, st1))
           (\<lambda>(acc, st2). Inr (send_all (addr_request_map acc)
                (st2\<lparr>kvs_rid := rid acc, kvs_rand_state := rand_state acc\<rparr>))))"

section \<open>Membership: \<open>node_depart_handler.cpp\<close>, \<open>node_join_handler.cpp\<close>\<close>

definition worker_tids :: "config \<Rightarrow> u32 list" where
  "worker_tids c = map of_nat [1..<unat (kThreadNum c)]"

text \<open>Thread 0 passes a message on to the other worker threads of its machine.\<close>

definition tell_workers :: "kvs_env \<Rightarrow> (ServerThread \<Rightarrow> Address) \<Rightarrow> frame \<Rightarrow> kvs_state \<Rightarrow> kvs_state" where
  "tell_workers ke address_of f st =
     fold (\<lambda>t. send (address_of (mk_ServerThread3 (public_ip (wt ke)) (private_ip (wt ke)) t)) f)
       (worker_tids (kv_cfg ke)) st"

definition mod_global_ring :: "Tier \<Rightarrow> (GlobalHashRing \<Rightarrow> GlobalHashRing) \<Rightarrow> 'a ring_ctx_scheme \<Rightarrow> 'a ring_ctx_scheme" where
  "mod_global_ring t f c = c\<lparr>global_hash_rings := umap_mod HashRing_empty t f (global_hash_rings c)\<rparr>"

definition node_depart_handler :: "kvs_env \<Rightarrow> string \<Rightarrow> kvs_state \<Rightarrow> kvs_state res" where
  "node_depart_handler ke serialized st =
     (let v = split_string serialized (CHR '':'')
      in ebind (ebind (vec_at v 0) Tier_Parse) (\<lambda>tier.
         ebind (vec_at v 1) (\<lambda>departing_public_ip.
         ebind (vec_at v 2) (\<lambda>departing_private_ip.
           let st1 = mod_global_ring tier (global_remove (kv_env ke) departing_public_ip departing_private_ip 0) st
           in Inr (if tid (wt ke) = 0 then tell_workers ke node_depart_connect_address (Text serialized) st1 else st1)))))"

definition add_keyset :: "Key \<Rightarrow> ServerThread list \<Rightarrow> AddressKeysetMap \<Rightarrow> AddressKeysetMap" where
  "add_keyset key threads m = fold (\<lambda>thread. umap_mod [] (gossip_connect_address thread) (uset_insert key)) threads m"

definition node_join_key :: "kvs_env \<Rightarrow> Address \<Rightarrow> int \<Rightarrow> Key \<Rightarrow> kvs_state \<Rightarrow> kvs_state res" where
  "node_join_key ke new_private_ip join_count key st =
     ebind (responsible ke key (kSelfTierIdVector (kv_cfg ke)) st) (\<lambda>(threads, succeed, st1).
       if succeed
       then if join_count > 0
            then Inr (st1\<lparr>join_gossip_map :=
                      add_keyset key (filter (\<lambda>thread. private_ip thread = new_private_ip) threads) (join_gossip_map st1)\<rparr>)
            else if join_count = 0 \<and> \<not> sset_has threads (wt ke)
            then Inr (st1\<lparr>join_remove_set := uset_insert key (join_remove_set st1),
                          join_gossip_map := add_keyset key threads (join_gossip_map st1)\<rparr>)
            else Inr st1
       else Inr st1)"

definition join_message :: "Tier \<Rightarrow> Address \<Rightarrow> Address \<Rightarrow> int \<Rightarrow> string" where
  "join_message tier pub priv count = Tier_Name tier @ '':'' @ pub @ '':'' @ priv @ '':'' @ int_to_string count"

definition node_join_handler :: "kvs_env \<Rightarrow> string \<Rightarrow> kvs_state \<Rightarrow> kvs_state res" where
  "node_join_handler ke serialized st =
     (let v = split_string serialized (CHR '':''); self = wt ke
      in ebind (ebind (vec_at v 0) Tier_Parse) (\<lambda>tier.
         ebind (vec_at v 1) (\<lambda>new_public_ip.
         ebind (vec_at v 2) (\<lambda>new_private_ip.
         ebind (ebind (vec_at v 3) stoi) (\<lambda>join_count.
           let (inserted, ring) = global_insert (kv_env ke) new_public_ip new_private_ip join_count 0 (global_ring st tier);
               st1 = mod_global_ring tier (\<lambda>_. ring) st
           in if \<not> inserted then Inr st1
              else let st2 = (if tid self = 0
                     then tell_workers ke node_join_connect_address (Text serialized)
                            (fold (\<lambda>th. send (node_join_connect_address th) (Text serialized))
                               (filter (\<lambda>th. private_ip th \<noteq> private_ip self \<and> private_ip th \<noteq> new_private_ip)
                                  (concat (map (\<lambda>(t, r). unique_servers r) (global_hash_rings st1))))
                               (send (node_join_connect_address (mk_ServerThread3 new_public_ip new_private_ip 0))
                                  (Text (join_message (kSelfTier (kv_cfg ke)) (public_ip self) (private_ip self) (self_join_count ke)))
                                  st1))
                     else st1)
                   in if tier = kSelfTier (kv_cfg ke)
                      then efold (node_join_key ke new_private_ip join_count) (map fst (stored_key_map st2)) st2
                      else Inr st2)))))"

section \<open>\<open>replication_change_handler.cpp\<close>\<close>

definition update_replication :: "ReplicationFactor \<Rightarrow> 'a ring_ctx_scheme \<Rightarrow> 'a ring_ctx_scheme" where
  "update_replication key_rep c =
     c\<lparr>key_replication_map :=
         fold (\<lambda>(t, n). set_local (rf_key key_rep) t n) (rf_local key_rep)
           (fold (\<lambda>(t, n). set_global (rf_key key_rep) t n) (rf_global key_rep) (key_replication_map c))\<rparr>"

text \<open>The comparison of each new factor with the one in force when it is reached.\<close>

definition update_replication_dec :: "ReplicationFactor \<Rightarrow> kvs_state \<Rightarrow> bool \<times> kvs_state" where
  "update_replication_dec key_rep st =
     (let key = rf_key key_rep;
          (dec1, st1) = fold (\<lambda>(t, n) (dec, st). (dec \<or> n < global_rep st key t,
                st\<lparr>key_replication_map := set_global key t n (key_replication_map st)\<rparr>)) (rf_global key_rep) (False, st)
      in fold (\<lambda>(t, n) (dec, st). (dec \<or> n < local_rep st key t,
                st\<lparr>key_replication_map := set_local key t n (key_replication_map st)\<rparr>)) (rf_local key_rep) (dec1, st1))"

definition replication_change_key ::
  "kvs_env \<Rightarrow> ReplicationFactor \<Rightarrow> AddressKeysetMap \<times> Key uset \<times> kvs_state \<Rightarrow> (AddressKeysetMap \<times> Key uset \<times> kvs_state) res" where
  "replication_change_key ke key_rep = (\<lambda>(addr_keyset_map, remove_set, st).
     let key = rf_key key_rep
     in if umap_has (stored_key_map st) key
        then ebind (responsible ke key kAllTiers st) (\<lambda>(orig_threads, succeed, st1).
               if succeed
               then let (decrement, st2) = update_replication_dec key_rep st1
                    in ebind (responsible ke key kAllTiers st2) (\<lambda>(threads, succeed, st3).
                         if succeed
                         then let gone = \<not> sset_has threads (wt ke);
                                  remove_set' = (if gone then uset_insert key remove_set else remove_set);
                                  m1 = (if gone then add_keyset key threads addr_keyset_map else addr_keyset_map)
                              in if decrement then Inr (m1, remove_set', st3)
                                 else ebind (vec_at orig_threads 0) (\<lambda>first.
                                        if thread_id_string first = thread_id_string (wt ke)
                                        then Inr (add_keyset key (filter (\<lambda>th. \<not> sset_has orig_threads th) threads) m1,
                                                  remove_set', st3)
                                        else Inr (m1, remove_set', st3))
                         else Inr (addr_keyset_map, remove_set, st3))
               else Inr (addr_keyset_map, remove_set, update_replication key_rep st1))
        else Inr (addr_keyset_map, remove_set, update_replication key_rep st))"

definition remove_key :: "kvs_env \<Rightarrow> Key \<Rightarrow> kvs_state \<Rightarrow> kvs_state res" where
  "remove_key ke key st =
     (case self_serializers ke (kp_lattice (umap_get KeyProperty_default (stored_key_map st) key)) of
        None \<Rightarrow> Inl Null_serializer
      | Some sr \<Rightarrow> Inr (st\<lparr>store := Serializer_remove (kv_disk ke) sr key (store st),
                           stored_key_map := umap_erase key (stored_key_map st)\<rparr>))"

definition replication_change_handler :: "kvs_env \<Rightarrow> ReplicationFactorUpdate \<Rightarrow> kvs_state \<Rightarrow> kvs_state res" where
  "replication_change_handler ke rep_change st =
     (let st1 = (if tid (wt ke) = 0
                 then tell_workers ke replication_change_connect_address (RepUpdate rep_change) st else st)
      in ebind (efold (replication_change_key ke) rep_change ([], [], st1)) (\<lambda>(addr_keyset_map, remove_set, st2).
         ebind (send_gossip ke addr_keyset_map st2) (\<lambda>st3.
           efold (\<lambda>key st. ebind (remove_key ke key st)
                    (\<lambda>st'. Inr (st'\<lparr>local_changeset := uset_erase key (local_changeset st')\<rparr>)))
             remove_set st3)))"

section \<open>\<open>replication_response_handler.cpp\<close>\<close>

definition pending_response :: "PendingRequest \<Rightarrow> KeyTuple \<Rightarrow> KeyResponse" where
  "pending_response request tp =
     KeyResponse_default\<lparr>kp_type := pr_type request, kp_response_id := pr_response_id request, kp_tuples := [tp]\<rparr>"

definition serve_pending_request :: "kvs_env \<Rightarrow> u64 \<Rightarrow> Key \<Rightarrow> bool \<Rightarrow> PendingRequest \<Rightarrow> kvs_state \<Rightarrow> kvs_state res" where
  "serve_pending_request ke now key am_responsible request st =
     (let tp = KeyTuple_default\<lparr>kt_key := key\<rparr>
      in if \<not> am_responsible \<and> pr_addr request \<noteq> []
         then Inr (send (pr_addr request) (Response (pending_response request (tp\<lparr>kt_error := WRONG_THREAD\<rparr>))) st)
         else if am_responsible \<and> pr_addr request = []
         then if pr_type request = PUT
              then if pr_lattice_type request = NONE \<or> type_conflict st key (pr_lattice_type request) then Inr st
                   else ebind (process_put ke key (pr_lattice_type request) (pr_payload request)
                                 (self_serializers ke (pr_lattice_type request)) st)
                          (\<lambda>st1. Inr ((track_access now key st1)\<lparr>local_changeset := uset_insert key (local_changeset st1)\<rparr>))
              else Inr st
         else if am_responsible \<and> pr_addr request \<noteq> []
         then ebind (if pr_type request = GET then answer_get ke tp st
                     else answer_put ke (pr_lattice_type request) (pr_payload request) tp st) (\<lambda>(tp1, st1).
                Inr (send (pr_addr request) (Response (pending_response request tp1)) (track_access now key st1)))
         else Inr st)"

definition serve_pending_requests :: "kvs_env \<Rightarrow> u64 \<Rightarrow> Key \<Rightarrow> kvs_state \<Rightarrow> kvs_state res" where
  "serve_pending_requests ke now key st =
     (case map_of (pending_requests st) key of
        None \<Rightarrow> Inr st
      | Some requests \<Rightarrow>
          ebind (responsible ke key (kSelfTierIdVector (kv_cfg ke)) st) (\<lambda>(threads, succeed, st1).
          ebind (if succeed then efold (serve_pending_request ke now key (sset_has threads (wt ke))) requests st1
                 else Inr st1)
            (\<lambda>st2. Inr (st2\<lparr>pending_requests := umap_erase key (pending_requests st2)\<rparr>))))"

definition apply_pending_gossip :: "kvs_env \<Rightarrow> Key \<Rightarrow> PendingGossip \<Rightarrow> kvs_state \<Rightarrow> kvs_state res" where
  "apply_pending_gossip ke key gossip st =
     (if type_conflict st key (pg_lattice_type gossip) then Inr st
      else process_put ke key (pg_lattice_type gossip) (pg_payload gossip) (self_serializers ke (pg_lattice_type gossip)) st)"

definition serve_pending_gossip :: "kvs_env \<Rightarrow> Key \<Rightarrow> kvs_state \<Rightarrow> kvs_state res" where
  "serve_pending_gossip ke key st =
     (case map_of (pending_gossip st) key of
        None \<Rightarrow> Inr st
      | Some gossips \<Rightarrow>
          ebind (responsible ke key (kSelfTierIdVector (kv_cfg ke)) st) (\<lambda>(threads, succeed, st1).
          ebind (if succeed
                 then if sset_has threads (wt ke)
                      then efold (apply_pending_gossip ke key) gossips st1
                      else let gossip_map = fold (\<lambda>thread m.
                                 umap_mod KeyRequest_default (gossip_connect_address thread)
                                   (\<lambda>r. fold (\<lambda>g. prepare_put_tuple key (pg_lattice_type g) (pg_payload g)) gossips
                                          (r\<lparr>kr_type := PUT\<rparr>)) m) threads []
                           in Inr (send_all gossip_map st1)
                 else Inr st1)
            (\<lambda>st2. Inr (st2\<lparr>pending_gossip := umap_erase key (pending_gossip st2)\<rparr>))))"

text \<open>\<open>response.tuples(0)\<close> of an empty response is out of range.\<close>

definition replication_response_handler :: "kvs_env \<Rightarrow> u64 \<Rightarrow> KeyResponse \<Rightarrow> kvs_state \<Rightarrow> kvs_state res" where
  "replication_response_handler ke now response st =
     ebind (vec_at (kp_tuples response) 0) (\<lambda>tuple.
       let key = get_key_from_metadata (kt_key tuple);
           serve = (\<lambda>st1. ebind (serve_pending_requests ke now key st1) (serve_pending_gossip ke key))
       in if kt_error tuple = NO_ERROR
          then let lww_value = parsed (pb_lww (kv_pb ke)) (kt_payload tuple);
                   rep_data = parsed (pb_rep (kv_pb ke)) (lv_value lww_value)
               in serve (update_replication (rep_data\<lparr>rf_key := key\<rparr>) st)
          else if kt_error tuple = KEY_DNE
          then serve (st\<lparr>key_replication_map := init_replication (kv_cfg ke) key (key_replication_map st)\<rparr>)
          else if kt_error tuple = WRONG_THREAD then ask_replication ke key st
          else Inr st)"

section \<open>\<open>self_depart_handler.cpp\<close>\<close>

definition depart_key :: "kvs_env \<Rightarrow> Key \<Rightarrow> AddressKeysetMap \<times> kvs_state \<Rightarrow> (AddressKeysetMap \<times> kvs_state) res" where
  "depart_key ke key = (\<lambda>(m, st).
     ebind (responsible ke key kAllTiers st) (\<lambda>(threads, succeed, st1).
       Inr (if succeed then add_keyset key threads m else m, st1)))"

definition depart_message :: "Tier \<Rightarrow> Address \<Rightarrow> Address \<Rightarrow> string" where
  "depart_message tier pub priv = Tier_Name tier @ '':'' @ pub @ '':'' @ priv"

definition self_depart_handler :: "kvs_env \<Rightarrow> string \<Rightarrow> kvs_state \<Rightarrow> kvs_state res" where
  "self_depart_handler ke serialized st =
     (let self = wt ke; tier = kSelfTier (kv_cfg ke);
          st1 = mod_global_ring tier (global_remove (kv_env ke) (public_ip self) (private_ip self) 0) st;
          msg = depart_message tier (public_ip self) (private_ip self);
          st2 = (if tid self = 0
                 then tell_workers ke self_depart_connect_address (Text serialized)
                        (fold (\<lambda>address. send (mt_notify_connect_address address) (Text (''depart:'' @ msg))) (monitoring_ips ke)
                          (fold (\<lambda>address. send (rt_notify_connect_address (mk_RoutingThread address 0)) (Text (''depart:'' @ msg)))
                             (routing_ips ke)
                             (fold (\<lambda>th. send (node_depart_connect_address th) (Text msg))
                                (concat (map (\<lambda>(t, r). unique_servers r) (global_hash_rings st1))) st1)))
                 else st1)
      in ebind (efold (depart_key ke) (map fst (stored_key_map st2)) ([], st2)) (\<lambda>(m, st3).
         ebind (send_gossip ke m st3) (\<lambda>st4.
           Inr (send serialized (Text (public_ip self @ ''_'' @ private_ip self @ ''_'' @ Tier_Name tier)) st4))))"

section \<open>Asking the ring\<close>

lemma more_fields:
  assumes "ring_ctx.more d = ring_ctx.more (c :: kvs_state)"
  shows "stored_key_map d = stored_key_map c" "pending_requests d = pending_requests c"
    "pending_gossip d = pending_gossip c" "key_access_tracker d = key_access_tracker c" "access_count d = access_count c"
    "local_changeset d = local_changeset c" "join_gossip_map d = join_gossip_map c" "join_remove_set d = join_remove_set c"
    "extant_caches d = extant_caches c" "cache_ip_to_keys d = cache_ip_to_keys c" "key_to_cache_ips d = key_to_cache_ips c"
    "store d = store c" "kvs_rid d = kvs_rid c" "kvs_rand_state d = kvs_rand_state c"
  using assms by (cases c; cases d; simp)+

text \<open>The threads responsible for a key as the state tells them, when it can tell.\<close>

definition known_owners :: "kvs_env \<Rightarrow> kvs_state \<Rightarrow> Key \<Rightarrow> Tier list \<Rightarrow> ServerThread list \<Rightarrow> bool" where
  "known_owners ke st key tiers ts \<longleftrightarrow>
     (if is_metadata key
      then get_responsible_threads_metadata (kv_env ke) key (global_ring st MEMORY) (local_ring st MEMORY) = Inr ts
      else umap_has (key_replication_map st) key \<and> owners (kv_env ke) st key tiers = Inr ts)"

lemma owners_same: "ctx_same c d \<Longrightarrow> owners en d key tiers = owners en c key tiers"
  by (simp add: owners_def ctx_same_def)

lemma known_owners_same: "ctx_same st st' \<Longrightarrow> known_owners ke st' key tiers ts = known_owners ke st key tiers ts"
  by (simp add: known_owners_def owners_same) (simp add: ctx_same_def)

lemma responsible_known:
  assumes "known_owners ke st key tiers ts"
  shows "\<exists>st'. responsible ke key tiers st = Inr (ts, True, st') \<and> ctx_same st st'"
proof (cases "is_metadata key")
  case True
  then show ?thesis
    using assms get_responsible_threads_metadata_ok [of st "kv_env ke" "replication_response_connect_address (wt ke)" key tiers]
    by (auto simp: responsible_def known_owners_def)
next
  case False
  then show ?thesis
    using assms get_responsible_threads_known [of st key "kv_env ke" "replication_response_connect_address (wt ke)" tiers]
    by (auto simp: responsible_def known_owners_def)
qed

text \<open>What an answered question leaves of the state: everything but the ring context, which
  reads the same or has one more request in flight.\<close>

lemma responsible_cases:
  assumes "responsible ke key tiers st = Inr (ts, ok, st')"
  shows "ok \<and> known_owners ke st key tiers ts \<and> ctx_same st st' \<or>
    \<not> ok \<and> ts = [] \<and> \<not> is_metadata key \<and> \<not> umap_has (key_replication_map st) key \<and>
      ctx_asked (replication_response_connect_address (wt ke)) key st st'"
proof (cases "is_metadata key")
  case True
  from get_responsible_threads_metadata_ok [of st "kv_env ke" "replication_response_connect_address (wt ke)" key tiers]
  obtain c' where c': "ctx_same st c'" "responsible ke key tiers st =
      ebind (get_responsible_threads_metadata (kv_env ke) key (global_ring st MEMORY) (local_ring st MEMORY)) (\<lambda>ts. Inr (ts, True, c'))"
    using True by (auto simp: responsible_def)
  from assms [unfolded c'(2)] c'(1) True show ?thesis
    by (auto simp: known_owners_def ebind_Inr_iff)
next
  case False
  show ?thesis
  proof (cases "umap_has (key_replication_map st) key")
    case True
    from get_responsible_threads_known [OF True, of "kv_env ke" "replication_response_connect_address (wt ke)" tiers]
    obtain c' where c': "ctx_same st c'" "responsible ke key tiers st = ebind (owners (kv_env ke) st key tiers) (\<lambda>ts. Inr (ts, True, c'))"
      using False by (auto simp: responsible_def)
    from assms [unfolded c'(2)] c'(1) True False show ?thesis
      by (auto simp: known_owners_def ebind_Inr_iff)
  next
    case unknown: False
    have "get_responsible_threads (kv_env ke) (replication_response_connect_address (wt ke)) key False tiers st = Inr (ts, ok, st')"
      using assms False by (simp add: responsible_def)
    from get_responsible_threads_unknown [OF unknown this] unknown False show ?thesis by simp
  qed
qed

lemma responsible_more: "responsible ke key tiers st = Inr (ts, ok, st') \<Longrightarrow> ring_ctx.more st' = ring_ctx.more st"
  using responsible_cases [of ke key tiers st ts ok st'] by (auto simp: ctx_same_def ctx_asked_def)

lemma ask_replication_asked:
  assumes "ask_replication ke key st = Inr st'"
  shows "ctx_asked (replication_response_connect_address (wt ke)) key st st'"
proof -
  let ?c = "touch_rings MEMORY st"
  have same: "ctx_same st ?c" by simp
  have km: "key_replication_map ?c = key_replication_map st"
    by (simp add: touch_rings_def touch_local_def touch_global_def)
  from assms obtain ms where ms: "get_responsible_threads_metadata (kv_env ke) (get_metadata_key key replication)
      (global_ring st MEMORY) (local_ring st MEMORY) = Inr ms"
    by (auto simp: ask_replication_def issue_replication_factor_request_def Let_def ebind_Inr_iff)
  have "global_ring (d\<lparr>seed := s, sent := x\<rparr>) = global_ring d" "local_ring (d\<lparr>seed := s, sent := x\<rparr>) = local_ring d"
    for d :: kvs_state and s x
    by (simp_all add: global_ring_def local_ring_def fun_eq_iff)
  with assms ms same km show ?thesis
    by (auto simp: ask_replication_def issue_replication_factor_request_eq ctx_asked_def ctx_same_def split: if_splits)
qed

lemma ask_replication_more: "ask_replication ke key st = Inr st' \<Longrightarrow> ring_ctx.more st' = ring_ctx.more st"
  using ask_replication_asked [of ke key st st'] by (simp add: ctx_asked_def)

lemma send_fields [simp]:
  "global_ring (send a f c) = global_ring c" "local_ring (send a f c) = local_ring c"
  "key_replication_map (send a f c) = key_replication_map c" "ring_ctx.more (send a f c) = ring_ctx.more c"
  "sent (send a f c) = sent c @ [(a, f)]"
  by (simp_all add: send_def global_ring_def local_ring_def fun_eq_iff)

lemma send_kvs_fields [simp]:
  "stored_key_map (send a f st) = stored_key_map st" "pending_requests (send a f st) = pending_requests st"
  "pending_gossip (send a f st) = pending_gossip st" "store (send a f st) = store st"
  "local_changeset (send a f st) = local_changeset st"
  by (simp_all add: send_def)

lemma send_all_eq: "send_all m c = c\<lparr>sent := sent c @ map (\<lambda>(a, r). (a, Request r)) m\<rparr>"
proof (induction m arbitrary: c)
  case (Cons p m)
  obtain a r where "p = (a, r)" by fastforce
  with Cons [of "send a (Request r) c"] show ?case by (simp add: send_all_def) (simp add: send_def)
qed (simp add: send_all_def)

lemma fold_send_eq: "fold (\<lambda>x. send (a x) (f x)) xs c = c\<lparr>sent := sent c @ map (\<lambda>x. (a x, f x)) xs\<rparr>"
  by (induction xs arbitrary: c) (simp_all add: send_def)

lemma track_access_fields [simp]:
  "stored_key_map (track_access now key st) = stored_key_map st" "pending_requests (track_access now key st) = pending_requests st"
  "pending_gossip (track_access now key st) = pending_gossip st" "store (track_access now key st) = store st"
  "sent (track_access now key st) = sent st" "key_replication_map (track_access now key st) = key_replication_map st"
  by (simp_all add: track_access_def)

section \<open>Lattice types\<close>

text \<open>A stored key keeps its lattice type.\<close>

definition type_kept :: "kvs_state \<Rightarrow> kvs_state \<Rightarrow> bool" where
  "type_kept st st' \<longleftrightarrow>
     (\<forall>key prop. map_of (stored_key_map st) key = Some prop \<and> kp_lattice prop \<noteq> NONE \<longrightarrow>
        (\<exists>prop'. map_of (stored_key_map st') key = Some prop' \<and> kp_lattice prop' = kp_lattice prop))"

lemma type_kept_refl [simp]: "type_kept st st"
  by (simp add: type_kept_def)

lemma type_kept_trans: "type_kept a b \<Longrightarrow> type_kept b c \<Longrightarrow> type_kept a c"
  unfolding type_kept_def by metis

lemma type_kept_stored: "stored_key_map st' = stored_key_map st \<Longrightarrow> type_kept st st'"
  by (simp add: type_kept_def)

lemma process_get_fields:
  assumes "process_get ke key sr st = Inr (r, st')"
  shows "stored_key_map st' = stored_key_map st" "pending_requests st' = pending_requests st"
    "pending_gossip st' = pending_gossip st" "sent st' = sent st"
  using assms by (auto simp: process_get_def split: option.splits prod.splits)

lemma process_put_fields:
  assumes "process_put ke key ty p sr st = Inr st'"
  shows "\<exists>n. stored_key_map st' = umap_put key \<lparr>kp_size = n, kp_lattice = ty\<rparr> (stored_key_map st)"
    "pending_requests st' = pending_requests st" "pending_gossip st' = pending_gossip st" "sent st' = sent st"
  using assms by (auto simp: process_put_def split: option.splits prod.splits)

lemma process_put_type_kept:
  assumes "process_put ke key ty p sr st = Inr st'" and "\<not> type_conflict st key ty"
  shows "type_kept st st'"
  using process_put_fields(1) [OF assms(1)] assms(2)
  by (auto simp: type_kept_def type_conflict_def split: option.splits)

lemma answer_get_cases:
  assumes "answer_get ke tp st = Inr (tp', st')"
  shows "tp' = tp\<lparr>kt_error := KEY_DNE\<rparr> \<and> st' = st \<or>
    (\<exists>prop r. map_of (stored_key_map st) (kt_key tp) = Some prop \<and> kp_lattice prop \<noteq> NONE \<and>
       process_get ke (kt_key tp) (self_serializers ke (kp_lattice prop)) st = Inr (r, st') \<and>
       tp' = tp\<lparr>kt_lattice_type := kp_lattice prop, kt_payload := fst r, kt_error := snd r\<rparr>)"
proof (cases "map_of (stored_key_map st) (kt_key tp)")
  case None
  with assms show ?thesis by (simp add: answer_get_def)
next
  case (Some pr)
  with assms show ?thesis
    by (cases "kp_lattice pr = NONE") (auto simp: answer_get_def ebind_Inr_iff)
qed

lemma answer_get_fields:
  assumes "answer_get ke tp st = Inr (tp', st')"
  shows "stored_key_map st' = stored_key_map st \<and> pending_requests st' = pending_requests st \<and>
    pending_gossip st' = pending_gossip st \<and> sent st' = sent st \<and> kt_key tp' = kt_key tp"
  using answer_get_cases [OF assms] process_get_fields by fastforce

lemma answer_put_cases:
  assumes "answer_put ke ty p tp st = Inr (tp', st')"
  shows "(ty = NONE \<or> type_conflict st (kt_key tp) ty) \<and> tp' = tp \<and> st' = st \<or>
    ty \<noteq> NONE \<and> \<not> type_conflict st (kt_key tp) ty \<and> tp' = tp\<lparr>kt_lattice_type := ty\<rparr> \<and>
    (\<exists>st1. process_put ke (kt_key tp) ty p (self_serializers ke ty) st = Inr st1 \<and>
       st' = st1\<lparr>local_changeset := uset_insert (kt_key tp) (local_changeset st1)\<rparr>)"
proof (cases "ty = NONE \<or> type_conflict st (kt_key tp) ty")
  case True
  with assms show ?thesis by (cases "ty = NONE") (simp_all add: answer_put_def)
next
  case False
  then have "ty \<noteq> NONE" "\<not> type_conflict st (kt_key tp) ty" by simp_all
  with assms show ?thesis by (auto simp: answer_put_def ebind_Inr_iff)
qed

lemma answer_put_fields:
  assumes "answer_put ke ty p tp st = Inr (tp', st')"
  shows "type_kept st st' \<and> pending_requests st' = pending_requests st \<and>
    pending_gossip st' = pending_gossip st \<and> sent st' = sent st \<and> kt_key tp' = kt_key tp"
  using answer_put_cases [OF assms]
proof
  assume "ty \<noteq> NONE \<and> \<not> type_conflict st (kt_key tp) ty \<and> tp' = tp\<lparr>kt_lattice_type := ty\<rparr> \<and>
    (\<exists>st1. process_put ke (kt_key tp) ty p (self_serializers ke ty) st = Inr st1 \<and>
       st' = st1\<lparr>local_changeset := uset_insert (kt_key tp) (local_changeset st1)\<rparr>)"
  then obtain st1 where st1: "process_put ke (kt_key tp) ty p (self_serializers ke ty) st = Inr st1"
      "\<not> type_conflict st (kt_key tp) ty" "tp' = tp\<lparr>kt_lattice_type := ty\<rparr>"
      "st' = st1\<lparr>local_changeset := uset_insert (kt_key tp) (local_changeset st1)\<rparr>" by blast
  have "type_kept st1 st'" using st1(4) by (simp add: type_kept_stored)
  with process_put_type_kept [OF st1(1,2)] have "type_kept st st'" by (rule type_kept_trans)
  then show ?thesis using st1 process_put_fields(2-4) [OF st1(1)] by simp
qed simp

end
