(* ===== verification/Kvs_Requests.thy ===== *)
theory Kvs_Requests
  imports Kvs_Handlers
begin

text \<open>
  What a storage worker thread does with client requests, gossip and the replication factors
  that it waited for: the lemmas on \<open>user_request_handler\<close>, \<open>gossip_handler\<close> and
  \<open>replication_response_handler\<close> of \<open>Kvs_Handlers\<close>.
\<close>

definition example_kvs_env :: kvs_env where
  "example_kvs_env = \<lparr>kv_env = example_env, kv_disk = example_disk, wt = mk_ServerThread3 ''A'' ''a'' 0,
     routing_ips = [''r''], monitoring_ips = [''m''], management_ip = ''NULL'', self_join_count = 0, kv_rand = (\<lambda>s. (0, s))\<rparr>"

text \<open>The key \<open>k\<close> is replicated once in memory; its owner is the thread of the example
  environment.\<close>

definition example_kvs :: kvs_state where
  "example_kvs = ring_ctx.extend
     \<lparr>global_hash_rings = [(MEMORY, example_ring)], local_hash_rings = [(MEMORY, example_local_ring)],
      key_replication_map = init_replication example_config ''k'' [], seed = 0, sent = []\<rparr>
     (kvs_state.fields [] [] [] [] 0 [] [] [] [] [] [] stores_empty 0 0)"

section \<open>User requests\<close>

definition pending_of :: "KeyRequest \<Rightarrow> KeyTuple \<Rightarrow> PendingRequest" where
  "pending_of request tuple =
     \<lparr>pr_type = kr_type request, pr_lattice_type = kt_lattice_type tuple, pr_payload = kt_payload tuple,
      pr_addr = kr_response_address request, pr_response_id = kr_request_id request\<rparr>"

definition tuple_answered :: "KeyTuple \<Rightarrow> KeyResponse \<Rightarrow> kvs_state \<Rightarrow> KeyResponse \<Rightarrow> kvs_state \<Rightarrow> bool" where
  "tuple_answered tuple resp st resp' st' \<longleftrightarrow>
     (\<exists>tp. resp' = resp\<lparr>kp_tuples := kp_tuples resp @ [tp]\<rparr> \<and> kt_key tp = kt_key tuple) \<and>
     pending_requests st' = pending_requests st \<and> type_kept st st'"

definition tuple_pended :: "PendingRequest \<Rightarrow> KeyTuple \<Rightarrow> KeyResponse \<Rightarrow> kvs_state \<Rightarrow> KeyResponse \<Rightarrow> kvs_state \<Rightarrow> bool" where
  "tuple_pended pend tuple resp st resp' st' \<longleftrightarrow>
     resp' = resp \<and> stored_key_map st' = stored_key_map st \<and> store st' = store st \<and>
     pending_requests st' = umap_mod [] (kt_key tuple) (\<lambda>rs. rs @ [pend]) (pending_requests st)"

lemma push_pending_request_fields [simp]:
  "stored_key_map (push_pending_request key r st) = stored_key_map st" "store (push_pending_request key r st) = store st"
  "pending_requests (push_pending_request key r st) = umap_mod [] key (\<lambda>rs. rs @ [r]) (pending_requests st)"
  "sent (push_pending_request key r st) = sent st"
  by (simp_all add: push_pending_request_def)

lemma user_request_tuple_cases:
  assumes "user_request_tuple ke now request tuple (resp, st) = Inr (resp', st')"
  shows "tuple_answered tuple resp st resp' st' \<or> tuple_pended (pending_of request tuple) tuple resp st resp' st'"
proof -
  let ?key = "kt_key tuple"
  from assms obtain threads ok st1 where r: "responsible ke ?key (kSelfTierIdVector (kv_cfg ke)) st = Inr (threads, ok, st1)"
    by (auto simp: user_request_tuple_def Let_def ebind_Inr_iff)
  note same = more_fields [OF responsible_more [OF r]]
  note eq = assms [unfolded user_request_tuple_def Let_def split_conv r ebind_simps]
  show ?thesis
  proof (cases "ok")
    case False
    with eq have "resp' = resp \<and> st' = push_pending_request ?key (pending_of request tuple) st1"
      by (simp add: pending_of_def)
    with same show ?thesis by (simp add: tuple_pended_def)
  next
    case ok: True
    show ?thesis
    proof (cases "sset_has threads (wt ke)")
      case False
      show ?thesis
      proof (cases "is_metadata ?key")
        case True
        with ok False eq show ?thesis using same by (auto simp: tuple_answered_def type_kept_stored)
      next
        case meta: False
        with ok False eq obtain st2 where st2: "ask_replication ke ?key st1 = Inr st2"
          "resp' = resp" "st' = push_pending_request ?key (pending_of request tuple) st2"
          by (auto simp: ebind_Inr_iff pending_of_def)
        with same more_fields [OF ask_replication_more [OF st2(1)]] show ?thesis by (simp add: tuple_pended_def)
      qed
    next
      case True
      let ?tp = "KeyTuple_default\<lparr>kt_key := ?key\<rparr>"
      from ok True eq obtain tp1 st2 where a: "(if kr_type request = GET then answer_get ke ?tp st1
             else if kr_type request = PUT then answer_put ke (kt_lattice_type tuple) (kt_payload tuple) ?tp st1
             else Inr (?tp, st1)) = Inr (tp1, st2)"
        and st': "st' = track_access now ?key st2"
        and r2: "resp' = resp\<lparr>kp_tuples := kp_tuples resp @
             [if kt_address_cache_size tuple > 0 \<and> unat (kt_address_cache_size tuple) \<noteq> length threads
              then tp1\<lparr>kt_invalidate := True\<rparr> else tp1]\<rparr>"
        by (auto simp: ebind_Inr_iff Let_def)
      have resp': "\<exists>tp2. kt_key tp2 = kt_key tp1 \<and> resp' = resp\<lparr>kp_tuples := kp_tuples resp @ [tp2]\<rparr>"
        by (rule exI, rule conjI [OF _ r2]) simp
      have "type_kept st1 st2 \<and> pending_requests st2 = pending_requests st1 \<and> kt_key tp1 = ?key"
        using a answer_get_fields [of ke ?tp st1 tp1 st2] answer_put_fields [of ke _ _ ?tp st1 tp1 st2]
        by (auto simp: type_kept_stored split: if_splits)
      moreover have "type_kept st st1" "type_kept st2 st'" using same st' by (simp_all add: type_kept_stored)
      ultimately have "tuple_answered tuple resp st resp' st'"
        using same st' resp' by (auto simp: tuple_answered_def intro: type_kept_trans)
      then show ?thesis ..
    qed
  qed
qed

definition total_pending :: "kvs_state \<Rightarrow> nat" where
  "total_pending st = sum_list (map (\<lambda>(k, rs). length rs) (pending_requests st))"

lemma sum_umap_push:
  assumes "umap_wf m"
  shows "sum_list (map (\<lambda>(k, rs). length rs) (umap_mod [] key (\<lambda>rs. rs @ [r]) m)) =
    Suc (sum_list (map (\<lambda>(k, rs). length rs) m))"
proof (cases "map_of m key")
  case None
  then have "umap_put key v m = m @ [(key, v)]" for v
    unfolding umap_put_def by (induction m) (auto split: if_splits)
  with None show ?thesis by (simp add: umap_mod_def umap_get_def)
next
  case (Some rs)
  then have "sum_list (map (\<lambda>(k, rs). length rs) (AList.update key (rs @ [r]) m)) = Suc (sum_list (map (\<lambda>(k, rs). length rs) m))"
    using assms by (induction m) (auto split: if_splits)
  with Some show ?thesis by (simp add: umap_mod_def umap_get_def umap_put_def)
qed

definition request_inv :: "KeyRequest \<Rightarrow> kvs_state \<Rightarrow> nat \<Rightarrow> KeyResponse \<times> kvs_state \<Rightarrow> bool" where
  "request_inv request st n = (\<lambda>(resp, st'). umap_wf (pending_requests st') \<and> type_kept st st' \<and>
     length (kp_tuples resp) + total_pending st' = total_pending st + n \<and>
     kp_response_id resp = kr_request_id request \<and> kp_type resp = kr_type request)"

lemma user_request_loop:
  assumes "efold (user_request_tuple ke now request) tuples rs = Inr rs'" and "request_inv request st n rs"
  shows "request_inv request st (n + length tuples) rs'"
  using assms
proof (induction tuples arbitrary: rs n)
  case (Cons tuple tuples)
  obtain resp st1 where rs: "rs = (resp, st1)" by fastforce
  from Cons.prems(1) obtain resp2 st2 where s: "user_request_tuple ke now request tuple (resp, st1) = Inr (resp2, st2)"
    "efold (user_request_tuple ke now request) tuples (resp2, st2) = Inr rs'"
    by (auto simp: rs ebind_Inr_iff)
  have "request_inv request st (Suc n) (resp2, st2)"
    using user_request_tuple_cases [OF s(1)] Cons.prems(2)
    by (auto simp: rs request_inv_def tuple_answered_def tuple_pended_def total_pending_def sum_umap_push wf_intros
        intro: type_kept_trans type_kept_stored)
  from Cons.IH [OF s(2) this] show ?case by simp
qed simp

lemma user_request_outcome:
  assumes "user_request_handler ke now request st = Inr st'" and "umap_wf (pending_requests st)"
  shows "\<exists>resp st1. request_inv request st (length (kr_tuples request)) (resp, st1) \<and>
    st' = (if kp_tuples resp \<noteq> [] \<and> kr_response_address request \<noteq> []
           then send (kr_response_address request) (Response resp) st1 else st1)"
proof -
  let ?r = "KeyResponse_default\<lparr>kp_response_id := kr_request_id request, kp_type := kr_type request\<rparr>"
  from assms(1) [unfolded user_request_handler_def ebind_Inr_iff] obtain x where x: "efold (user_request_tuple ke now request) (kr_tuples request) (?r, st) = Inr x"
    "(case x of (response, st1) \<Rightarrow> if kp_tuples response \<noteq> [] \<and> kr_response_address request \<noteq> []
        then Inr (send (kr_response_address request) (Response response) st1) else Inr st1) = (Inr st' :: kvs_state res)"
    by (elim exE conjE) (rule that)
  obtain resp st1 where "x = (resp, st1)" by fastforce
  with x have e: "efold (user_request_tuple ke now request) (kr_tuples request) (?r, st) = Inr (resp, st1)"
    "st' = (if kp_tuples resp \<noteq> [] \<and> kr_response_address request \<noteq> []
           then send (kr_response_address request) (Response resp) st1 else st1)"
    by (auto split: if_splits)
  have "request_inv request st 0 (?r, st)"
    using assms(2) by (simp add: request_inv_def KeyResponse_default_def)
  from user_request_loop [OF e(1) this] e(2) show ?thesis by auto
qed


definition example_request :: KeyRequest where
  "example_request = \<lparr>kr_type = PUT,
     kr_tuples = [KeyTuple_default\<lparr>kt_key := ''k'', kt_lattice_type := LWW, kt_payload := serialize_ts example_codecs 5 ''v''\<rparr>,
                  KeyTuple_default\<lparr>kt_key := ''u'', kt_lattice_type := LWW, kt_payload := serialize_ts example_codecs 7 ''w''\<rparr>],
     kr_response_address = ''tcp://c:1'', kr_request_id = ''1''\<rparr>"

lemma example_request_returns: "user_request_handler example_kvs_env 1 example_request example_kvs =
    Inr (projr (user_request_handler example_kvs_env 1 example_request example_kvs))"
  by (rule sum.collapse(2) [symmetric]) code_simp


section \<open>Gossip\<close>

lemma push_pending_gossip_fields [simp]:
  "stored_key_map (push_pending_gossip key g st) = stored_key_map st"
  "pending_requests (push_pending_gossip key g st) = pending_requests st"
  by (simp_all add: push_pending_gossip_def)

lemma gossip_tuple_type_kept:
  assumes "gossip_tuple ke tuple (m, st) = Inr (m', st')"
  shows "type_kept st st'"
proof -
  let ?key = "kt_key tuple" and ?ty = "kt_lattice_type tuple"
  from assms obtain threads ok st1 where r: "responsible ke ?key (kSelfTierIdVector (kv_cfg ke)) st = Inr (threads, ok, st1)"
    by (auto simp: gossip_tuple_def Let_def ebind_Inr_iff)
  note same = more_fields [OF responsible_more [OF r]]
  note eq = assms [unfolded gossip_tuple_def Let_def split_conv r ebind_simps]
  show ?thesis
  proof (cases "ok \<and> sset_has threads (wt ke)")
    case True
    show ?thesis
    proof (cases "\<exists>pr. map_of (stored_key_map st1) ?key = Some pr \<and> kp_lattice pr \<noteq> ?ty")
      case True
      with \<open>ok \<and> sset_has threads (wt ke)\<close> eq have "st' = st1" by auto
      with same show ?thesis by (simp add: type_kept_stored)
    next
      case False
      with True eq obtain st2 where st2: "process_put ke ?key ?ty (kt_payload tuple) (self_serializers ke ?ty) st1 = Inr st2" "st' = st2"
        by (auto simp: ebind_Inr_iff split: option.splits)
      have "\<not> type_conflict st1 ?key ?ty" using False by (auto simp: type_conflict_def split: option.splits)
      from process_put_type_kept [OF st2(1) this] st2(2) same show ?thesis
        by (auto intro: type_kept_trans type_kept_stored)
    qed
  next
    case False
    then have "stored_key_map st' = stored_key_map st1"
      using eq more_fields(1) [OF ask_replication_more [of ke ?key st1]] by (auto simp: ebind_Inr_iff split: if_splits)
    with same show ?thesis by (simp add: type_kept_stored)
  qed
qed

lemma gossip_handler_type_kept:
  assumes "gossip_handler ke gossip st = Inr st'"
  shows "type_kept st st'"
proof -
  from assms obtain m st1 where e: "efold (gossip_tuple ke) (kr_tuples gossip) ([], st) = Inr (m, st1)" "st' = send_all m st1"
    by (auto simp: gossip_handler_def ebind_Inr_iff)
  have "type_kept st (snd (m, st1))"
    by (rule efold_invariant [OF e(1), of "\<lambda>x. type_kept st (snd x)"])
       (auto dest!: gossip_tuple_type_kept intro: type_kept_trans)
  moreover have "type_kept st1 st'" using e(2) by (simp add: send_all_eq type_kept_stored)
  ultimately show ?thesis by (auto intro: type_kept_trans)
qed

section \<open>Replication factors arrive\<close>

lemma serve_pending_request_type_kept:
  assumes "serve_pending_request ke now key resp r st = Inr st'"
  shows "type_kept st st' \<and> pending_requests st' = pending_requests st \<and> pending_gossip st' = pending_gossip st"
proof -
  let ?tp = "KeyTuple_default\<lparr>kt_key := key\<rparr>"
  consider (refused) "\<not> resp \<and> pr_addr r \<noteq> []" | (silent) "resp \<and> pr_addr r = []"
    | (answered) "resp \<and> pr_addr r \<noteq> []" | (dropped) "\<not> resp \<and> pr_addr r = []" by blast
  then show ?thesis
  proof cases
    case refused
    with assms show ?thesis by (auto simp: serve_pending_request_def Let_def type_kept_stored)
  next
    case silent
    show ?thesis
    proof (cases "pr_type r = PUT \<and> \<not> (pr_lattice_type r = NONE \<or> type_conflict st key (pr_lattice_type r))")
      case True
      with silent assms obtain st1 where st1: "process_put ke key (pr_lattice_type r) (pr_payload r)
            (self_serializers ke (pr_lattice_type r)) st = Inr st1"
        "st' = (track_access now key st1)\<lparr>local_changeset := uset_insert key (local_changeset st1)\<rparr>"
        by (auto simp: serve_pending_request_def Let_def ebind_Inr_iff)
      from process_put_type_kept [OF st1(1)] True have "type_kept st st1" by simp
      moreover have "type_kept st1 st'" using st1(2) by (simp add: type_kept_stored)
      ultimately show ?thesis using st1(2) process_put_fields(2,3) [OF st1(1)] by (auto intro: type_kept_trans)
    next
      case False
      with silent assms have "st' = st" by (auto simp: serve_pending_request_def Let_def split: if_splits)
      then show ?thesis by simp
    qed
  next
    case answered
    with assms obtain tp1 st1 where st1: "(if pr_type r = GET then answer_get ke ?tp st
        else answer_put ke (pr_lattice_type r) (pr_payload r) ?tp st) = Inr (tp1, st1)"
      "st' = send (pr_addr r) (Response (pending_response r tp1)) (track_access now key st1)"
      by (auto simp: serve_pending_request_def Let_def ebind_Inr_iff)
    have "type_kept st st1 \<and> pending_requests st1 = pending_requests st \<and> pending_gossip st1 = pending_gossip st"
      using st1(1) answer_get_fields [of ke ?tp st tp1 st1] answer_put_fields [of ke _ _ ?tp st tp1 st1]
      by (auto simp: type_kept_stored split: if_splits)
    moreover have "type_kept st1 st'" using st1(2) by (simp add: type_kept_stored)
    ultimately show ?thesis using st1(2) by (auto intro: type_kept_trans)
  next
    case dropped
    with assms show ?thesis by (auto simp: serve_pending_request_def Let_def)
  qed
qed

lemma serve_pending_requests_type_kept:
  assumes "serve_pending_requests ke now key st = Inr st'"
  shows "type_kept st st' \<and> map_of (pending_requests st') key = None \<and> pending_gossip st' = pending_gossip st"
proof (cases "map_of (pending_requests st) key")
  case None
  with assms show ?thesis by (simp add: serve_pending_requests_def)
next
  case (Some rs)
  with assms obtain threads ok st1 st2 where
    r: "responsible ke key (kSelfTierIdVector (kv_cfg ke)) st = Inr (threads, ok, st1)" and
    e: "(if ok then efold (serve_pending_request ke now key (sset_has threads (wt ke))) rs st1 else Inr st1) = Inr st2" and
    st': "st' = st2\<lparr>pending_requests := umap_erase key (pending_requests st2)\<rparr>"
    by (auto simp: serve_pending_requests_def ebind_Inr_iff)
  note same = more_fields [OF responsible_more [OF r]]
  have "type_kept st1 st2 \<and> pending_gossip st2 = pending_gossip st1"
  proof (cases ok)
    case True
    with e have "efold (serve_pending_request ke now key (sset_has threads (wt ke))) rs st1 = Inr st2" by simp
    then show ?thesis
      by (rule efold_invariant [of _ _ _ _ "\<lambda>s. type_kept st1 s \<and> pending_gossip s = pending_gossip st1"])
         (auto intro: type_kept_trans dest: serve_pending_request_type_kept)
  qed (use e in simp)
  moreover have "type_kept st st1" "type_kept st2 st'" using same st' by (simp_all add: type_kept_stored)
  ultimately show ?thesis using same st' by (auto intro: type_kept_trans)
qed

lemma serve_pending_gossip_type_kept:
  assumes "serve_pending_gossip ke key st = Inr st'"
  shows "type_kept st st' \<and> map_of (pending_gossip st') key = None \<and> pending_requests st' = pending_requests st"
proof (cases "map_of (pending_gossip st) key")
  case None
  with assms show ?thesis by (simp add: serve_pending_gossip_def)
next
  case (Some gs)
  let ?m = "\<lambda>threads. fold (\<lambda>thread m. umap_mod KeyRequest_default (gossip_connect_address thread)
       (\<lambda>r. fold (\<lambda>g. prepare_put_tuple key (pg_lattice_type g) (pg_payload g)) gs (r\<lparr>kr_type := PUT\<rparr>)) m) threads []"
  from Some assms [unfolded serve_pending_gossip_def Let_def] obtain threads ok st1 st2 where
    r: "responsible ke key (kSelfTierIdVector (kv_cfg ke)) st = Inr (threads, ok, st1)" and
    e: "(if ok then if sset_has threads (wt ke) then efold (apply_pending_gossip ke key) gs st1
          else Inr (send_all (?m threads) st1) else Inr st1) = Inr st2" and
    st': "st' = st2\<lparr>pending_gossip := umap_erase key (pending_gossip st2)\<rparr>"
    by (auto simp: ebind_Inr_iff)
  note same = more_fields [OF responsible_more [OF r]]
  have step: "type_kept a b \<and> pending_requests b = pending_requests a" if "apply_pending_gossip ke key g a = Inr b" for g a b
    using that process_put_type_kept [of ke key "pg_lattice_type g" "pg_payload g" _ a b] process_put_fields(2) [of ke key _ _ _ a b]
    by (auto simp: apply_pending_gossip_def split: if_splits)
  have "type_kept st1 st2 \<and> pending_requests st2 = pending_requests st1"
  proof (cases "ok \<and> sset_has threads (wt ke)")
    case True
    with e have "efold (apply_pending_gossip ke key) gs st1 = Inr st2" by simp
    then show ?thesis
      by (rule efold_invariant [of _ _ _ _ "\<lambda>s. type_kept st1 s \<and> pending_requests s = pending_requests st1"])
         (auto intro: type_kept_trans dest: step)
  next
    case False
    with e show ?thesis by (auto simp: send_all_eq type_kept_stored split: if_splits)
  qed
  moreover have "type_kept st st1" "type_kept st2 st'" using same st' by (simp_all add: type_kept_stored)
  ultimately show ?thesis using same st' by (auto intro: type_kept_trans)
qed

lemma replication_response_type_kept:
  assumes "replication_response_handler ke now response st = Inr st'"
  shows "type_kept st st'"
proof -
  from assms obtain tuple where t: "vec_at (kp_tuples response) 0 = Inr tuple"
    by (auto simp: replication_response_handler_def ebind_Inr_iff)
  let ?key = "get_key_from_metadata (kt_key tuple)"
  have serve: "type_kept st st'"
    if "ebind (serve_pending_requests ke now ?key st1) (serve_pending_gossip ke ?key) = Inr st'"
      "stored_key_map st1 = stored_key_map st" for st1
  proof -
    from that(1) obtain st2 where "serve_pending_requests ke now ?key st1 = Inr st2" "serve_pending_gossip ke ?key st2 = Inr st'"
      by (auto simp: ebind_Inr_iff)
    with serve_pending_requests_type_kept serve_pending_gossip_type_kept that(2) show ?thesis
      by (metis type_kept_stored type_kept_trans)
  qed
  note eq = assms [unfolded replication_response_handler_def t ebind_simps Let_def]
  show ?thesis
    using eq more_fields(1) [OF ask_replication_more [of ke ?key st st']]
    by (auto simp: update_replication_def type_kept_stored intro: serve split: if_splits)
qed

end
