(* ===== verification/Kvs_Server.thy ===== *)
theory Kvs_Server
  imports Kvs_Requests
begin

text \<open>
  A storage worker thread as a whole: \<open>run\<close> of \<open>src/kvs/server.cpp\<close>.

  \<open>run_init\<close> builds the state from the membership that the seed node and the join count that the
  management node answered, and announces the server. \<open>server_iteration\<close> is one round of the event loop:
  at most one message from each of the nine sockets, in their order, then the periodic tasks
  \<open>gossip_round\<close>, \<open>report_round\<close> and \<open>redistribute\<close>. What the round receives is its argument
  \<open>inbox\<close>, and so are the clock (microseconds) and the measured handler times. A self-departure ends
  the loop.
\<close>

section \<open>Start\<close>

definition add_member :: "env \<Rightarrow> Tier \<Rightarrow> Address \<times> Address \<Rightarrow> 'a ring_ctx_scheme \<Rightarrow> 'a ring_ctx_scheme" where
  "add_member en tier = (\<lambda>(pub, priv). mod_global_ring tier (\<lambda>r. snd (global_insert en pub priv 0 0 r)))"

definition populate :: "env \<Rightarrow> ClusterMembership \<Rightarrow> 'a ring_ctx_scheme \<Rightarrow> 'a ring_ctx_scheme" where
  "populate en membership st = fold (\<lambda>(tier, servers). fold (add_member en tier) servers) membership st"

definition form_local_rings :: "env \<Rightarrow> Address \<Rightarrow> Address \<Rightarrow> 'a ring_ctx_scheme \<Rightarrow> 'a ring_ctx_scheme" where
  "form_local_rings en pub priv st =
     fold (\<lambda>(t, tier) st.
             fold (\<lambda>i st. st\<lparr>local_hash_rings :=
                      umap_mod HashRing_empty (tm_id tier) (\<lambda>r. snd (local_insert en pub priv 0 (of_nat i) r)) (local_hash_rings st)\<rparr>)
               [0..<unat (thread_number tier)] st)
       (kTierMetadata (cfg en)) st"

definition announce_join :: "kvs_env \<Rightarrow> string \<Rightarrow> kvs_state \<Rightarrow> kvs_state" where
  "announce_join ke count_str st =
     (let self = wt ke;
          msg = Tier_Name (kSelfTier (kv_cfg ke)) @ '':'' @ public_ip self @ '':'' @ private_ip self @ '':'' @ count_str
      in fold (\<lambda>address. send (mt_notify_connect_address address) (Text (''join:'' @ msg))) (monitoring_ips ke)
           (fold (\<lambda>address. send (rt_notify_connect_address (mk_RoutingThread address 0)) (Text (''join:'' @ msg))) (routing_ips ke)
             (fold (\<lambda>th. send (node_join_connect_address th) (Text msg))
                (filter (\<lambda>th. private_ip th \<noteq> private_ip self)
                   (concat (map (\<lambda>(t, r). unique_servers r) (global_hash_rings st)))) st)))"

text \<open>\<open>access_count\<close> is not initialised in the source: its first value is an argument. Without a
  management node the join count is 0.\<close>

definition empty_state :: "u32 \<Rightarrow> u32 \<Rightarrow> u64 \<Rightarrow> kvs_state" where
  "empty_state start_seed garbage rand0 = ring_ctx.extend
     \<lparr>global_hash_rings = [], local_hash_rings = [], key_replication_map = [], seed = start_seed, sent = []\<rparr>
     (kvs_state.fields [] [] [] [] garbage [] [] [] [] [] [] stores_empty 0 rand0)"

definition run_init :: "kvs_env \<Rightarrow> u32 \<Rightarrow> u32 \<Rightarrow> u64 \<Rightarrow> ClusterMembership \<Rightarrow> string \<Rightarrow> (kvs_env \<times> kvs_state) res" where
  "run_init ke time garbage rand0 membership answer =
     (let self = wt ke; tier = kSelfTier (kv_cfg ke); en = kv_env ke;
          count_str = (if management_ip ke \<noteq> ''NULL'' then answer else ''0'')
      in ebind (stoi count_str) (\<lambda>count.
           let st0 = empty_state (time + tid self) garbage rand0;
               st1 = mod_global_ring tier (\<lambda>r. snd (global_insert en (public_ip self) (private_ip self) count 0 r))
                       (populate en membership st0);
               st2 = form_local_rings en (public_ip self) (private_ip self) st1
           in Inr (ke\<lparr>self_join_count := count\<rparr>, if tid self = 0 then announce_join ke count_str st2 else st2)))"

section \<open>Periodic tasks\<close>

definition gossip_targets :: "kvs_env \<Rightarrow> Key \<Rightarrow> AddressKeysetMap \<times> kvs_state \<Rightarrow> (AddressKeysetMap \<times> kvs_state) res" where
  "gossip_targets ke key = (\<lambda>(m, st).
     ebind (responsible ke key kAllTiers st) (\<lambda>(threads, succeed, st1).
       let m1 = (if succeed then add_keyset key (filter (\<lambda>th. \<not> st_eq th (wt ke)) threads) m else m);
           m2 = (case map_of (key_to_cache_ips st1) key of
                   None \<Rightarrow> m1
                 | Some cache_ips \<Rightarrow> fold (\<lambda>ip. umap_mod [] (cache_update_connect_address ip 0) (uset_insert key)) cache_ips m1)
       in Inr (m2, st1)))"

definition gossip_round :: "kvs_env \<Rightarrow> kvs_state \<Rightarrow> kvs_state res" where
  "gossip_round ke st =
     (if local_changeset st = [] then Inr st
      else ebind (efold (gossip_targets ke) (local_changeset st) ([], st)) (\<lambda>(m, st1).
           ebind (send_gossip ke m st1) (\<lambda>st2. Inr (st2\<lparr>local_changeset := []\<rparr>))))"

definition put_metadata :: "kvs_env \<Rightarrow> Key \<Rightarrow> string \<Rightarrow> kvs_state \<Rightarrow> kvs_state res" where
  "put_metadata ke key payload st =
     ebind (get_responsible_threads_metadata (kv_env ke) key (global_ring st MEMORY) (local_ring st MEMORY)) (\<lambda>threads.
       let st1 = touch_rings MEMORY st
       in if threads = [] then Inr st1
          else let (r, seed') = rand_r (kv_env ke) (seed st1)
               in Inr (send (key_request_connect_address (threads ! (unat r mod length threads)))
                        (Request (prepare_put_tuple key LWW payload (KeyRequest_default\<lparr>kr_type := PUT\<rparr>)))
                        (st1\<lparr>seed := seed'\<rparr>)))"

definition kServerReportThreshold :: int where "kServerReportThreshold = 15"
definition kKeyMonitoringThreshold :: int where "kKeyMonitoringThreshold = 60"
definition PERIOD :: int where "PERIOD = 10000000"
definition DATA_REDISTRIBUTE_THRESHOLD :: nat where "DATA_REDISTRIBUTE_THRESHOLD = 50"

definition micros_since :: "u64 \<Rightarrow> u64 \<Rightarrow> int" where
  "micros_since now start = uint now - uint start"

text \<open>\<open>duration_cast<seconds>\<close> truncates towards zero.\<close>

definition seconds_since :: "u64 \<Rightarrow> u64 \<Rightarrow> int" where
  "seconds_since now start = (let d = micros_since now start in if d < 0 then - (- d div 1000000) else d div 1000000)"

text \<open>The times that are counted for a key: on a copy of the multiset, the first expired time
  is erased with all its duplicates, and the search stops.\<close>

definition counted_accesses :: "u64 \<Rightarrow> u64 list \<Rightarrow> u64 list" where
  "counted_accesses now stamps =
     (case filter (\<lambda>t. seconds_since now t \<ge> kKeyMonitoringThreshold) stamps of
        [] \<Rightarrow> stamps
      | t # _ \<Rightarrow> filter (\<lambda>u. u \<noteq> t) stamps)"

definition key_access_data :: "u64 \<Rightarrow> (Key, u64 list) umap \<Rightarrow> KeyAccessData" where
  "key_access_data now tracker = map (\<lambda>(key, stamps). (key, of_nat (length (counted_accesses now stamps)))) tracker"

definition storage_consumption :: "kvs_state \<Rightarrow> u64" where
  "storage_consumption st = fold (\<lambda>(key, prop) n. n + ucast (kp_size prop)) (stored_key_map st) 0"

definition primary_key_sizes :: "kvs_env \<Rightarrow> kvs_state \<Rightarrow> KeySizeData \<times> kvs_state" where
  "primary_key_sizes ke st =
     fold (\<lambda>(key, prop) (sizes, st).
             case is_primary_replica ke key (wt ke) st of
               (primary, st1) \<Rightarrow> (if primary then sizes @ [(key, kp_size prop)] else sizes, st1))
       (stored_key_map st) ([], st)"

record server =
  kvs :: kvs_state
  gossip_start :: u64
  report_start :: u64
  working_time :: u64
  working_time_map :: "u64 list"
  epoch :: u32

definition report_round :: "kvs_env \<Rightarrow> u64 \<Rightarrow> int \<Rightarrow> server \<Rightarrow> server res" where
  "report_round ke now duration s =
     (let self = wt ke; tier = kSelfTier (kv_cfg ke); epoch' = epoch s + 1; pbs = kv_pb ke; st = kvs s;
          occupancy = of_int (uint (working_time s)) / (of_int duration * 1000000)
      in ebind (generate_timestamp (now div 1000) (tid self)) (\<lambda>ts.
         ebind (put_metadata ke (get_metadata_key_thread self tier (tid self) server_stats)
                  (serialize_ts pbs ts (enc (pb_stat pbs)
                     \<lparr>sts_storage_consumption = storage_consumption st div 1000, sts_occupancy = occupancy,
                      sts_epoch = epoch', sts_access_count = access_count st\<rparr>)) st) (\<lambda>st1.
         ebind (put_metadata ke (get_metadata_key_thread self tier (tid self) key_access)
                  (serialize_ts pbs ts (enc (pb_access pbs) (key_access_data now (key_access_tracker st1)))) st1) (\<lambda>st2.
           let (sizes, st3) = primary_key_sizes ke st2
           in ebind (put_metadata ke (get_metadata_key_thread self tier (tid self) key_size)
                       (serialize_ts pbs ts (enc (pb_size pbs) sizes)) st3) (\<lambda>st4.
                let st5 = (if management_ip ke \<noteq> ''NULL''
                           then send (get_func_nodes_req_address (management_ip ke))
                                  (Text (management_node_response_connect_address self)) st4
                           else st4)
                in Inr (s\<lparr>kvs := st5\<lparr>access_count := 0\<rparr>, epoch := epoch', report_start := now, working_time := 0,
                          working_time_map := replicate 10 0\<rparr>))))))"

definition redistribute :: "kvs_env \<Rightarrow> kvs_state \<Rightarrow> kvs_state res" where
  "redistribute ke st =
     (if join_gossip_map st = [] then Inr st
      else let addr_keyset_map = filter (\<lambda>(a, keys). keys \<noteq> [])
                 (map (\<lambda>(a, keys). (a, take DATA_REDISTRIBUTE_THRESHOLD keys)) (join_gossip_map st));
               remove_address_set = map fst (filter (\<lambda>(a, keys). drop DATA_REDISTRIBUTE_THRESHOLD keys = []) (join_gossip_map st));
               st1 = st\<lparr>join_gossip_map := fold umap_erase remove_address_set (join_gossip_map st)\<rparr>
           in ebind (send_gossip ke addr_keyset_map st1) (\<lambda>st2.
                if join_gossip_map st2 = []
                then ebind (efold (remove_key ke) (join_remove_set st2) st2) (\<lambda>st3. Inr (st3\<lparr>join_remove_set := []\<rparr>))
                else Inr st2))"

section \<open>The event loop\<close>

text \<open>What one call of \<open>poll\<close> found: at most one message is taken from each socket. \<open>elapsed i\<close> is
  the measured time of handler \<open>i\<close>.\<close>

record inbox =
  join_in :: "string option"
  depart_in :: "string option"
  self_depart_in :: "string option"
  request_in :: "KeyRequest option"
  gossip_in :: "KeyRequest option"
  replication_response_in :: "KeyResponse option"
  replication_change_in :: "ReplicationFactorUpdate option"
  cache_ip_in :: "KeyResponse option"
  management_in :: "StringSet option"
  elapsed :: "nat \<Rightarrow> u64"
  clock :: u64

definition receive :: "inbox \<Rightarrow> nat \<Rightarrow> 'm option \<Rightarrow> ('m \<Rightarrow> kvs_state \<Rightarrow> kvs_state res) \<Rightarrow> server \<Rightarrow> server res" where
  "receive ib i message handler s =
     (case message of
        None \<Rightarrow> Inr s
      | Some m \<Rightarrow> ebind (handler m (kvs s)) (\<lambda>st.
          Inr (s\<lparr>kvs := st, working_time := working_time s + elapsed ib i,
                 working_time_map := (working_time_map s)[i := working_time_map s ! i + elapsed ib i]\<rparr>)))"

definition periodic_gossip :: "kvs_env \<Rightarrow> inbox \<Rightarrow> server \<Rightarrow> server res" where
  "periodic_gossip ke ib s =
     (if micros_since (clock ib) (gossip_start s) \<ge> PERIOD
      then ebind (gossip_round ke (kvs s)) (\<lambda>st.
             Inr (s\<lparr>kvs := st, gossip_start := clock ib, working_time := working_time s + elapsed ib 9,
                    working_time_map := (working_time_map s)[9 := working_time_map s ! 9 + elapsed ib 9]\<rparr>))
      else Inr s)"

definition periodic_report :: "kvs_env \<Rightarrow> inbox \<Rightarrow> server \<Rightarrow> server res" where
  "periodic_report ke ib s =
     (let duration = seconds_since (clock ib) (report_start s)
      in if duration \<ge> kServerReportThreshold then report_round ke (clock ib) duration s else Inr s)"

definition periodic_redistribute :: "kvs_env \<Rightarrow> server \<Rightarrow> server res" where
  "periodic_redistribute ke s = ebind (redistribute ke (kvs s)) (\<lambda>st. Inr (s\<lparr>kvs := st\<rparr>))"

text \<open>The result tells whether the loop goes on.\<close>

definition server_iteration :: "kvs_env \<Rightarrow> inbox \<Rightarrow> server \<Rightarrow> (bool \<times> server) res" where
  "server_iteration ke ib s =
     ebind (receive ib 0 (join_in ib) (node_join_handler ke) s) (\<lambda>s1.
     ebind (receive ib 1 (depart_in ib) (node_depart_handler ke) s1) (\<lambda>s2.
       case self_depart_in ib of
         Some serialized \<Rightarrow> ebind (self_depart_handler ke serialized (kvs s2)) (\<lambda>st. Inr (False, s2\<lparr>kvs := st\<rparr>))
       | None \<Rightarrow>
           ebind (receive ib 3 (request_in ib) (user_request_handler ke (clock ib)) s2) (\<lambda>s3.
           ebind (receive ib 4 (gossip_in ib) (gossip_handler ke) s3) (\<lambda>s4.
           ebind (receive ib 5 (replication_response_in ib) (replication_response_handler ke (clock ib)) s4) (\<lambda>s5.
           ebind (receive ib 6 (replication_change_in ib) (replication_change_handler ke) s5) (\<lambda>s6.
           ebind (receive ib 7 (cache_ip_in ib) (\<lambda>m st. Inr (cache_ip_response_handler ke m st)) s6) (\<lambda>s7.
           ebind (receive ib 8 (management_in ib) (management_node_response_handler ke) s7) (\<lambda>s8.
           ebind (periodic_gossip ke ib s8) (\<lambda>s9.
           ebind (periodic_report ke ib s9) (\<lambda>s10.
           ebind (periodic_redistribute ke s10) (\<lambda>s11. Inr (True, s11))))))))))))"

text \<open>The states the loop goes through, for any messages.\<close>

inductive serving :: "kvs_env \<Rightarrow> server \<Rightarrow> server \<Rightarrow> bool" for ke where
  start: "serving ke s s"
| again: "serving ke s s1 \<Longrightarrow> server_iteration ke ib s1 = Inr (True, s2) \<Longrightarrow> serving ke s s2"

end
