(* ===== verification/Kvs_Gossip.thy ===== *)
theory Kvs_Gossip
  imports Kvs_Server
begin

text \<open>
  What \<open>send_gossip\<close> delivers, and through it the periodic gossip, the departure of a server and
  the redistribution of keys after a join: every key that has to move is sent, with the payload
  stored when the task starts, to every thread that has to get it.
\<close>

section \<open>Reading does not disturb the store\<close>

definition stores_grow :: "stores \<Rightarrow> stores \<Rightarrow> bool" where
  "stores_grow s s' \<longleftrightarrow>
     map_of (lww_kvs s) \<subseteq>\<^sub>m map_of (lww_kvs s') \<and> map_of (set_kvs s) \<subseteq>\<^sub>m map_of (set_kvs s') \<and>
     map_of (ordered_set_kvs s) \<subseteq>\<^sub>m map_of (ordered_set_kvs s') \<and> map_of (causal_kvs s) \<subseteq>\<^sub>m map_of (causal_kvs s') \<and>
     map_of (multi_key_causal_kvs s) \<subseteq>\<^sub>m map_of (multi_key_causal_kvs s') \<and>
     map_of (priority_kvs s) \<subseteq>\<^sub>m map_of (priority_kvs s') \<and> files s' = files s"

lemma stores_grow_refl [simp]: "stores_grow s s"
  by (simp add: stores_grow_def)

lemma stores_grow_trans: "stores_grow a b \<Longrightarrow> stores_grow b c \<Longrightarrow> stores_grow a c"
  by (auto simp: stores_grow_def intro: map_le_trans)

lemma KVStore_get_ext: "map_of db \<subseteq>\<^sub>m map_of (snd (KVStore_get d k e db))"
  by (auto simp: KVStore_get_def MapLattice_at_def map_le_def Let_def umap_get_def split: option.splits)

lemma KVStore_get_found:
  assumes "map_of db \<subseteq>\<^sub>m map_of db'" and "umap_has db k"
  shows "umap_get d db' k = umap_get d db k \<and> umap_has db' k"
proof -
  from assms(2) obtain v where "map_of db k = Some v" by (auto simp: umap_has_def)
  moreover from this assms(1) have "map_of db' k = Some v" by (auto simp: map_le_def dom_def)
  ultimately show ?thesis by (simp add: umap_get_def umap_has_def)
qed

lemmas memory_gets = MemoryLWW_get_def MemorySet_get_def MemoryOrderedSet_get_def MemorySingleKeyCausal_get_def
  MemoryMultiKeyCausal_get_def MemoryPriority_get_def

lemmas disk_gets = DiskLWW_get_def DiskSet_get_def DiskOrderedSet_get_def DiskSingleKeyCausal_get_def
  DiskMultiKeyCausal_get_def DiskPriority_get_def

lemma Serializer_get_ext: "stores_grow s (snd (Serializer_get pbs de sr k e s))"
  by (cases sr) (simp_all add: Serializer_get_def memory_gets disk_gets stores_grow_def KVStore_get_ext Let_def split_beta)

lemma Disk_get_files: "files s' = files s \<Longrightarrow> fst (Disk_get c missing de k e s') = fst (Disk_get c missing de k e s)"
  by (simp add: Disk_get_def split: option.split)

lemma Serializer_get_found:
  assumes "stores_grow s s'" and "fst (Serializer_get pbs de sr k NO_ERROR s) = (p, NO_ERROR)"
  shows "fst (Serializer_get pbs de sr k NO_ERROR s') = (p, NO_ERROR)"
proof -
  have ext: "map_of (lww_kvs s) \<subseteq>\<^sub>m map_of (lww_kvs s')" "map_of (set_kvs s) \<subseteq>\<^sub>m map_of (set_kvs s')"
    "map_of (ordered_set_kvs s) \<subseteq>\<^sub>m map_of (ordered_set_kvs s')" "map_of (causal_kvs s) \<subseteq>\<^sub>m map_of (causal_kvs s')"
    "map_of (multi_key_causal_kvs s) \<subseteq>\<^sub>m map_of (multi_key_causal_kvs s')"
    "map_of (priority_kvs s) \<subseteq>\<^sub>m map_of (priority_kvs s')" and files: "files s' = files s"
    using assms(1) by (simp_all add: stores_grow_def)
  note found = KVStore_get_found [OF ext(1)] KVStore_get_found [OF ext(2)] KVStore_get_found [OF ext(3)]
    KVStore_get_found [OF ext(4)] KVStore_get_found [OF ext(5)] KVStore_get_found [OF ext(6)]
  show ?thesis
    using assms(2)
    by (cases sr) (auto simp: Serializer_get_def memory_gets disk_gets Disk_get_files [OF files] Let_def split_beta found
        split: if_splits)
qed

text \<open>The payload a thread would send for a key.\<close>

definition readable :: "kvs_env \<Rightarrow> kvs_state \<Rightarrow> Key \<Rightarrow> LatticeType \<Rightarrow> string \<Rightarrow> bool" where
  "readable ke st key ty payload \<longleftrightarrow>
     (\<exists>prop sr. map_of (stored_key_map st) key = Some prop \<and> kp_lattice prop = ty \<and> self_serializers ke ty = Some sr \<and>
        fst (Serializer_get (kv_pb ke) (kv_disk ke) sr key NO_ERROR (store st)) = (payload, NO_ERROR))"

lemma readable_ext:
  "readable ke st key ty payload \<Longrightarrow> stored_key_map st' = stored_key_map st \<Longrightarrow> stores_grow (store st) (store st') \<Longrightarrow>
     readable ke st' key ty payload"
  by (auto simp: readable_def intro: Serializer_get_found)

section \<open>What a node keeps while it asks the ring\<close>

definition rings_kept :: "'a ring_ctx_scheme \<Rightarrow> 'a ring_ctx_scheme \<Rightarrow> bool" where
  "rings_kept c d \<longleftrightarrow> global_ring d = global_ring c \<and> local_ring d = local_ring c \<and>
     global_rep d = global_rep c \<and> local_rep d = local_rep c \<and>
     umap_has (key_replication_map d) = umap_has (key_replication_map c) \<and> (\<exists>fs. sent d = sent c @ fs)"

lemma rings_kept_refl [simp]: "rings_kept c c"
  by (simp add: rings_kept_def)

lemma rings_kept_trans: "rings_kept a b \<Longrightarrow> rings_kept b c \<Longrightarrow> rings_kept a c"
  by (auto simp: rings_kept_def)

lemma rings_kept_sent: "rings_kept c d \<Longrightarrow> set (sent c) \<subseteq> set (sent d)"
  by (auto simp: rings_kept_def)

lemma known_owners_kept: "rings_kept st st' \<Longrightarrow> known_owners ke st' key tiers ts = known_owners ke st key tiers ts"
  by (auto simp: known_owners_def owners_def rings_kept_def)

lemma responsible_kept:
  assumes "responsible ke key tiers st = Inr (ts, ok, st')"
  shows "rings_kept st st' \<and> ring_ctx.more st' = ring_ctx.more st"
  using responsible_cases [OF assms]
proof
  assume "ok \<and> known_owners ke st key tiers ts \<and> ctx_same st st'"
  then show ?thesis by (simp add: ctx_same_def rings_kept_def)
next
  assume "\<not> ok \<and> ts = [] \<and> \<not> is_metadata key \<and> \<not> umap_has (key_replication_map st) key \<and>
      ctx_asked (replication_response_connect_address (wt ke)) key st st'"
  then show ?thesis by (auto simp: ctx_asked_def rings_kept_def global_rep_def local_rep_def fun_eq_iff)
qed

lemma responsible_known_owners:
  assumes "responsible ke key tiers st = Inr (ts, ok, st')" and "known_owners ke st key tiers us"
  shows "ok \<and> ts = us"
proof -
  from responsible_known [OF assms(2)] obtain st'' where "responsible ke key tiers st = Inr (us, True, st'')" by blast
  with assms(1) show ?thesis by simp
qed

section \<open>\<open>send_gossip\<close>\<close>

text \<open>A message to the address that puts the key with the payload.\<close>

definition put_for :: "Key \<Rightarrow> LatticeType \<Rightarrow> string \<Rightarrow> KeyRequest \<Rightarrow> bool" where
  "put_for key ty payload r \<longleftrightarrow> kr_type r = PUT \<and>
     (\<exists>tp\<in>set (kr_tuples r). kt_key tp = key \<and> kt_lattice_type tp = ty \<and> kt_payload tp = payload)"

lemma put_for_prepare: "put_for key ty p r \<Longrightarrow> put_for key ty p (prepare_put_tuple key' ty' p' r)"
  by (auto simp: put_for_def prepare_put_tuple_def)

lemma put_for_new: "kr_type r = PUT \<Longrightarrow> put_for key ty p (prepare_put_tuple key ty p r)"
  by (auto simp: put_for_def prepare_put_tuple_def)

lemma prepare_put_tuple_type [simp]: "kr_type (prepare_put_tuple key ty p r) = kr_type r"
  by (simp add: prepare_put_tuple_def)

definition queued :: "(Address, KeyRequest) umap \<Rightarrow> Address \<Rightarrow> Key \<Rightarrow> LatticeType \<Rightarrow> string \<Rightarrow> bool" where
  "queued m a key ty payload \<longleftrightarrow> (\<exists>r. map_of m a = Some r \<and> put_for key ty payload r)"

text \<open>What the loop of \<open>send_gossip\<close> keeps of the state it started in.\<close>

definition reading :: "kvs_state \<Rightarrow> kvs_state \<Rightarrow> bool" where
  "reading st st' \<longleftrightarrow> (\<exists>s. st' = st\<lparr>store := s\<rparr> \<and> stores_grow (store st) s)"

lemma reading_refl [simp]: "reading st st"
  unfolding reading_def by (rule exI [of _ "store st"]) simp

lemma reading_trans:
  assumes "reading a b" and "reading b c"
  shows "reading a c"
proof -
  from assms obtain s1 s2 where "b = a\<lparr>store := s1\<rparr>" "stores_grow (store a) s1" "c = b\<lparr>store := s2\<rparr>" "stores_grow (store b) s2"
    unfolding reading_def by blast
  then have "c = a\<lparr>store := s2\<rparr> \<and> stores_grow (store a) s2" using stores_grow_trans [of "store a" s1 s2] by simp
  then show ?thesis unfolding reading_def by blast
qed

lemma readable_reading: "reading st st' \<Longrightarrow> readable ke st key ty p \<Longrightarrow> readable ke st' key ty p"
  by (erule readable_ext) (auto simp: reading_def)

lemma process_get_reading: "process_get ke key sr st = Inr (r, st') \<Longrightarrow> reading st st'"
  using Serializer_get_ext [of "store st" "kv_pb ke" "kv_disk ke" _ key NO_ERROR]
  by (cases sr) (auto simp: process_get_def reading_def split: prod.splits, metis snd_conv)

lemma gossip_key_cases:
  assumes "gossip_key ke a key (m, st) = Inr (m', st')"
  shows "reading st st' \<and>
    (m' = m \<and> (\<nexists>ty p. readable ke st key ty p) \<or>
     (\<exists>ty p. readable ke st key ty p \<and> m' = umap_mod KeyRequest_default a (prepare_put_tuple key ty p) m))"
proof (cases "map_of (stored_key_map st) key")
  case None
  with assms show ?thesis by (auto simp: gossip_key_def readable_def)
next
  case (Some pr)
  with assms obtain p e where g: "process_get ke key (self_serializers ke (kp_lattice pr)) st = Inr ((p, e), st')"
    and m: "m' = (if e = NO_ERROR then umap_mod KeyRequest_default a (prepare_put_tuple key (kp_lattice pr) p) m else m)"
    by (auto simp: gossip_key_def ebind_Inr_iff split: if_splits)
  from g obtain sr where sr: "self_serializers ke (kp_lattice pr) = Some sr"
    "fst (Serializer_get (kv_pb ke) (kv_disk ke) sr key NO_ERROR (store st)) = (p, e)"
    by (auto simp: process_get_def split: option.splits prod.splits)
  show ?thesis
  proof (cases "e = NO_ERROR")
    case True
    then have "readable ke st key (kp_lattice pr) p" using Some sr by (simp add: readable_def)
    with True m process_get_reading [OF g] show ?thesis by auto
  next
    case False
    then have "\<nexists>ty q. readable ke st key ty q" using Some sr by (auto simp: readable_def)
    with False m process_get_reading [OF g] show ?thesis by simp
  qed
qed


lemma efold_establish:
  assumes "efold f xs s = Inr t" and "x \<in> set xs" and "I s"
    and keep: "\<And>y a b. y \<in> set xs \<Longrightarrow> I a \<Longrightarrow> f y a = Inr b \<Longrightarrow> I b"
    and here: "\<And>a b. I a \<Longrightarrow> f x a = Inr b \<Longrightarrow> P b"
    and stay: "\<And>y a b. y \<in> set xs \<Longrightarrow> I a \<Longrightarrow> P a \<Longrightarrow> f y a = Inr b \<Longrightarrow> P b"
  shows "P t"
proof -
  from assms(2) obtain us vs where xs: "xs = us @ x # vs" by (auto simp: in_set_conv_decomp)
  with assms(1) obtain a b where ab: "efold f us s = Inr a" "f x a = Inr b" "efold f vs b = Inr t"
    by (auto simp: efold_append ebind_Inr_iff)
  have "I a" by (rule efold_invariant [OF ab(1), of I]) (use assms(3) xs keep in auto)
  then have "I b \<and> P b" using keep [of x] here ab(2) xs by auto
  then have "I t \<and> P t"
  proof (rule efold_invariant [OF ab(3), of "\<lambda>s. I s \<and> P s"])
    show "I b \<and> P b" if "y \<in> set vs" "I a \<and> P a" "f y a = Inr b" for y a b
      using that keep [of y a b] stay [of y a b] xs by simp
  qed
  then show ?thesis ..
qed

lemma queued_mod:
  assumes "queued m a key ty p" and "\<And>r. put_for key ty p r \<Longrightarrow> put_for key ty p (f r)"
  shows "queued (umap_mod d b f m) a key ty p"
  using assms by (auto simp: queued_def umap_get_def)

lemma gossip_key_queued:
  assumes "gossip_key ke a key' (m, st) = Inr (m', st')" and "queued m b key ty p"
  shows "queued m' b key ty p"
  using gossip_key_cases [OF assms(1)] assms(2) by (auto intro: queued_mod put_for_prepare)

lemma readable_unique: "readable ke st key ty p \<Longrightarrow> readable ke st key ty' p' \<Longrightarrow> ty' = ty \<and> p' = p"
  by (auto simp: readable_def)

lemma gossip_address_queued:
  assumes e: "efold (gossip_key ke a) keys (m, st) = Inr (m', st')" and key: "key \<in> set keys"
    and type: "\<exists>r. map_of m a = Some r \<and> kr_type r = PUT" and read: "readable ke st key ty p"
  shows "queued m' a key ty p"
proof -
  let ?I = "\<lambda>(gm, s). reading st s \<and> (\<exists>r. map_of gm a = Some r \<and> kr_type r = PUT)"
  let ?P = "\<lambda>(gm, s). queued gm a key ty p"
  have "?P (m', st')"
  proof (rule efold_establish [OF e key, of ?I])
    show "?I (m, st)" using type by simp
    show "?I y" if "?I x" "gossip_key ke a k x = Inr y" for k x y
    proof -
      obtain gm s gm' s' where xy: "x = (gm, s)" "y = (gm', s')" by fastforce
      from that gossip_key_cases [of ke a k gm s gm' s'] show ?thesis
        by (auto simp: xy umap_get_def intro: reading_trans)
    qed
    show "?P y" if "?I x" "gossip_key ke a key x = Inr y" for x y
    proof -
      obtain gm s gm' s' where xy: "x = (gm, s)" "y = (gm', s')" by fastforce
      from that(1) have s: "readable ke s key ty p" using readable_reading [OF _ read] by (simp add: xy)
      from gossip_key_cases [of ke a key gm s gm' s'] that(2) s obtain ty' p' where
        r: "readable ke s key ty' p'" "gm' = umap_mod KeyRequest_default a (prepare_put_tuple key ty' p') gm"
        unfolding xy by blast
      from readable_unique [OF s r(1)] r(2) have "gm' = umap_mod KeyRequest_default a (prepare_put_tuple key ty p) gm" by simp
      with that(1) show ?thesis by (auto simp: xy queued_def umap_get_def intro: put_for_new)
    qed
    show "?P y" if "?P x" "gossip_key ke a k x = Inr y" for k x y
      using that gossip_key_queued by (cases x; cases y) fastforce
  qed
  then show ?thesis by simp
qed

lemma gossip_address_reading:
  assumes "efold (gossip_key ke a) keys (m, st) = Inr (m', st')"
  shows "reading st st' \<and> (queued m b key ty p \<longrightarrow> queued m' b key ty p)"
proof -
  have "(\<lambda>(gm, s). reading st s \<and> (queued m b key ty p \<longrightarrow> queued gm b key ty p)) (m', st')"
  proof (rule efold_invariant [OF assms])
    fix k x y assume "(\<lambda>(gm, s). reading st s \<and> (queued m b key ty p \<longrightarrow> queued gm b key ty p)) x" "gossip_key ke a k x = Inr y"
    then show "(\<lambda>(gm, s). reading st s \<and> (queued m b key ty p \<longrightarrow> queued gm b key ty p)) y"
      using gossip_key_cases [of ke a k "fst x" "snd x" "fst y" "snd y"] gossip_key_queued [of ke a k "fst x" "snd x" "fst y" "snd y"]
      by (auto simp: split_beta intro: reading_trans)
  qed simp
  then show ?thesis by simp
qed

definition gossip_address ::
  "kvs_env \<Rightarrow> Address \<times> Key uset \<Rightarrow> (Address, KeyRequest) umap \<times> kvs_state \<Rightarrow> ((Address, KeyRequest) umap \<times> kvs_state) res" where
  "gossip_address ke = (\<lambda>(address, keys) (gossip_map, st).
     efold (gossip_key ke address) keys (umap_mod KeyRequest_default address (\<lambda>r. r\<lparr>kr_type := PUT\<rparr>) gossip_map, st))"

lemma send_gossip_eq:
  "send_gossip ke m st = ebind (efold (gossip_address ke) m ([], st)) (\<lambda>(gm, st1). Inr (send_all gm st1))"
  by (simp add: send_gossip_def gossip_address_def)

lemma gossip_address_step:
  assumes "gossip_address ke (a, keys) (m, st) = Inr (m', st')"
  shows "reading st st'" and "queued m b key ty p \<Longrightarrow> queued m' b key ty p"
    and "key \<in> set keys \<Longrightarrow> readable ke st key ty p \<Longrightarrow> queued m' a key ty p"
proof -
  let ?m = "umap_mod KeyRequest_default a (\<lambda>r. r\<lparr>kr_type := PUT\<rparr>) m"
  have e: "efold (gossip_key ke a) keys (?m, st) = Inr (m', st')" using assms by (simp add: gossip_address_def)
  show "reading st st'" using gossip_address_reading [OF e] by blast
  show "queued m' b key ty p" if "queued m b key ty p"
    using gossip_address_reading [OF e, of b key ty p] queued_mod [OF that] by (auto simp: put_for_def)
  show "queued m' a key ty p" if "key \<in> set keys" "readable ke st key ty p"
    by (rule gossip_address_queued [OF e that(1) _ that(2)]) simp
qed

lemma send_gossip_delivers:
  assumes "send_gossip ke m st = Inr st'" and "(a, keys) \<in> set m" and "key \<in> set keys" and "readable ke st key ty p"
  shows "\<exists>r. (a, Request r) \<in> set (sent st') \<and> put_for key ty p r"
proof -
  from assms(1) obtain gm st1 where e: "efold (gossip_address ke) m ([], st) = Inr (gm, st1)" and st': "st' = send_all gm st1"
    by (auto simp: send_gossip_eq ebind_Inr_iff)
  have "(\<lambda>(gm, s). queued gm a key ty p) (gm, st1)"
  proof (rule efold_establish [OF e assms(2), of "\<lambda>(gm, s). reading st s"])
    show "(\<lambda>(gm, s). reading st s) y" if "(\<lambda>(gm, s). reading st s) x" "gossip_address ke ak x = Inr y" for ak x y
      using that gossip_address_step(1) [of ke "fst ak" "snd ak" "fst x" "snd x" "fst y" "snd y"]
      by (auto simp: split_beta intro: reading_trans)
    show "(\<lambda>(gm, s). queued gm a key ty p) y" if "(\<lambda>(gm, s). reading st s) x" "gossip_address ke (a, keys) x = Inr y" for x y
      using that gossip_address_step(3) [of ke a keys "fst x" "snd x" "fst y" "snd y" key ty p]
        readable_reading [OF _ assms(4), of "snd x"] assms(3) by (auto simp: split_beta)
    show "(\<lambda>(gm, s). queued gm a key ty p) y" if "(\<lambda>(gm, s). queued gm a key ty p) x" "gossip_address ke ak x = Inr y" for ak x y
      using that gossip_address_step(2) [of ke "fst ak" "snd ak" "fst x" "snd x" "fst y" "snd y" a key ty p]
      by (auto simp: split_beta)
  qed simp
  then obtain r where "map_of gm a = Some r" "put_for key ty p r" by (auto simp: queued_def)
  then show ?thesis using st' map_of_SomeD [of gm a r] by (force simp: send_all_eq)
qed

lemma send_gossip_keeps:
  assumes "send_gossip ke m st = Inr st'"
  shows "\<exists>s fs. st' = st\<lparr>store := s, sent := sent st @ fs\<rparr> \<and> stores_grow (store st) s"
proof -
  from assms obtain gm st1 where e: "efold (gossip_address ke) m ([], st) = Inr (gm, st1)" and st': "st' = send_all gm st1"
    by (auto simp: send_gossip_eq ebind_Inr_iff)
  have "(\<lambda>(gm, s). reading st s) (gm, st1)"
    by (rule efold_invariant [OF e, of "\<lambda>(gm, s). reading st s"])
       (auto intro: reading_trans dest: gossip_address_step(1))
  then obtain s where "st1 = st\<lparr>store := s\<rparr>" "stores_grow (store st) s" by (auto simp: reading_def)
  with st' show ?thesis by (auto simp: send_all_eq)
qed

text \<open>A thread whose keys all have a lattice type can read them: no null serializer is met.\<close>

definition typed :: "kvs_state \<Rightarrow> bool" where
  "typed st \<longleftrightarrow> (\<forall>key prop. map_of (stored_key_map st) key = Some prop \<longrightarrow> kp_lattice prop \<noteq> NONE)"

lemma self_serializers_Some: "ty \<noteq> NONE \<Longrightarrow> \<exists>sr. self_serializers ke ty = Some sr"
  by (cases ty) (simp_all add: self_serializers_def serializers_def)

lemma efold_total:
  assumes "\<And>x a. x \<in> set xs \<Longrightarrow> P a \<Longrightarrow> \<exists>b. f x a = Inr b \<and> P b" and "P s"
  shows "\<exists>t. efold f xs s = Inr t \<and> P t"
  using assms
proof (induction xs arbitrary: s)
  case (Cons x xs)
  obtain b where b: "f x s = Inr b" "P b" using Cons.prems by (meson list.set_intros(1))
  with Cons.IH [of b] Cons.prems(1) show ?case by simp
qed simp

lemma send_gossip_returns:
  assumes "typed st"
  shows "\<exists>st'. send_gossip ke m st = Inr st'"
proof -
  have key: "\<exists>y. gossip_key ke a key (gm, s) = Inr y \<and> typed (snd y)" if "typed s" for a key gm s
  proof (cases "map_of (stored_key_map s) key")
    case (Some pr)
    then have "kp_lattice pr \<noteq> NONE" using that by (simp add: typed_def)
    from self_serializers_Some [OF this] obtain sr where sr: "self_serializers ke (kp_lattice pr) = Some sr" by blast
    obtain p e s1 where g: "Serializer_get (kv_pb ke) (kv_disk ke) sr key NO_ERROR (store s) = ((p, e), s1)" by (metis prod.exhaust)
    with Some sr that show ?thesis by (auto simp: gossip_key_def process_get_def typed_def)
  qed (use that in \<open>simp add: gossip_key_def\<close>)
  have "\<exists>y. efold (gossip_key ke a) keys x = Inr y \<and> typed (snd y)" if "typed (snd x)" for a keys x
    using that key by (intro efold_total [of _ "\<lambda>x. typed (snd x)"]) auto
  then have "\<exists>y. gossip_address ke ak x = Inr y \<and> typed (snd y)" if "typed (snd x)" for ak x
    using that by (auto simp: gossip_address_def split_beta)
  then have "\<exists>y. efold (gossip_address ke) m ([], st) = Inr y \<and> typed (snd y)"
    using assms by (intro efold_total [of _ "\<lambda>x. typed (snd x)"]) auto
  then show ?thesis by (auto simp: send_gossip_eq)
qed

section \<open>Periodic gossip\<close>

lemma add_keyset_get:
  "set (umap_get [] (add_keyset key threads m) a) =
     set (umap_get [] m a) \<union> (if a \<in> gossip_connect_address ` set threads then {key} else {})"
  unfolding add_keyset_def by (induction threads arbitrary: m) auto

lemma add_caches_get:
  "set (umap_get [] (fold (\<lambda>ip. umap_mod [] (cache_update_connect_address ip 0) (uset_insert key)) ips m) a) =
     set (umap_get [] m a) \<union> (if a \<in> (\<lambda>ip. cache_update_connect_address ip 0) ` set ips then {key} else {})"
  by (induction ips arbitrary: m) auto

lemma keyset_entry: "key \<in> set (umap_get [] m a) \<Longrightarrow> \<exists>keys. (a, keys) \<in> set m \<and> key \<in> set keys"
  by (cases "map_of m a") (auto simp: umap_get_def dest: map_of_SomeD)

text \<open>The addresses a changed key has to reach.\<close>

definition audience :: "kvs_env \<Rightarrow> kvs_state \<Rightarrow> Key \<Rightarrow> ServerThread list \<Rightarrow> Address set" where
  "audience ke st key ts =
     gossip_connect_address ` {th \<in> set ts. \<not> st_eq th (wt ke)} \<union>
     (\<lambda>ip. cache_update_connect_address ip 0) ` set (umap_get [] (key_to_cache_ips st) key)"

lemma gossip_targets_kept:
  assumes "gossip_targets ke key (m, st) = Inr (m', st')"
  shows "rings_kept st st' \<and> ring_ctx.more st' = ring_ctx.more st \<and> (\<forall>a. set (umap_get [] m a) \<subseteq> set (umap_get [] m' a))"
proof -
  from assms obtain ts ok where r: "responsible ke key kAllTiers st = Inr (ts, ok, st')"
    and m': "m' = (let m1 = (if ok then add_keyset key (filter (\<lambda>th. \<not> st_eq th (wt ke)) ts) m else m)
      in case map_of (key_to_cache_ips st') key of None \<Rightarrow> m1
         | Some ips \<Rightarrow> fold (\<lambda>ip. umap_mod [] (cache_update_connect_address ip 0) (uset_insert key)) ips m1)"
    by (auto simp: gossip_targets_def ebind_Inr_iff Let_def)
  have "set (umap_get [] m a) \<subseteq> set (umap_get [] m' a)" for a
    by (auto simp: m' Let_def add_caches_get add_keyset_get split: option.split)
  with responsible_kept [OF r] show ?thesis by blast
qed

lemma gossip_targets_known:
  assumes "known_owners ke st key kAllTiers ts"
  shows "\<exists>m' st'. gossip_targets ke key (m, st) = Inr (m', st') \<and> (\<forall>a\<in>audience ke st key ts. key \<in> set (umap_get [] m' a))"
proof -
  from responsible_known [OF assms] obtain st' where r: "responsible ke key kAllTiers st = Inr (ts, True, st')" by blast
  have caches: "key_to_cache_ips st' = key_to_cache_ips st" using more_fields(11) responsible_kept [OF r] by blast
  have get: "umap_get [] (key_to_cache_ips st) key = (case map_of (key_to_cache_ips st) key of None \<Rightarrow> [] | Some ips \<Rightarrow> ips)"
    by (simp add: umap_get_def)
  show ?thesis
    using r caches
    by (auto simp: gossip_targets_def Let_def add_caches_get add_keyset_get audience_def get split: option.splits)
qed

section \<open>Collecting and sending\<close>

text \<open>A task that hands keys over first collects, key by key, the addresses each key goes to, and then calls
  \<open>send_gossip\<close>. What a collecting step promises: it only asks the ring, forgets no entry, and, for a key with known
  owners, enters it for all its targets.\<close>

locale collects_targets =
  fixes collect :: "kvs_env \<Rightarrow> Key \<Rightarrow> AddressKeysetMap \<times> kvs_state \<Rightarrow> (AddressKeysetMap \<times> kvs_state) res"
    and targets :: "kvs_env \<Rightarrow> kvs_state \<Rightarrow> Key \<Rightarrow> ServerThread list \<Rightarrow> Address set"
  assumes collect_kept: "collect ke key (m, st) = Inr (m', st') \<Longrightarrow>
      rings_kept st st' \<and> ring_ctx.more st' = ring_ctx.more st \<and> (\<forall>a. set (umap_get [] m a) \<subseteq> set (umap_get [] m' a))"
    and collect_known: "known_owners ke st key kAllTiers ts \<Longrightarrow>
      \<exists>m' st'. collect ke key (m, st) = Inr (m', st') \<and> (\<forall>a\<in>targets ke st key ts. key \<in> set (umap_get [] m' a))"
    and targets_more: "ring_ctx.more st' = ring_ctx.more st \<Longrightarrow> targets ke st' key ts = targets ke st key ts"
begin

lemma collect_loop:
  assumes "efold (collect ke) keys ([], st) = Inr (m, st')"
  shows "rings_kept st st'" "ring_ctx.more st' = ring_ctx.more st"
    "key \<in> set keys \<Longrightarrow> known_owners ke st key kAllTiers ts \<Longrightarrow> a \<in> targets ke st key ts \<Longrightarrow> key \<in> set (umap_get [] m a)"
proof -
  let ?I = "\<lambda>x. rings_kept st (snd x) \<and> ring_ctx.more (snd x) = ring_ctx.more st"
  have step: "?I y" if "?I x" "collect ke k x = Inr y" for k x y
    using that collect_kept [of ke k "fst x" "snd x" "fst y" "snd y"] by (auto intro: rings_kept_trans)
  have "?I (m, st')" by (rule efold_invariant [OF assms, of ?I]) (simp, erule step, assumption)
  then show "rings_kept st st'" "ring_ctx.more st' = ring_ctx.more st" by simp_all
  assume key: "key \<in> set keys" and ts: "known_owners ke st key kAllTiers ts" and a: "a \<in> targets ke st key ts"
  have "key \<in> set (umap_get [] (fst (m, st')) a)"
  proof (rule efold_establish [OF assms key, of ?I])
    show "key \<in> set (umap_get [] (fst y) a)" if "?I x" "collect ke key x = Inr y" for x y
    proof -
      have "known_owners ke (snd x) key kAllTiers ts" using that(1) ts known_owners_kept by blast
      from collect_known [OF this, of "fst x"] that(2) targets_more [of "snd x" st] that(1) a show ?thesis by auto
    qed
    show "key \<in> set (umap_get [] (fst y) a)" if "key \<in> set (umap_get [] (fst x) a)" "collect ke k x = Inr y" for k x y
      using that collect_kept [of ke k "fst x" "snd x" "fst y" "snd y"] by auto
    show "?I y" if "?I x" "collect ke k x = Inr y" for k x y by (rule step [OF that])
  qed simp
  then show "key \<in> set (umap_get [] m a)" by simp
qed

lemma collect_total:
  assumes "\<forall>key\<in>set keys. \<exists>ts. known_owners ke st key kAllTiers ts"
  shows "\<exists>x. efold (collect ke) keys (m, st) = Inr x"
proof -
  have "\<exists>y. collect ke key x = Inr y \<and> rings_kept st (snd y)" if "key \<in> set keys" "rings_kept st (snd x)" for key x
  proof -
    from assms that(1) obtain ts where "known_owners ke st key kAllTiers ts" by blast
    with that(2) have "known_owners ke (snd x) key kAllTiers ts" using known_owners_kept by blast
    from collect_known [OF this, of "fst x"] obtain m' s where s: "collect ke key x = Inr (m', s)" by auto
    from collect_kept [of ke key "fst x" "snd x" m' s] s that(2) have "rings_kept st s" by (auto intro: rings_kept_trans)
    with s show ?thesis by simp
  qed
  from efold_total [of keys "\<lambda>x. rings_kept st (snd x)" "collect ke" "(m, st)", OF this] show ?thesis by auto
qed

lemma collect_and_send:
  assumes "typed st" and "\<forall>key\<in>set keys. \<exists>ts. known_owners ke st key kAllTiers ts"
  shows "\<exists>m st1 st2. efold (collect ke) keys ([], st) = Inr (m, st1) \<and> send_gossip ke m st1 = Inr st2 \<and>
    (\<forall>key ts a ty p. key \<in> set keys \<and> known_owners ke st key kAllTiers ts \<and> a \<in> targets ke st key ts \<and>
       readable ke st key ty p \<longrightarrow> (\<exists>r. (a, Request r) \<in> set (sent st2) \<and> put_for key ty p r))"
proof -
  from collect_total [OF assms(2)] obtain m st1 where e: "efold (collect ke) keys ([], st) = Inr (m, st1)" by fastforce
  note loop = collect_loop [OF e]
  note same = more_fields [OF loop(2)]
  have "typed st1" using assms(1) same(1) by (simp add: typed_def)
  from send_gossip_returns [OF this] obtain st2 where g: "send_gossip ke m st1 = Inr st2" by blast
  have "\<exists>r. (a, Request r) \<in> set (sent st2) \<and> put_for key ty p r"
    if key: "key \<in> set keys" and k: "known_owners ke st key kAllTiers ts" and a: "a \<in> targets ke st key ts"
      and r: "readable ke st key ty p" for key ts a ty p
  proof -
    from keyset_entry [OF loop(3) [OF key k a]] obtain ks where "(a, ks) \<in> set m" "key \<in> set ks" by blast
    moreover have "readable ke st1 key ty p" using r same(1,12) by (simp add: readable_def)
    ultimately show ?thesis using send_gossip_delivers [OF g] by blast
  qed
  with e g show ?thesis by blast
qed

end

interpretation gossiping: collects_targets gossip_targets audience
proof (unfold_locales, goal_cases)
  case (3 st' st ke key ts)
  then have "key_to_cache_ips st' = key_to_cache_ips st" by (rule more_fields)
  then show ?case by (simp add: audience_def)
qed (rule gossip_targets_kept gossip_targets_known, assumption)+

abbreviation new_owners :: "kvs_env \<Rightarrow> kvs_state \<Rightarrow> Key \<Rightarrow> ServerThread list \<Rightarrow> Address set" where
  "new_owners ke st key ts \<equiv> gossip_connect_address ` set ts"

interpretation departing: collects_targets depart_key new_owners
proof (unfold_locales, goal_cases)
  case (1 ke key m st m' st')
  then obtain ts ok where "responsible ke key kAllTiers st = Inr (ts, ok, st')"
    "m' = (if ok then add_keyset key ts m else m)"
    by (auto simp: depart_key_def ebind_Inr_iff)
  with responsible_kept show ?case by (auto simp: add_keyset_get)
next
  case (2 ke st key ts m)
  then obtain st' where "responsible ke key kAllTiers st = Inr (ts, True, st')" using responsible_known by blast
  then show ?case by (auto simp: depart_key_def add_keyset_get)
qed simp

text \<open>C3: gossip reaches every replica. When every changed key has known owners, the periodic
  gossip task returns, empties the set of changes, and has sent, for each changed key it can read, a put with the
  stored payload and lattice type to every other owner in every tier and to every cache that holds the key.\<close>

theorem gossip_reaches_every_owner:
  assumes "typed st" and "\<forall>key\<in>set (local_changeset st). \<exists>ts. known_owners ke st key kAllTiers ts"
  shows "\<exists>st'. gossip_round ke st = Inr st' \<and> local_changeset st' = [] \<and>
    (\<forall>key ts a ty p. key \<in> set (local_changeset st) \<and> known_owners ke st key kAllTiers ts \<and> a \<in> audience ke st key ts \<and>
       readable ke st key ty p \<longrightarrow> (\<exists>r. (a, Request r) \<in> set (sent st') \<and> put_for key ty p r))"
proof (cases "local_changeset st = []")
  case True
  then show ?thesis by (simp add: gossip_round_def)
next
  case False
  from gossiping.collect_and_send [OF assms] obtain m st1 st2 where
    e: "efold (gossip_targets ke) (local_changeset st) ([], st) = Inr (m, st1)" "send_gossip ke m st1 = Inr st2" and
    sent: "\<forall>key ts a ty p. key \<in> set (local_changeset st) \<and> known_owners ke st key kAllTiers ts \<and> a \<in> audience ke st key ts \<and>
       readable ke st key ty p \<longrightarrow> (\<exists>r. (a, Request r) \<in> set (sent st2) \<and> put_for key ty p r)" by blast
  have "gossip_round ke st = Inr (st2\<lparr>local_changeset := []\<rparr>)" using False e by (simp add: gossip_round_def)
  with sent show ?thesis by simp
qed

text \<open>Two servers own the key \<open>k\<close> and a cache holds it.\<close>

definition example_replicated :: kvs_state where
  "example_replicated = example_kvs\<lparr>
     key_replication_map := [(''k'', \<lparr>global_replication = [(MEMORY, 2), (DISK, 0)], local_replication = [(MEMORY, 1), (DISK, 1)]\<rparr>)],
     stored_key_map := [(''k'', \<lparr>kp_size = 9, kp_lattice = LWW\<rparr>)], local_changeset := [''k''],
     key_to_cache_ips := [(''k'', [''c''])],
     store := stores_empty\<lparr>lww_kvs := [(''k'', \<lparr>tv_timestamp = 5, tv_value = ''v''\<rparr>)]\<rparr>\<rparr>"

lemma example_replicated_typed: "typed example_replicated"
  by (simp add: typed_def example_replicated_def)

lemma example_replicated_owners:
  "known_owners example_kvs_env example_replicated ''k'' kAllTiers [mk_ServerThread3 ''A'' ''a'' 0, mk_ServerThread3 ''B'' ''bb'' 0]"
  by code_simp

lemma readableI:
  assumes "map_option kp_lattice (map_of (stored_key_map st) key) = Some ty" and "self_serializers ke ty = Some sr"
    and "fst (Serializer_get (kv_pb ke) (kv_disk ke) sr key NO_ERROR (store st)) = (p, NO_ERROR)"
  shows "readable ke st key ty p"
  using assms by (auto simp: readable_def)

lemma example_replicated_readable:
  "readable example_kvs_env example_replicated ''k'' LWW (serialize_ts example_codecs 5 ''v'')"
  by (rule readableI [where sr = MemoryLWWSerializer]) code_simp+

lemma audience_owner: "th \<in> set ts \<Longrightarrow> \<not> st_eq th (wt ke) \<Longrightarrow> gossip_connect_address th \<in> audience ke st key ts"
  by (simp add: audience_def)

lemma audience_cache:
  "ip \<in> set (umap_get [] (key_to_cache_ips st) key) \<Longrightarrow> cache_update_connect_address ip 0 \<in> audience ke st key ts"
  by (simp add: audience_def)

theorem gossip_reaches_every_owner_witness:
  "\<exists>st'. gossip_round example_kvs_env example_replicated = Inr st' \<and> local_changeset st' = [] \<and>
     (\<exists>r. (''tcp://bb:6250'', Request r) \<in> set (sent st') \<and> put_for ''k'' LWW (serialize_ts example_codecs 5 ''v'') r) \<and>
     (\<exists>r. (''tcp://c:7150'', Request r) \<in> set (sent st') \<and> put_for ''k'' LWW (serialize_ts example_codecs 5 ''v'') r)"
proof -
  let ?ts = "[mk_ServerThread3 ''A'' ''a'' 0, mk_ServerThread3 ''B'' ''bb'' 0]"
  have ch: "local_changeset example_replicated = [''k'']" by code_simp
  have eq: "gossip_connect_address (mk_ServerThread3 ''B'' ''bb'' 0) = ''tcp://bb:6250''"
    "cache_update_connect_address ''c'' 0 = ''tcp://c:7150''"
    and other: "\<not> st_eq (mk_ServerThread3 ''B'' ''bb'' 0) (wt example_kvs_env)"
    and cached: "''c'' \<in> set (umap_get [] (key_to_cache_ips example_replicated) ''k'')" by code_simp+
  have a: "''tcp://bb:6250'' \<in> audience example_kvs_env example_replicated ''k'' ?ts"
    "''tcp://c:7150'' \<in> audience example_kvs_env example_replicated ''k'' ?ts"
    using audience_owner [OF _ other, of ?ts] audience_cache [OF cached] by (simp_all add: eq)
  have "\<forall>key\<in>set (local_changeset example_replicated). \<exists>ts. known_owners example_kvs_env example_replicated key kAllTiers ts"
    using example_replicated_owners by (auto simp: ch)
  from gossip_reaches_every_owner [OF example_replicated_typed this] obtain st' where
    st': "gossip_round example_kvs_env example_replicated = Inr st'" "local_changeset st' = []" and
    all: "\<And>key ts a ty p. key \<in> set (local_changeset example_replicated) \<and>
       known_owners example_kvs_env example_replicated key kAllTiers ts \<and> a \<in> audience example_kvs_env example_replicated key ts \<and>
       readable example_kvs_env example_replicated key ty p \<Longrightarrow> \<exists>r. (a, Request r) \<in> set (sent st') \<and> put_for key ty p r"
    by blast
  have "''k'' \<in> set (local_changeset example_replicated)" by (simp add: ch)
  note sent = all [OF conjI [OF this conjI [OF example_replicated_owners conjI [OF _ example_replicated_readable]]]]
  from sent [OF a(1)] sent [OF a(2)] st' show ?thesis by blast
qed

section \<open>Departure\<close>

text \<open>The cluster as it is once this server has left.\<close>

definition without_self :: "kvs_env \<Rightarrow> kvs_state \<Rightarrow> kvs_state" where
  "without_self ke st =
     mod_global_ring (kSelfTier (kv_cfg ke)) (global_remove (kv_env ke) (public_ip (wt ke)) (private_ip (wt ke)) 0) st"

lemma tell_workers_eq: "\<exists>fs. tell_workers ke addr f st = st\<lparr>sent := sent st @ fs\<rparr>"
  unfolding tell_workers_def fold_send_eq by blast

lemma sent_update_kept: "rings_kept c (c\<lparr>sent := sent c @ fs\<rparr>)"
  by (simp add: rings_kept_def global_ring_def local_ring_def global_rep_def local_rep_def fun_eq_iff)

lemma sent_update_readable: "readable ke (st\<lparr>sent := fs\<rparr>) key ty p = readable ke st key ty p"
  by (simp add: readable_def)

lemma mod_global_ring_fields [simp]:
  "stored_key_map (mod_global_ring t f st) = stored_key_map st" "store (mod_global_ring t f st) = store st"
  "sent (mod_global_ring t f st) = sent st" "ring_ctx.more (mod_global_ring t f c) = ring_ctx.more c"
  "join_gossip_map (mod_global_ring t f st) = join_gossip_map st" "join_remove_set (mod_global_ring t f st) = join_remove_set st"
  by (simp_all add: mod_global_ring_def)

lemma readable_fields:
  "stored_key_map st' = stored_key_map st \<Longrightarrow> store st' = store st \<Longrightarrow> readable ke st' key ty p = readable ke st key ty p"
  by (simp add: readable_def)

lemma optional_sends_eq:
  "\<exists>fs. (if b then tell_workers ke addr f (fold (\<lambda>x. send (a1 x) f1) xs (fold (\<lambda>y. send (a2 y) f2) ys (fold (\<lambda>z. send (a3 z) f3) zs c)))
      else c) = c\<lparr>sent := sent c @ fs\<rparr>"
proof (cases b)
  case True
  then show ?thesis by (simp add: tell_workers_def fold_send_eq) (rule exI, rule refl)
next
  case False
  then show ?thesis by (intro exI [of _ "[]"]) simp
qed

lemma self_depart_eq:
  "\<exists>fs. self_depart_handler ke serialized st =
    ebind (efold (depart_key ke) (map fst (stored_key_map st)) ([], (without_self ke st)\<lparr>sent := sent st @ fs\<rparr>)) (\<lambda>(m, st3).
    ebind (send_gossip ke m st3) (\<lambda>st4.
      Inr (send serialized (Text (public_ip (wt ke) @ ''_'' @ private_ip (wt ke) @ ''_'' @ Tier_Name (kSelfTier (kv_cfg ke)))) st4)))"
proof -
  obtain fs where "(if tid (wt ke) = 0
       then tell_workers ke self_depart_connect_address (Text serialized)
              (fold (\<lambda>address. send (mt_notify_connect_address address) (Text (''depart:'' @
                    depart_message (kSelfTier (kv_cfg ke)) (public_ip (wt ke)) (private_ip (wt ke))))) (monitoring_ips ke)
                (fold (\<lambda>address. send (rt_notify_connect_address (mk_RoutingThread address 0)) (Text (''depart:'' @
                    depart_message (kSelfTier (kv_cfg ke)) (public_ip (wt ke)) (private_ip (wt ke))))) (routing_ips ke)
                  (fold (\<lambda>th. send (node_depart_connect_address th)
                      (Text (depart_message (kSelfTier (kv_cfg ke)) (public_ip (wt ke)) (private_ip (wt ke)))))
                    (concat (map (\<lambda>(t, r). unique_servers r) (global_hash_rings (without_self ke st)))) (without_self ke st))))
       else without_self ke st) = (without_self ke st)\<lparr>sent := sent (without_self ke st) @ fs\<rparr>"
    by (rule exE [OF optional_sends_eq]) (rule that)
  then show ?thesis
    unfolding self_depart_handler_def Let_def without_self_def [symmetric] by (intro exI [of _ fs]) (simp add: without_self_def)
qed

text \<open>C8: a departing server hands every key over. If the owners of its keys are known once it is
  off the ring, the handler returns, has sent each key it can read, with its payload and lattice type, to every
  thread that owns the key in the remaining cluster, in every tier, and then reports to the node that asked it to leave.\<close>

theorem depart_hands_over_every_key:
  assumes "typed st" and "\<forall>key\<in>fst ` set (stored_key_map st). \<exists>ts. known_owners ke (without_self ke st) key kAllTiers ts"
  shows "\<exists>st'. self_depart_handler ke serialized st = Inr st' \<and>
    last (sent st') = (serialized, Text (public_ip (wt ke) @ ''_'' @ private_ip (wt ke) @ ''_'' @ Tier_Name (kSelfTier (kv_cfg ke)))) \<and>
    (\<forall>key ts th ty p. known_owners ke (without_self ke st) key kAllTiers ts \<and> th \<in> set ts \<and> readable ke st key ty p \<longrightarrow>
       (\<exists>r. (gossip_connect_address th, Request r) \<in> set (sent st') \<and> put_for key ty p r))"
proof -
  from self_depart_eq [of ke serialized st] obtain fs where h: "self_depart_handler ke serialized st =
    ebind (efold (depart_key ke) (map fst (stored_key_map st)) ([], (without_self ke st)\<lparr>sent := sent st @ fs\<rparr>)) (\<lambda>(m, st3).
    ebind (send_gossip ke m st3) (\<lambda>st4.
      Inr (send serialized (Text (public_ip (wt ke) @ ''_'' @ private_ip (wt ke) @ ''_'' @ Tier_Name (kSelfTier (kv_cfg ke)))) st4)))"
    by blast
  let ?st = "(without_self ke st)\<lparr>sent := sent st @ fs\<rparr>"
  have kept: "rings_kept (without_self ke st) ?st" using sent_update_kept [of "without_self ke st" fs] by (simp add: without_self_def)
  have "typed ?st" using assms(1) by (simp add: typed_def without_self_def)
  moreover have "\<forall>key\<in>set (map fst (stored_key_map st)). \<exists>ts. known_owners ke ?st key kAllTiers ts"
    using assms(2) known_owners_kept [OF kept] by simp
  ultimately obtain m st1 st2 where e: "efold (depart_key ke) (map fst (stored_key_map st)) ([], ?st) = Inr (m, st1)"
    "send_gossip ke m st1 = Inr st2" and
    sent: "\<forall>key ts a ty p. key \<in> set (map fst (stored_key_map st)) \<and> known_owners ke ?st key kAllTiers ts \<and>
       a \<in> gossip_connect_address ` set ts \<and> readable ke ?st key ty p \<longrightarrow> (\<exists>r. (a, Request r) \<in> set (sent st2) \<and> put_for key ty p r)"
    using departing.collect_and_send [of ?st "map fst (stored_key_map st)" ke] by blast
  have "\<exists>r. (gossip_connect_address th, Request r) \<in> set (sent st2) \<and> put_for key ty p r"
    if "known_owners ke (without_self ke st) key kAllTiers ts" "th \<in> set ts" "readable ke st key ty p" for key ts th ty p
  proof -
    have "key \<in> set (map fst (stored_key_map st))" using that(3) by (force simp: readable_def dest: map_of_SomeD)
    moreover have "readable ke ?st key ty p" using that(3) by (simp add: readable_def without_self_def)
    ultimately show ?thesis using sent that(1,2) known_owners_kept [OF kept] by blast
  qed
  with h e show ?thesis by auto
qed


definition example_single :: kvs_state where
  "example_single = example_replicated\<lparr>key_replication_map := init_replication example_config ''k'' []\<rparr>"

lemma example_single_typed: "typed example_single"
  by (simp add: typed_def example_single_def example_replicated_def)

lemma example_single_readable: "readable example_kvs_env example_single ''k'' LWW (serialize_ts example_codecs 5 ''v'')"
  by (rule readableI [where sr = MemoryLWWSerializer]) code_simp+

theorem depart_hands_over_every_key_witness:
  "\<exists>st'. self_depart_handler example_kvs_env ''tcp://m:6700'' example_single = Inr st' \<and>
     last (sent st') = (''tcp://m:6700'', Text ''A_a_MEMORY'') \<and>
     (\<exists>r. (''tcp://bb:6250'', Request r) \<in> set (sent st') \<and> put_for ''k'' LWW (serialize_ts example_codecs 5 ''v'') r)"
proof -
  let ?th = "mk_ServerThread3 ''B'' ''bb'' 0"
  have stored: "map fst (stored_key_map example_single) = [''k'']"
    and owners: "known_owners example_kvs_env (without_self example_kvs_env example_single) ''k'' kAllTiers [?th]"
    and eq: "gossip_connect_address ?th = ''tcp://bb:6250''"
      "public_ip (wt example_kvs_env) @ ''_'' @ private_ip (wt example_kvs_env) @ ''_'' @ Tier_Name (kSelfTier (kv_cfg example_kvs_env)) = ''A_a_MEMORY''"
    by code_simp+
  have "\<forall>key\<in>fst ` set (stored_key_map example_single).
      \<exists>ts. known_owners example_kvs_env (without_self example_kvs_env example_single) key kAllTiers ts"
    using owners by (metis empty_iff empty_set image_set insert_iff list.simps(15) stored)
  from depart_hands_over_every_key [OF example_single_typed this, of "''tcp://m:6700''", unfolded eq(2)]
  obtain st' where st': "self_depart_handler example_kvs_env ''tcp://m:6700'' example_single = Inr st'"
      "last (sent st') = (''tcp://m:6700'', Text ''A_a_MEMORY'')"
    and all: "\<And>key ts th ty p. known_owners example_kvs_env (without_self example_kvs_env example_single) key kAllTiers ts \<and>
      th \<in> set ts \<and> readable example_kvs_env example_single key ty p \<Longrightarrow>
      \<exists>r. (gossip_connect_address th, Request r) \<in> set (sent st') \<and> put_for key ty p r" by blast
  from all [OF conjI [OF owners conjI [OF _ example_single_readable]], of ?th] st' eq(1) show ?thesis by auto
qed

end
