(* ===== verification/Kvs_Join.thy ===== *)
theory Kvs_Join
  imports Kvs_Gossip
begin

text \<open>
  A server joins: \<open>node_join_handler\<close> schedules the keys that have to move, \<open>redistribute\<close> sends and
  removes them.
\<close>

section \<open>Redistribution\<close>

lemma fold_umap_erase: "fold umap_erase ks m = filter (\<lambda>(a, v). a \<notin> set ks) m"
proof (induction ks arbitrary: m)
  case (Cons k ks)
  have "umap_erase k m = filter (\<lambda>(a, v). a \<noteq> k) m"
    unfolding umap_erase_def AList.delete_eq by (rule filter_cong) auto
  with Cons show ?case by (simp add: split_beta conj_commute)
qed simp

lemma remove_key_known:
  assumes "map_of (stored_key_map st) key = Some pr" and "kp_lattice pr \<noteq> NONE"
  shows "\<exists>s. remove_key ke key st = Inr (st\<lparr>store := s, stored_key_map := umap_erase key (stored_key_map st)\<rparr>)"
  using assms self_serializers_Some [of "kp_lattice pr" ke] by (auto simp: remove_key_def umap_get_def)

lemma remove_keys:
  assumes "distinct ks" and "typed st" and "set ks \<subseteq> dom (map_of (stored_key_map st))"
  shows "\<exists>s m. efold (remove_key ke) ks st = Inr (st\<lparr>store := s, stored_key_map := m\<rparr>) \<and>
    map_of m = (\<lambda>k. if k \<in> set ks then None else map_of (stored_key_map st) k)"
  using assms
proof (induction ks arbitrary: st)
  case Nil
  show ?case by (intro exI [of _ "store st"] exI [of _ "stored_key_map st"]) simp
next
  case (Cons k ks)
  from Cons.prems obtain pr where pr: "map_of (stored_key_map st) k = Some pr" by auto
  with Cons.prems(2) have "kp_lattice pr \<noteq> NONE" by (simp add: typed_def)
  from remove_key_known [OF pr this] obtain s where
    s: "remove_key ke k st = Inr (st\<lparr>store := s, stored_key_map := umap_erase k (stored_key_map st)\<rparr>)" by blast
  let ?st = "st\<lparr>store := s, stored_key_map := umap_erase k (stored_key_map st)\<rparr>"
  have "typed ?st" using Cons.prems(2) by (auto simp: typed_def)
  moreover have "set ks \<subseteq> dom (map_of (stored_key_map ?st))" using Cons.prems(1,3) by auto
  ultimately obtain s' m where e: "efold (remove_key ke) ks ?st = Inr (?st\<lparr>store := s', stored_key_map := m\<rparr>)"
    and m: "map_of m = (\<lambda>j. if j \<in> set ks then None else map_of (stored_key_map ?st) j)"
    using Cons.IH [of ?st] Cons.prems(1) unfolding distinct.simps by blast
  from m have "map_of m = (\<lambda>j. if j \<in> set (k # ks) then None else map_of (stored_key_map st) j)"
    by (auto simp: fun_eq_iff)
  with e s show ?case by (intro exI [of _ s'] exI [of _ m]) simp
qed

text \<open>When no address is owed more than fifty keys, one round sends them all and then forgets the
  keys that have moved away.\<close>

lemma redistribute_all:
  assumes "typed st" and "join_gossip_map st \<noteq> []" and "\<forall>(a, keys)\<in>set (join_gossip_map st). length keys \<le> 50"
    and "distinct (join_remove_set st)" and "set (join_remove_set st) \<subseteq> dom (map_of (stored_key_map st))"
  shows "\<exists>st'. redistribute ke st = Inr st' \<and> join_gossip_map st' = [] \<and> join_remove_set st' = [] \<and>
    map_of (stored_key_map st') = (\<lambda>k. if k \<in> set (join_remove_set st) then None else map_of (stored_key_map st) k) \<and>
    (\<forall>a keys key ty p. (a, keys) \<in> set (join_gossip_map st) \<and> key \<in> set keys \<and> readable ke st key ty p \<longrightarrow>
       (\<exists>r. (a, Request r) \<in> set (sent st') \<and> put_for key ty p r))"
proof -
  let ?akm = "filter (\<lambda>(a, keys). keys \<noteq> []) (map (\<lambda>(a, keys). (a, take DATA_REDISTRIBUTE_THRESHOLD keys)) (join_gossip_map st))"
  let ?gone = "map fst (filter (\<lambda>(a, keys). drop DATA_REDISTRIBUTE_THRESHOLD keys = []) (join_gossip_map st))"
  let ?st1 = "st\<lparr>join_gossip_map := []\<rparr>"
  have "filter (\<lambda>(a, keys). drop DATA_REDISTRIBUTE_THRESHOLD keys = []) (join_gossip_map st) = join_gossip_map st"
    using assms(3) by (auto simp: DATA_REDISTRIBUTE_THRESHOLD_def intro!: filter_True)
  then have erased: "fold umap_erase ?gone (join_gossip_map st) = []"
    by (auto simp: fold_umap_erase filter_empty_conv image_iff)
  have "typed ?st1" using assms(1) by (simp add: typed_def)
  from send_gossip_returns [OF this] obtain st2 where g: "send_gossip ke ?akm ?st1 = Inr st2" by blast
  from send_gossip_keeps [OF g] obtain s fs where st2: "st2 = ?st1\<lparr>store := s, sent := sent st @ fs\<rparr>" by auto
  have stored: "stored_key_map st2 = stored_key_map st" by (simp add: st2)
  have "typed st2" using assms(1) by (simp add: typed_def stored)
  then obtain s' m where r: "efold (remove_key ke) (join_remove_set st) st2 = Inr (st2\<lparr>store := s', stored_key_map := m\<rparr>)"
    and m: "map_of m = (\<lambda>k. if k \<in> set (join_remove_set st) then None else map_of (stored_key_map st) k)"
    using remove_keys [OF assms(4), of st2 ke] assms(5) unfolding stored by blast
  let ?st' = "st2\<lparr>store := s', stored_key_map := m, join_remove_set := []\<rparr>"
  have eq: "redistribute ke st = Inr ?st'"
    using assms(2) erased g r st2 by (simp add: redistribute_def Let_def)
  have "\<exists>r. (a, Request r) \<in> set (sent ?st') \<and> put_for key ty p r"
    if "(a, keys) \<in> set (join_gossip_map st)" "key \<in> set keys" "readable ke st key ty p" for a keys key ty p
  proof -
    have "(a, keys) \<in> set ?akm" using that(1,2) assms(3) by (force simp: DATA_REDISTRIBUTE_THRESHOLD_def)
    moreover have "readable ke ?st1 key ty p" using that(3) by (simp add: readable_def)
    ultimately show ?thesis using send_gossip_delivers [OF g _ that(2)] by simp
  qed
  with eq m st2 show ?thesis by (intro exI [of _ ?st']) auto
qed


text \<open>An address that is owed more than fifty keys stays in the map with all of them, because the source
  erases the sent keys from a copy.\<close>

lemma owed_stays:
  assumes "umap_wf m" and "(a, keys) \<in> set m" and "length keys > 50"
  shows "(a, keys) \<in> set (fold umap_erase (map fst (filter (\<lambda>(a, keys). drop DATA_REDISTRIBUTE_THRESHOLD keys = []) m)) m) \<and>
    umap_wf (fold umap_erase (map fst (filter (\<lambda>(a, keys). drop DATA_REDISTRIBUTE_THRESHOLD keys = []) m)) m)"
proof -
  have "ks = keys" if "(a, ks) \<in> set m" for ks
    using that assms(1,2) by (metis map_of_is_SomeI option.inject)
  then have "a \<notin> set (map fst (filter (\<lambda>(a, keys). drop DATA_REDISTRIBUTE_THRESHOLD keys = []) m))"
    using assms(3) by (auto simp: DATA_REDISTRIBUTE_THRESHOLD_def)
  then show ?thesis using assms(1,2) by (auto simp: fold_umap_erase distinct_map_filter)
qed

lemma redistribute_stuck:
  assumes "redistribute ke st = Inr st'" and "umap_wf (join_gossip_map st)" and "(a, keys) \<in> set (join_gossip_map st)"
    and "length keys > 50"
  shows "(a, keys) \<in> set (join_gossip_map st') \<and> umap_wf (join_gossip_map st') \<and> join_remove_set st' = join_remove_set st \<and>
    stored_key_map st' = stored_key_map st"
proof -
  let ?akm = "filter (\<lambda>(a, keys). keys \<noteq> []) (map (\<lambda>(a, keys). (a, take DATA_REDISTRIBUTE_THRESHOLD keys)) (join_gossip_map st))"
  let ?gone = "map fst (filter (\<lambda>(a, keys). drop DATA_REDISTRIBUTE_THRESHOLD keys = []) (join_gossip_map st))"
  let ?m = "fold umap_erase ?gone (join_gossip_map st)"
  from owed_stays [OF assms(2-4)] have m: "(a, keys) \<in> set ?m" "umap_wf ?m" by blast+
  then have "?m \<noteq> []" by auto
  from assms(3) have "join_gossip_map st \<noteq> []" by auto
  with assms(1) obtain st2 where g: "send_gossip ke ?akm (st\<lparr>join_gossip_map := ?m\<rparr>) = Inr st2"
    and e: "(if join_gossip_map st2 = [] then ebind (efold (remove_key ke) (join_remove_set st2) st2)
        (\<lambda>st3. Inr (st3\<lparr>join_remove_set := []\<rparr>)) else Inr st2) = Inr st'"
    by (auto simp: redistribute_def Let_def ebind_Inr_iff)
  from send_gossip_keeps [OF g] have "join_gossip_map st2 = ?m" "join_remove_set st2 = join_remove_set st"
    "stored_key_map st2 = stored_key_map st" by auto
  with e m \<open>?m \<noteq> []\<close> show ?thesis by auto
qed

section \<open>A server joins\<close>

lemma colon_notin_int: "CHR '':'' \<notin> set (int_to_string n)"
  by (auto simp: int_to_string_def dest!: nat_to_string_digits digit_not_special)

lemma int_to_string_nonempty: "int_to_string n \<noteq> []"
  by (simp add: int_to_string_def)

lemma colon_notin_tier: "CHR '':'' \<notin> set (Tier_Name t)"
  by (cases t) (simp_all add: Tier_Name_def)

lemma join_message_split:
  assumes "CHR '':'' \<notin> set pub" and "CHR '':'' \<notin> set priv"
  shows "split_string (join_message tier pub priv n) (CHR '':'') = [Tier_Name tier, pub, priv, int_to_string n]"
  using assms colon_notin_int [of n]
  by (simp add: join_message_def split_string_piece colon_notin_tier split_string_last int_to_string_nonempty)

definition joined :: "kvs_env \<Rightarrow> Tier \<Rightarrow> Address \<Rightarrow> Address \<Rightarrow> int \<Rightarrow> kvs_state \<Rightarrow> kvs_state" where
  "joined ke tier pub priv n st =
     mod_global_ring tier (\<lambda>_. snd (global_insert (kv_env ke) pub priv n 0 (global_ring st tier))) st"

lemma optional_join_sends_eq:
  "\<exists>fs. (if b then tell_workers ke addr f (fold (\<lambda>x. send (a1 x) f1) xs (send a2 f2 c)) else c) = c\<lparr>sent := sent c @ fs\<rparr>"
proof (cases b)
  case True
  then show ?thesis by (simp add: tell_workers_def fold_send_eq) (simp add: send_def, rule exI, rule refl)
next
  case False
  then show ?thesis by (intro exI [of _ "[]"]) simp
qed

lemma node_join_handler_eq:
  assumes "CHR '':'' \<notin> set pub" and "CHR '':'' \<notin> set priv" and "- (2 ^ 31) \<le> n" "n < 2 ^ 31"
    and "fst (global_insert (kv_env ke) pub priv n 0 (global_ring st tier))" and "tier = kSelfTier (kv_cfg ke)"
  shows "\<exists>fs. node_join_handler ke (join_message tier pub priv n) st =
    efold (node_join_key ke priv n) (map fst (stored_key_map st)) ((joined ke tier pub priv n st)\<lparr>sent := sent st @ fs\<rparr>)"
proof -
  let ?msg = "join_message tier pub priv n" and ?st1 = "joined ke tier pub priv n st" and ?self = "wt ke"
  obtain fs where fs: "(if tid ?self = 0
       then tell_workers ke node_join_connect_address (Text ?msg)
              (fold (\<lambda>th. send (node_join_connect_address th) (Text ?msg))
                 (filter (\<lambda>th. private_ip th \<noteq> private_ip ?self \<and> private_ip th \<noteq> priv)
                    (concat (map (\<lambda>(t, r). unique_servers r) (global_hash_rings ?st1))))
                 (send (node_join_connect_address (mk_ServerThread3 pub priv 0))
                    (Text (join_message (kSelfTier (kv_cfg ke)) (public_ip ?self) (private_ip ?self) (self_join_count ke))) ?st1))
       else ?st1) = ?st1\<lparr>sent := sent ?st1 @ fs\<rparr>"
    by (rule exE [OF optional_join_sends_eq]) (rule that)
  obtain b ring where ins: "global_insert (kv_env ke) pub priv n 0 (global_ring st tier) = (b, ring)" by fastforce
  with assms(5) have b by simp
  have st1: "?st1 = mod_global_ring tier (\<lambda>_. ring) st" by (simp add: joined_def ins)
  have v: "vec_at [Tier_Name tier, pub, priv, int_to_string n] 0 = Inr (Tier_Name tier)"
    "vec_at [Tier_Name tier, pub, priv, int_to_string n] 1 = Inr pub"
    "vec_at [Tier_Name tier, pub, priv, int_to_string n] 2 = Inr priv"
    "vec_at [Tier_Name tier, pub, priv, int_to_string n] 3 = Inr (int_to_string n)"
    by (simp_all add: vec_at_def numeral_2_eq_2 numeral_3_eq_3)
  have n: "stoi (int_to_string n) = Inr n" using assms(3,4) by (simp add: stoi_int_to_string)
  have "node_join_handler ke ?msg st =
      efold (node_join_key ke priv n) (map fst (stored_key_map (?st1\<lparr>sent := sent ?st1 @ fs\<rparr>))) (?st1\<lparr>sent := sent ?st1 @ fs\<rparr>)"
    unfolding node_join_handler_def join_message_split [OF assms(1,2)] Let_def v ebind_simps Tier_Parse_Name n ins split_conv
      st1 [symmetric] fs using \<open>b\<close> assms(6) by simp
  then show ?thesis by (intro exI [of _ fs]) (simp add: joined_def)
qed


definition keysets_in :: "Key set \<Rightarrow> AddressKeysetMap \<Rightarrow> bool" where
  "keysets_in K m \<longleftrightarrow> umap_wf m \<and> (\<forall>a keys. map_of m a = Some keys \<longrightarrow> distinct keys \<and> set keys \<subseteq> K)"

lemma keysets_in_add: "keysets_in K m \<Longrightarrow> key \<in> K \<Longrightarrow> keysets_in K (add_keyset key ts m)"
  unfolding add_keyset_def
proof (induction ts arbitrary: m)
  case (Cons th ts)
  let ?a = "gossip_connect_address th"
  have "distinct (umap_get [] m ?a) \<and> set (umap_get [] m ?a) \<subseteq> K"
    using Cons.prems(1) by (cases "map_of m ?a") (auto simp: umap_get_def keysets_in_def)
  then have "distinct (uset_insert key (umap_get [] m ?a)) \<and> set (uset_insert key (umap_get [] m ?a)) \<subseteq> K"
    using Cons.prems(2) by (simp add: wf_intros)
  then have "keysets_in K (umap_mod [] ?a (uset_insert key) m)"
    using Cons.prems(1) by (auto simp: keysets_in_def umap_wf_mod)
  with Cons show ?case by simp
qed simp

text \<open>What the loop over the stored keys keeps when a new server joins.\<close>

definition join_inv :: "kvs_env \<Rightarrow> kvs_state \<Rightarrow> Key list \<Rightarrow> kvs_state \<Rightarrow> bool" where
  "join_inv ke st keys st' \<longleftrightarrow> rings_kept st st' \<and> stored_key_map st' = stored_key_map st \<and> store st' = store st \<and>
     keysets_in (set keys) (join_gossip_map st') \<and> distinct (join_remove_set st') \<and>
     (\<forall>key\<in>set (join_remove_set st'). key \<in> set keys \<and>
        (\<forall>ts. known_owners ke st key (kSelfTierIdVector (kv_cfg ke)) ts \<longrightarrow> \<not> sset_has ts (wt ke)))"

lemma node_join_key_known:
  assumes "known_owners ke st key (kSelfTierIdVector (kv_cfg ke)) ts"
  shows "\<exists>st1. rings_kept st st1 \<and> ring_ctx.more st1 = ring_ctx.more st \<and> node_join_key ke priv 0 key st =
    Inr (if sset_has ts (wt ke) then st1
         else st1\<lparr>join_remove_set := uset_insert key (join_remove_set st), join_gossip_map := add_keyset key ts (join_gossip_map st)\<rparr>)"
proof -
  from responsible_known [OF assms] obtain st1 where r: "responsible ke key (kSelfTierIdVector (kv_cfg ke)) st = Inr (ts, True, st1)"
    by blast
  from responsible_kept [OF r] have more: "ring_ctx.more st1 = ring_ctx.more st" by simp
  show ?thesis
    using r responsible_kept [OF r] more_fields(7,8) [OF more] by (intro exI [of _ st1]) (simp add: node_join_key_def)
qed

lemma join_fields_kept: "rings_kept c (c\<lparr>join_remove_set := r, join_gossip_map := g\<rparr>)"
  by (simp add: rings_kept_def global_ring_def local_ring_def global_rep_def local_rep_def fun_eq_iff)

lemma node_join_key_step:
  assumes inv: "join_inv ke st keys x" and key: "key \<in> set keys"
    and ts: "known_owners ke st key (kSelfTierIdVector (kv_cfg ke)) ts"
  shows "\<exists>y. node_join_key ke priv 0 key x = Inr y \<and> join_inv ke st keys y \<and>
    set (join_remove_set x) \<subseteq> set (join_remove_set y) \<and>
    (\<forall>a. set (umap_get [] (join_gossip_map x) a) \<subseteq> set (umap_get [] (join_gossip_map y) a)) \<and>
    (\<not> sset_has ts (wt ke) \<longrightarrow> key \<in> set (join_remove_set y) \<and>
       (\<forall>th\<in>set ts. key \<in> set (umap_get [] (join_gossip_map y) (gossip_connect_address th))))"
proof -
  have kept: "rings_kept st x" using inv by (simp add: join_inv_def)
  from known_owners_kept [OF kept] ts have "known_owners ke x key (kSelfTierIdVector (kv_cfg ke)) ts" by simp
  from node_join_key_known [OF this, of priv] obtain x1 where x1: "rings_kept x x1" "ring_ctx.more x1 = ring_ctx.more x"
    "node_join_key ke priv 0 key x = Inr (if sset_has ts (wt ke) then x1
         else x1\<lparr>join_remove_set := uset_insert key (join_remove_set x), join_gossip_map := add_keyset key ts (join_gossip_map x)\<rparr>)"
    by blast
  have kept1: "rings_kept st x1" using kept x1(1) by (rule rings_kept_trans)
  note same = more_fields [OF x1(2)]
  show ?thesis
  proof (cases "sset_has ts (wt ke)")
    case True
    with x1(3) inv kept1 same show ?thesis by (simp add: join_inv_def)
  next
    case False
    let ?y = "x1\<lparr>join_remove_set := uset_insert key (join_remove_set x), join_gossip_map := add_keyset key ts (join_gossip_map x)\<rparr>"
    have "us = ts" if "known_owners ke st key (kSelfTierIdVector (kv_cfg ke)) us" for us
      using that ts by (auto simp: known_owners_def split: if_splits)
    then have "join_inv ke st keys ?y"
      using inv key False rings_kept_trans [OF kept1 join_fields_kept] same
      by (auto simp: join_inv_def keysets_in_add wf_intros)
    with x1(3) False show ?thesis by (auto simp: add_keyset_get)
  qed
qed

lemma node_join_loop:
  assumes all: "\<forall>key\<in>set keys. \<exists>ts. known_owners ke st key (kSelfTierIdVector (kv_cfg ke)) ts"
    and "join_inv ke st keys st"
  shows "\<exists>st'. efold (node_join_key ke priv 0) keys st = Inr st' \<and> join_inv ke st keys st' \<and>
    (\<forall>key ts. key \<in> set keys \<and> known_owners ke st key (kSelfTierIdVector (kv_cfg ke)) ts \<and> \<not> sset_has ts (wt ke) \<longrightarrow>
       key \<in> set (join_remove_set st') \<and> (\<forall>th\<in>set ts. key \<in> set (umap_get [] (join_gossip_map st') (gossip_connect_address th))))"
proof -
  have step: "\<exists>y. node_join_key ke priv 0 key x = Inr y \<and> join_inv ke st keys y" if "key \<in> set keys" "join_inv ke st keys x" for key x
    using node_join_key_step [OF that(2,1)] all that(1) by blast
  from efold_total [of keys "join_inv ke st keys" "node_join_key ke priv 0" st, OF step] assms(2)
  obtain st' where e: "efold (node_join_key ke priv 0) keys st = Inr st'" "join_inv ke st keys st'" by blast
  have "key \<in> set (join_remove_set st') \<and> (\<forall>th\<in>set ts. key \<in> set (umap_get [] (join_gossip_map st') (gossip_connect_address th)))"
    if key: "key \<in> set keys" and ts: "known_owners ke st key (kSelfTierIdVector (kv_cfg ke)) ts" and no: "\<not> sset_has ts (wt ke)" for key ts
  proof (rule efold_establish [OF e(1) key, of "join_inv ke st keys"])
    fix k x y assume k: "k \<in> set keys" "join_inv ke st keys x" "node_join_key ke priv 0 k x = Inr y"
    from all k(1) obtain us where us: "known_owners ke st k (kSelfTierIdVector (kv_cfg ke)) us" by blast
    note s = node_join_key_step [OF k(2,1) us, of priv, unfolded k(3)]
    from s show "join_inv ke st keys y" by simp
    from s show "key \<in> set (join_remove_set y) \<and> (\<forall>th\<in>set ts. key \<in> set (umap_get [] (join_gossip_map y) (gossip_connect_address th)))"
      if "key \<in> set (join_remove_set x) \<and> (\<forall>th\<in>set ts. key \<in> set (umap_get [] (join_gossip_map x) (gossip_connect_address th)))"
      using that by auto
  next
    fix x y assume "join_inv ke st keys x" "node_join_key ke priv 0 key x = Inr y"
    with node_join_key_step [OF _ key ts, of x priv] no
    show "key \<in> set (join_remove_set y) \<and> (\<forall>th\<in>set ts. key \<in> set (umap_get [] (join_gossip_map y) (gossip_connect_address th)))"
      by auto
  qed (rule assms(2))
  with e show ?thesis by blast
qed


lemma keysets_in_length:
  assumes "keysets_in (set ks) m" and "(a, keys) \<in> set m"
  shows "length keys \<le> length ks"
proof -
  from assms have "distinct keys" "set keys \<subseteq> set ks" by (auto simp: keysets_in_def)
  then show ?thesis by (metis card_length card_mono distinct_card finite_set le_trans)
qed

text \<open>What the join handler leaves to be redistributed.\<close>

definition scheduled :: "kvs_env \<Rightarrow> (Key \<Rightarrow> ServerThread list \<Rightarrow> bool) \<Rightarrow> kvs_state \<Rightarrow> kvs_state \<Rightarrow> bool" where
  "scheduled ke owned st st1 \<longleftrightarrow> stored_key_map st1 = stored_key_map st \<and> store st1 = store st \<and>
     keysets_in (fst ` set (stored_key_map st)) (join_gossip_map st1) \<and> distinct (join_remove_set st1) \<and>
     set (join_remove_set st1) \<subseteq> fst ` set (stored_key_map st) \<and>
     (\<forall>key ts. key \<in> fst ` set (stored_key_map st) \<and> owned key ts \<longrightarrow>
        (if sset_has ts (wt ke) then key \<notin> set (join_remove_set st1)
         else key \<in> set (join_remove_set st1) \<and>
           (\<forall>th\<in>set ts. key \<in> set (umap_get [] (join_gossip_map st1) (gossip_connect_address th)))))"

lemma node_join_schedules:
  assumes "join_gossip_map st = []" and "join_remove_set st = []"
    and "CHR '':'' \<notin> set pub" and "CHR '':'' \<notin> set priv" and tier: "tier = kSelfTier (kv_cfg ke)"
    and new: "fst (global_insert (kv_env ke) pub priv 0 0 (global_ring st tier))"
    and all: "\<forall>key\<in>fst ` set (stored_key_map st). \<exists>ts. known_owners ke (joined ke tier pub priv 0 st) key (kSelfTierIdVector (kv_cfg ke)) ts"
  shows "\<exists>st1. node_join_handler ke (join_message tier pub priv 0) st = Inr st1 \<and>
    scheduled ke (\<lambda>key. known_owners ke (joined ke tier pub priv 0 st) key (kSelfTierIdVector (kv_cfg ke))) st st1"
proof -
  let ?keys = "map fst (stored_key_map st)" and ?T = "kSelfTierIdVector (kv_cfg ke)"
  from node_join_handler_eq [OF assms(3,4) _ _ new tier] obtain fs where
    h: "node_join_handler ke (join_message tier pub priv 0) st =
      efold (node_join_key ke priv 0) ?keys ((joined ke tier pub priv 0 st)\<lparr>sent := sent st @ fs\<rparr>)" by auto
  let ?st0 = "(joined ke tier pub priv 0 st)\<lparr>sent := sent st @ fs\<rparr>"
  have kept: "rings_kept (joined ke tier pub priv 0 st) ?st0"
    using sent_update_kept [of "joined ke tier pub priv 0 st" fs] by (simp add: joined_def)
  have owners: "known_owners ke ?st0 key ?T ts = known_owners ke (joined ke tier pub priv 0 st) key ?T ts" for key ts
    by (rule known_owners_kept [OF kept])
  have fields: "stored_key_map ?st0 = stored_key_map st" "store ?st0 = store st" "join_gossip_map ?st0 = []" "join_remove_set ?st0 = []"
    using assms(1,2) by (simp_all add: joined_def)
  have "join_inv ke ?st0 ?keys ?st0" by (simp add: join_inv_def fields keysets_in_def)
  moreover have "\<forall>key\<in>set ?keys. \<exists>ts. known_owners ke ?st0 key ?T ts" using all by (simp add: owners)
  ultimately obtain st1 where st1: "efold (node_join_key ke priv 0) ?keys ?st0 = Inr st1" "join_inv ke ?st0 ?keys st1"
    and moved: "\<And>key ts. key \<in> set ?keys \<Longrightarrow> known_owners ke ?st0 key ?T ts \<Longrightarrow> \<not> sset_has ts (wt ke) \<Longrightarrow>
       key \<in> set (join_remove_set st1) \<and> (\<forall>th\<in>set ts. key \<in> set (umap_get [] (join_gossip_map st1) (gossip_connect_address th)))"
    using node_join_loop [of ?keys ke ?st0 priv] by blast
  have "scheduled ke (\<lambda>key. known_owners ke ?st0 key ?T) st st1"
    using st1(2) moved by (auto simp: scheduled_def join_inv_def fields)
  moreover have "(\<lambda>key. known_owners ke ?st0 key ?T) = (\<lambda>key. known_owners ke (joined ke tier pub priv 0 st) key ?T)"
    by (intro ext) (rule owners)
  ultimately show ?thesis using h st1(1) by auto
qed



definition example_move :: kvs_state where
  "example_move = example_kvs\<lparr>key_replication_map := init_replication example_config ''0123456'' [],
     stored_key_map := [(''0123456'', \<lparr>kp_size = 9, kp_lattice = LWW\<rparr>)],
     store := stores_empty\<lparr>lww_kvs := [(''0123456'', \<lparr>tv_timestamp = 5, tv_value = ''v''\<rparr>)]\<rparr>\<rparr>"

lemma example_move_readable: "readable example_kvs_env example_move ''0123456'' LWW (serialize_ts example_codecs 5 ''v'')"
  by (rule readableI [where sr = MemoryLWWSerializer]) code_simp+

lemma example_move_typed: "typed example_move"
  by (simp add: typed_def example_move_def)


section \<open>Two ways for redistribution to fail\<close>

fun redistribute_rounds :: "kvs_env \<Rightarrow> nat \<Rightarrow> kvs_state \<Rightarrow> kvs_state res" where
  "redistribute_rounds ke 0 st = Inr st"
| "redistribute_rounds ke (Suc n) st = ebind (redistribute ke st) (redistribute_rounds ke n)"

lemma redistribute_stuck_returns:
  assumes "typed st" and "umap_wf (join_gossip_map st)" and "(a, keys) \<in> set (join_gossip_map st)" and "length keys > 50"
  shows "\<exists>st'. redistribute ke st = Inr st'"
proof -
  let ?akm = "filter (\<lambda>(a, keys). keys \<noteq> []) (map (\<lambda>(a, keys). (a, take DATA_REDISTRIBUTE_THRESHOLD keys)) (join_gossip_map st))"
  let ?m = "fold umap_erase (map fst (filter (\<lambda>(a, keys). drop DATA_REDISTRIBUTE_THRESHOLD keys = []) (join_gossip_map st))) (join_gossip_map st)"
  have "typed (st\<lparr>join_gossip_map := ?m\<rparr>)" using assms(1) by (simp add: typed_def)
  from send_gossip_returns [OF this] obtain st2 where g: "send_gossip ke ?akm (st\<lparr>join_gossip_map := ?m\<rparr>) = Inr st2" by blast
  from send_gossip_keeps [OF g] have m: "join_gossip_map st2 = ?m" by auto
  from owed_stays [OF assms(2-4)] have "(a, keys) \<in> set ?m" by blast
  then have "?m \<noteq> []" by auto
  moreover have "join_gossip_map st \<noteq> []" using assms(3) by auto
  ultimately show ?thesis using g m by (simp add: redistribute_def Let_def)
qed

text \<open>C25: an address that is owed more than fifty keys is never served in full. In any number of
  rounds its entry keeps all its keys, so no key scheduled for removal is ever removed: the thread keeps storing every
  key it should have dropped.\<close>

theorem redistribute_never_drains:
  assumes "typed st" and "umap_wf (join_gossip_map st)" and "(a, keys) \<in> set (join_gossip_map st)" and "length keys > 50"
  shows "\<exists>st'. redistribute_rounds ke n st = Inr st' \<and> (a, keys) \<in> set (join_gossip_map st') \<and>
    join_remove_set st' = join_remove_set st \<and> stored_key_map st' = stored_key_map st"
  using assms
proof (induction n arbitrary: st)
  case (Suc n)
  from redistribute_stuck_returns [OF Suc.prems] obtain st1 where st1: "redistribute ke st = Inr st1" by blast
  from redistribute_stuck [OF st1 Suc.prems(2-4)] have s: "(a, keys) \<in> set (join_gossip_map st1)" "umap_wf (join_gossip_map st1)"
    "join_remove_set st1 = join_remove_set st" "stored_key_map st1 = stored_key_map st" by simp_all
  have "typed st1" using Suc.prems(1) s(4) by (simp add: typed_def)
  from Suc.IH [OF this s(2,1) Suc.prems(4)] st1 s(3,4) show ?case by simp
qed simp

definition example_owed :: kvs_state where
  "example_owed = example_single\<lparr>join_gossip_map := [(''tcp://ccc:6250'', map nat_to_string [0..<51])], join_remove_set := [''k'']\<rparr>"

theorem redistribute_never_drains_witness:
  "\<exists>st'. redistribute_rounds example_kvs_env 1000 example_owed = Inr st' \<and>
     (''tcp://ccc:6250'', map nat_to_string [0..<51]) \<in> set (join_gossip_map st') \<and>
     join_remove_set st' = [''k''] \<and> map fst (stored_key_map st') = [''k'']"
proof -
  have "typed example_owed" using example_single_typed by (simp add: typed_def example_owed_def)
  moreover have "umap_wf (join_gossip_map example_owed)" "(''tcp://ccc:6250'', map nat_to_string [0..<51]) \<in> set (join_gossip_map example_owed)"
    "join_remove_set example_owed = [''k'']" by (simp_all add: example_owed_def)
  moreover have "map fst (stored_key_map example_owed) = [''k'']"
    by (simp add: example_owed_def example_single_def example_replicated_def)
  ultimately show ?thesis
    using redistribute_never_drains [of example_owed "''tcp://ccc:6250''" "map nat_to_string [0..<51]" example_kvs_env 1000]
    by (simp only:) auto
qed

lemma remove_keys_missing:
  assumes "typed st" and "k \<in> set ks" and "map_of (stored_key_map st) k = None"
  shows "efold (remove_key ke) ks st = Inl Null_serializer"
  using assms
proof (induction ks arbitrary: st)
  case (Cons j js)
  have null: "remove_key ke j st = Inl Null_serializer" if "map_of (stored_key_map st) j = None"
    using that by (simp add: remove_key_def umap_get_def KeyProperty_default_def self_serializers_def serializers_def)
  show ?case
  proof (cases "map_of (stored_key_map st) j")
    case None
    then show ?thesis using null by simp
  next
    case (Some pr)
    with Cons.prems(1) have "kp_lattice pr \<noteq> NONE" by (simp add: typed_def)
    from remove_key_known [OF Some this] obtain s where
      s: "remove_key ke j st = Inr (st\<lparr>store := s, stored_key_map := umap_erase j (stored_key_map st)\<rparr>)" by blast
    have "k \<in> set js" using Cons.prems(2,3) Some by auto
    moreover have "typed (st\<lparr>store := s, stored_key_map := umap_erase j (stored_key_map st)\<rparr>)"
      using Cons.prems(1) by (auto simp: typed_def)
    ultimately show ?thesis using Cons.IH Cons.prems(3) s by simp
  qed
qed simp

text \<open>A key that is scheduled for removal after a join and dropped for another reason before the
  removal takes place brings the thread down: the redistribution that would remove it dereferences a null serializer.\<close>

theorem redistribute_null_serializer:
  assumes "typed st" and "join_gossip_map st \<noteq> []" and "\<forall>(a, keys)\<in>set (join_gossip_map st). length keys \<le> 50"
    and "key \<in> set (join_remove_set st)" and "map_of (stored_key_map st) key = None"
  shows "redistribute ke st = Inl Null_serializer"
proof -
  let ?akm = "filter (\<lambda>(a, keys). keys \<noteq> []) (map (\<lambda>(a, keys). (a, take DATA_REDISTRIBUTE_THRESHOLD keys)) (join_gossip_map st))"
  let ?gone = "map fst (filter (\<lambda>(a, keys). drop DATA_REDISTRIBUTE_THRESHOLD keys = []) (join_gossip_map st))"
  have "filter (\<lambda>(a, keys). drop DATA_REDISTRIBUTE_THRESHOLD keys = []) (join_gossip_map st) = join_gossip_map st"
    using assms(3) by (auto simp: DATA_REDISTRIBUTE_THRESHOLD_def intro!: filter_True)
  then have erased: "fold umap_erase ?gone (join_gossip_map st) = []"
    by (auto simp: fold_umap_erase filter_empty_conv image_iff)
  have "typed (st\<lparr>join_gossip_map := []\<rparr>)" using assms(1) by (simp add: typed_def)
  from send_gossip_returns [OF this] obtain st2 where g: "send_gossip ke ?akm (st\<lparr>join_gossip_map := []\<rparr>) = Inr st2" by blast
  from send_gossip_keeps [OF g] have st2: "join_gossip_map st2 = []" "join_remove_set st2 = join_remove_set st"
    "stored_key_map st2 = stored_key_map st" by auto
  have "typed st2" using assms(1) st2 by (simp add: typed_def)
  from remove_keys_missing [OF this assms(4)] assms(5) st2 have "efold (remove_key ke) (join_remove_set st2) st2 = Inl Null_serializer"
    by simp
  with assms(2) erased g st2 show ?thesis by (simp add: redistribute_def Let_def)
qed


text \<open>A replication change reaches the thread between the join and the redistribution.\<close>

definition example_dropped :: kvs_state where
  "example_dropped =
     (case node_join_handler example_kvs_env (join_message MEMORY ''C'' ''ccc'' 0) example_move of
        Inl f \<Rightarrow> example_move
      | Inr st1 \<Rightarrow>
          (case replication_change_handler example_kvs_env
              [\<lparr>rf_key = ''0123456'', rf_global = [(MEMORY, 1)], rf_local = [(MEMORY, 1)]\<rparr>] st1 of
             Inl f \<Rightarrow> example_move
           | Inr st2 \<Rightarrow> st2))"

lemma example_dropped_fields:
  "(stored_key_map example_dropped, join_gossip_map example_dropped, join_remove_set example_dropped) =
     ([], [(''tcp://ccc:6250'', [''0123456''])], [''0123456''])"
  by code_simp

theorem redistribute_null_serializer_witness: "redistribute example_kvs_env example_dropped = Inl Null_serializer"
proof -
  have "stored_key_map example_dropped = []" "join_gossip_map example_dropped = [(''tcp://ccc:6250'', [''0123456''])]"
    "join_remove_set example_dropped = [''0123456'']" using example_dropped_fields by simp_all
  then show ?thesis by (intro redistribute_null_serializer [of _ "''0123456''"]) (simp_all add: typed_def)
qed

end
