(* ===== verification/Kvs_Client_Ops.thy ===== *)
theory Kvs_Client_Ops
  imports Kvs_Gossip
begin

text \<open>
  The operations of a client on one key, as the owner of the key serves them: what a put stores,
  what a get answers, and which requests the lattice type of a key refuses.
\<close>

section \<open>Single puts and gets\<close>

definition put_request :: "Key \<Rightarrow> LatticeType \<Rightarrow> string \<Rightarrow> Address \<Rightarrow> string \<Rightarrow> KeyRequest" where
  "put_request key ty payload addr i =
     \<lparr>kr_type = PUT, kr_tuples = [KeyTuple_default\<lparr>kt_key := key, kt_lattice_type := ty, kt_payload := payload\<rparr>],
      kr_response_address = addr, kr_request_id = i\<rparr>"

definition get_request :: "Key \<Rightarrow> Address \<Rightarrow> string \<Rightarrow> KeyRequest" where
  "get_request key addr i =
     \<lparr>kr_type = GET, kr_tuples = [KeyTuple_default\<lparr>kt_key := key\<rparr>], kr_response_address = addr, kr_request_id = i\<rparr>"

definition answer_of :: "RequestType \<Rightarrow> string \<Rightarrow> KeyTuple \<Rightarrow> KeyResponse" where
  "answer_of ty i tp = KeyResponse_default\<lparr>kp_response_id := i, kp_type := ty, kp_tuples := [tp]\<rparr>"

lemma owner_tuple:
  assumes "known_owners ke st key (kSelfTierIdVector (kv_cfg ke)) ts" and "sset_has ts (wt ke)"
    and "kr_tuples request = [tuple]" and "kt_key tuple = key" and "kt_address_cache_size tuple = 0"
    and "kr_response_address request \<noteq> []"
  shows "\<exists>st1. rings_kept st st1 \<and> sent st1 = sent st \<and> ring_ctx.more st1 = ring_ctx.more st \<and>
    user_request_handler ke now request st =
      ebind (if kr_type request = GET then answer_get ke (KeyTuple_default\<lparr>kt_key := key\<rparr>) st1
             else if kr_type request = PUT
             then answer_put ke (kt_lattice_type tuple) (kt_payload tuple) (KeyTuple_default\<lparr>kt_key := key\<rparr>) st1
             else Inr (KeyTuple_default\<lparr>kt_key := key\<rparr>, st1)) (\<lambda>(tp, st2).
        Inr (send (kr_response_address request) (Response (answer_of (kr_type request) (kr_request_id request) tp)) (track_access now key st2)))"
proof -
  from responsible_known [OF assms(1)] obtain st1 where
    r: "responsible ke key (kSelfTierIdVector (kv_cfg ke)) st = Inr (ts, True, st1)" and same: "ctx_same st st1" by blast
  let ?a = "if kr_type request = GET then answer_get ke (KeyTuple_default\<lparr>kt_key := key\<rparr>) st1
             else if kr_type request = PUT
             then answer_put ke (kt_lattice_type tuple) (kt_payload tuple) (KeyTuple_default\<lparr>kt_key := key\<rparr>) st1
             else Inr (KeyTuple_default\<lparr>kt_key := key\<rparr>, st1)"
  have "user_request_tuple ke now request tuple (resp, st) =
      ebind ?a (\<lambda>(tp, st2). Inr (resp\<lparr>kp_tuples := kp_tuples resp @ [tp]\<rparr>, track_access now key st2))" for resp
    unfolding user_request_tuple_def Let_def split_conv assms(4) r ebind_simps using assms(2,5) by simp
  then have "user_request_handler ke now request st = ebind ?a (\<lambda>(tp, st2).
      Inr (send (kr_response_address request) (Response (answer_of (kr_type request) (kr_request_id request) tp)) (track_access now key st2)))"
    unfolding user_request_handler_def assms(3)
    using assms(6) by (cases ?a) (auto simp: answer_of_def KeyResponse_default_def)
  with responsible_kept [OF r] same show ?thesis by (auto simp: ctx_same_def)
qed

lemmas rings_kept_defs = rings_kept_def global_ring_def local_ring_def global_rep_def local_rep_def fun_eq_iff

lemma owner_put:
  assumes "known_owners ke st key (kSelfTierIdVector (kv_cfg ke)) ts" and "sset_has ts (wt ke)" and "addr \<noteq> []"
    and "self_serializers ke ty = Some sr" and "\<not> type_conflict st key ty"
  shows "\<exists>st'. user_request_handler ke now (put_request key ty payload addr i) st = Inr st' \<and> rings_kept st st' \<and>
    store st' = snd (Serializer_put (kv_pb ke) (kv_disk ke) sr key payload (store st)) \<and>
    stored_key_map st' = umap_put key \<lparr>kp_size = fst (Serializer_put (kv_pb ke) (kv_disk ke) sr key payload (store st)), kp_lattice = ty\<rparr>
      (stored_key_map st) \<and>
    key \<in> set (local_changeset st') \<and>
    sent st' = sent st @ [(addr, Response (answer_of PUT i (KeyTuple_default\<lparr>kt_key := key, kt_lattice_type := ty\<rparr>)))]"
proof -
  let ?req = "put_request key ty payload addr i"
  have "ty \<noteq> NONE" using assms(4) by (auto simp: self_serializers_def serializers_def)
  from owner_tuple [OF assms(1,2), of ?req "KeyTuple_default\<lparr>kt_key := key, kt_lattice_type := ty, kt_payload := payload\<rparr>" now]
    assms(3) obtain st1 where
    st1: "rings_kept st st1" "sent st1 = sent st" "ring_ctx.more st1 = ring_ctx.more st" and
    h: "user_request_handler ke now ?req st = ebind (answer_put ke ty payload (KeyTuple_default\<lparr>kt_key := key\<rparr>) st1) (\<lambda>(tp, st2).
        Inr (send addr (Response (answer_of PUT i tp)) (track_access now key st2)))"
    by (auto simp: put_request_def KeyTuple_default_def)
  note same = more_fields [OF st1(3)]
  obtain n s where p: "Serializer_put (kv_pb ke) (kv_disk ke) sr key payload (store st) = (n, s)" by fastforce
  have "\<not> type_conflict st1 key ty" using assms(5) same(1) by (simp add: type_conflict_def)
  then have a: "answer_put ke ty payload (KeyTuple_default\<lparr>kt_key := key\<rparr>) st1 =
      Inr (KeyTuple_default\<lparr>kt_key := key, kt_lattice_type := ty\<rparr>,
        st1\<lparr>store := s, stored_key_map := umap_put key \<lparr>kp_size = n, kp_lattice = ty\<rparr> (stored_key_map st1),
            local_changeset := uset_insert key (local_changeset st1)\<rparr>)"
    using \<open>ty \<noteq> NONE\<close> assms(4) p same(12) by (simp add: answer_put_def process_put_def)
  let ?st = "st1\<lparr>store := s, stored_key_map := umap_put key \<lparr>kp_size = n, kp_lattice = ty\<rparr> (stored_key_map st1),
            local_changeset := uset_insert key (local_changeset st1)\<rparr>"
  let ?st' = "send addr (Response (answer_of PUT i (KeyTuple_default\<lparr>kt_key := key, kt_lattice_type := ty\<rparr>))) (track_access now key ?st)"
  have "user_request_handler ke now ?req st = Inr ?st'" unfolding h a by simp
  moreover have "rings_kept st ?st'" by (rule rings_kept_trans [OF st1(1)]) (simp add: rings_kept_defs track_access_def send_def)
  moreover have "local_changeset ?st' = uset_insert key (local_changeset st1)" by (simp add: track_access_def)
  ultimately show ?thesis using st1(2) same(1) p by (intro exI [of _ ?st']) simp
qed

lemma owner_get:
  assumes "known_owners ke st key (kSelfTierIdVector (kv_cfg ke)) ts" and "sset_has ts (wt ke)" and "addr \<noteq> []"
    and "map_of (stored_key_map st) key = Some pr" and "self_serializers ke (kp_lattice pr) = Some sr"
  shows "\<exists>st'. user_request_handler ke now (get_request key addr i) st = Inr st' \<and> rings_kept st st' \<and>
    store st' = snd (Serializer_get (kv_pb ke) (kv_disk ke) sr key NO_ERROR (store st)) \<and>
    stored_key_map st' = stored_key_map st \<and>
    sent st' = sent st @ [(addr, Response (answer_of GET i (KeyTuple_default\<lparr>kt_key := key, kt_lattice_type := kp_lattice pr,
        kt_payload := fst (fst (Serializer_get (kv_pb ke) (kv_disk ke) sr key NO_ERROR (store st))),
        kt_error := snd (fst (Serializer_get (kv_pb ke) (kv_disk ke) sr key NO_ERROR (store st)))\<rparr>)))]"
proof -
  let ?req = "get_request key addr i"
  have ty: "kp_lattice pr \<noteq> NONE" using assms(5) by (auto simp: self_serializers_def serializers_def)
  from owner_tuple [OF assms(1,2), of ?req "KeyTuple_default\<lparr>kt_key := key\<rparr>" now] assms(3) obtain st1 where
    st1: "rings_kept st st1" "sent st1 = sent st" "ring_ctx.more st1 = ring_ctx.more st" and
    h: "user_request_handler ke now ?req st = ebind (answer_get ke (KeyTuple_default\<lparr>kt_key := key\<rparr>) st1) (\<lambda>(tp, st2).
        Inr (send addr (Response (answer_of GET i tp)) (track_access now key st2)))"
    by (auto simp: get_request_def KeyTuple_default_def)
  note same = more_fields [OF st1(3)]
  obtain p e s where g: "Serializer_get (kv_pb ke) (kv_disk ke) sr key NO_ERROR (store st) = ((p, e), s)" by (metis prod.exhaust)
  let ?tp = "KeyTuple_default\<lparr>kt_key := key, kt_lattice_type := kp_lattice pr, kt_payload := p, kt_error := e\<rparr>"
  have a: "answer_get ke (KeyTuple_default\<lparr>kt_key := key\<rparr>) st1 = Inr (?tp, st1\<lparr>store := s\<rparr>)"
    using ty assms(4,5) g same(1,12) by (simp add: answer_get_def process_get_def)
  let ?st' = "send addr (Response (answer_of GET i ?tp)) (track_access now key (st1\<lparr>store := s\<rparr>))"
  have "user_request_handler ke now ?req st = Inr ?st'" unfolding h a by simp
  moreover have "rings_kept st ?st'" by (rule rings_kept_trans [OF st1(1)]) (simp add: rings_kept_defs track_access_def send_def)
  ultimately show ?thesis using st1(2) same(1) g by (intro exI [of _ ?st']) simp
qed

section \<open>Last-writer-wins keys\<close>

text \<open>The value of a last-writer-wins key in the store of either tier.\<close>

definition lww_stored :: "kvs_env \<Rightarrow> stores \<Rightarrow> Key \<Rightarrow> string TimestampValuePair" where
  "lww_stored ke s = (if kSelfTier (kv_cfg ke) = MEMORY then lww_view s else disk_lww_view (kv_pb ke) (kv_disk ke) s)"

definition store_ok :: "kvs_env \<Rightarrow> stores \<Rightarrow> bool" where
  "store_ok ke s \<longleftrightarrow> codec_ok (=) (pb_lww (kv_pb ke)) \<and> (kSelfTier (kv_cfg ke) \<noteq> MEMORY \<longrightarrow> files_parse (pb_lww (kv_pb ke)) s)"

lemma lww_serializer:
  assumes "store_ok ke s"
  shows "\<exists>sr. self_serializers ke LWW = Some sr \<and>
    (\<forall>key p. store_ok ke (snd (Serializer_put (kv_pb ke) (kv_disk ke) sr key p s)) \<and>
       lww_stored ke (snd (Serializer_put (kv_pb ke) (kv_disk ke) sr key p s)) =
         (lww_stored ke s)(key := LWWPairLattice_do_merge (lww_stored ke s key) (deserialize_lww (kv_pb ke) p))) \<and>
    (\<forall>key. snd (fst (Serializer_get (kv_pb ke) (kv_disk ke) sr key NO_ERROR s)) =
         (if tv_value (lww_stored ke s key) = [] then KEY_DNE else NO_ERROR) \<and>
       (tv_value (lww_stored ke s key) \<noteq> [] \<longrightarrow>
          deserialize_lww (kv_pb ke) (fst (fst (Serializer_get (kv_pb ke) (kv_disk ke) sr key NO_ERROR s))) = lww_stored ke s key))"
proof (cases "kSelfTier (kv_cfg ke) = MEMORY")
  case MEMORY: True
  have "codec_ok (=) (pb_lww (kv_pb ke))" using assms by (simp add: store_ok_def)
  with MEMORY mem_lww.put_view [where pb = "kv_pb ke" and s = s] mem_lww.get_error [where pb = "kv_pb ke" and s = s]
    mem_lww.get_payload [where pb = "kv_pb ke" and s = s] show ?thesis
    by (intro exI [of _ MemoryLWWSerializer])
       (simp add: self_serializers_def serializers_def Serializer_put_def Serializer_get_def lww_stored_def store_ok_def)
next
  case DISK: False
  have "codec_ok (=) (pb_lww (kv_pb ke)) \<and> files_parse (pb_lww (kv_pb ke)) s" using assms DISK by (simp add: store_ok_def)
  with DISK disk_lww.put_view [where pb = "kv_pb ke" and de = "kv_disk ke" and s = s]
    disk_lww.get_error [where pb = "kv_pb ke" and de = "kv_disk ke" and s = s]
    disk_lww.get_payload [where pb = "kv_pb ke" and de = "kv_disk ke" and s = s]
    disk_lww.put_inv [where pb = "kv_pb ke" and de = "kv_disk ke" and s = s] show ?thesis
    by (intro exI [of _ DiskLWWSerializer])
       (simp add: self_serializers_def serializers_def Serializer_put_def Serializer_get_def lww_stored_def store_ok_def)
qed

text \<open>C4: read your writes. When a client puts a last-writer-wins value to an owner of the key
  and then reads the key from the same thread, in either tier, both requests are answered without error and the read
  returns the merge of the written value with what was stored: the written value itself if its timestamp is not older.\<close>

theorem read_your_writes:
  assumes "known_owners ke st key (kSelfTierIdVector (kv_cfg ke)) ts" and "sset_has ts (wt ke)" and "addr \<noteq> []"
    and "store_ok ke (store st)" and "\<not> type_conflict st key LWW" and "v \<noteq> []"
    and "tv_timestamp (lww_stored ke (store st) key) \<le> t"
  shows "\<exists>st1 st2 p. user_request_handler ke now1 (put_request key LWW (serialize_ts (kv_pb ke) t v) addr i1) st = Inr st1 \<and>
    last (sent st1) = (addr, Response (answer_of PUT i1 (KeyTuple_default\<lparr>kt_key := key, kt_lattice_type := LWW\<rparr>))) \<and>
    user_request_handler ke now2 (get_request key addr i2) st1 = Inr st2 \<and>
    last (sent st2) = (addr, Response (answer_of GET i2
      (KeyTuple_default\<lparr>kt_key := key, kt_lattice_type := LWW, kt_payload := p, kt_error := NO_ERROR\<rparr>))) \<and>
    deserialize_lww (kv_pb ke) p = \<lparr>tv_timestamp = t, tv_value = v\<rparr>"
proof -
  let ?p = "serialize_ts (kv_pb ke) t v"
  from lww_serializer [OF assms(4)] obtain sr where sr: "self_serializers ke LWW = Some sr" and
    put: "store_ok ke (snd (Serializer_put (kv_pb ke) (kv_disk ke) sr key ?p (store st)))"
      "lww_stored ke (snd (Serializer_put (kv_pb ke) (kv_disk ke) sr key ?p (store st))) key =
         LWWPairLattice_do_merge (lww_stored ke (store st) key) (deserialize_lww (kv_pb ke) ?p)" by auto
  have "deserialize_lww (kv_pb ke) ?p = \<lparr>tv_timestamp = t, tv_value = v\<rparr>"
    using assms(4) by (simp add: serialize_ts_def store_ok_def deserialize_lww_parsed)
  with put(2) assms(7) have new: "lww_stored ke (snd (Serializer_put (kv_pb ke) (kv_disk ke) sr key ?p (store st))) key =
      \<lparr>tv_timestamp = t, tv_value = v\<rparr>" by (simp add: LWWPairLattice_do_merge_def)
  from owner_put [OF assms(1-3) sr assms(5), of now1 ?p i1] obtain st1 n where
    st1: "user_request_handler ke now1 (put_request key LWW ?p addr i1) st = Inr st1" "rings_kept st st1"
      "store st1 = snd (Serializer_put (kv_pb ke) (kv_disk ke) sr key ?p (store st))"
      "stored_key_map st1 = umap_put key \<lparr>kp_size = n, kp_lattice = LWW\<rparr> (stored_key_map st)"
      "sent st1 = sent st @ [(addr, Response (answer_of PUT i1 (KeyTuple_default\<lparr>kt_key := key, kt_lattice_type := LWW\<rparr>)))]"
    by blast
  from lww_serializer [OF put(1)] sr assms(6) new have
    get: "snd (fst (Serializer_get (kv_pb ke) (kv_disk ke) sr key NO_ERROR (store st1))) = NO_ERROR"
      "deserialize_lww (kv_pb ke) (fst (fst (Serializer_get (kv_pb ke) (kv_disk ke) sr key NO_ERROR (store st1)))) =
         \<lparr>tv_timestamp = t, tv_value = v\<rparr>" by (auto simp: st1(3))
  have "known_owners ke st1 key (kSelfTierIdVector (kv_cfg ke)) ts" using known_owners_kept [OF st1(2)] assms(1) by simp
  from owner_get [OF this assms(2,3), of "\<lparr>kp_size = n, kp_lattice = LWW\<rparr>" sr now2 i2] sr st1 get show ?thesis by auto
qed


theorem read_your_writes_witness:
  "\<exists>st1 st2 p. user_request_handler example_kvs_env 1 (put_request ''k'' LWW (serialize_ts example_codecs 7 ''w'') ''tcp://c:1'' ''1'')
      example_replicated = Inr st1 \<and>
    last (sent st1) = (''tcp://c:1'', Response (answer_of PUT ''1'' (KeyTuple_default\<lparr>kt_key := ''k'', kt_lattice_type := LWW\<rparr>))) \<and>
    user_request_handler example_kvs_env 2 (get_request ''k'' ''tcp://c:1'' ''2'') st1 = Inr st2 \<and>
    last (sent st2) = (''tcp://c:1'', Response (answer_of GET ''2''
      (KeyTuple_default\<lparr>kt_key := ''k'', kt_lattice_type := LWW, kt_payload := p, kt_error := NO_ERROR\<rparr>))) \<and>
    deserialize_lww example_codecs p = \<lparr>tv_timestamp = 7, tv_value = ''w''\<rparr>"
proof -
  have o: "known_owners example_kvs_env example_replicated ''k'' (kSelfTierIdVector (kv_cfg example_kvs_env))
      [mk_ServerThread3 ''A'' ''a'' 0, mk_ServerThread3 ''B'' ''bb'' 0]"
    and own: "sset_has [mk_ServerThread3 ''A'' ''a'' 0, mk_ServerThread3 ''B'' ''bb'' 0] (wt example_kvs_env)"
    and no: "\<not> type_conflict example_replicated ''k'' LWW"
    and older: "tv_timestamp (lww_stored example_kvs_env (store example_replicated) ''k'') \<le> 7"
    by code_simp+
  have pbs: "kv_pb example_kvs_env = example_codecs" by (simp add: example_kvs_env_def example_env_def)
  have "store_ok example_kvs_env (store example_replicated)"
    using example_lww_ok by (simp add: store_ok_def example_kvs_env_def example_env_def example_config_def)
  from read_your_writes [OF o own _ this no _ older, of "''tcp://c:1''" "''w''" 1 "''1''" 2 "''2''"] show ?thesis by (simp add: pbs)
qed

text \<open>a put with the wrong lattice type is acknowledged and ignored. A put without a lattice
  type, or with another type than the key is stored with, is answered like a successful put, with \<open>NO_ERROR\<close>, but changes
  neither the store nor the type of the key, and is not gossiped.\<close>

theorem mismatched_put_acknowledged:
  assumes "known_owners ke st key (kSelfTierIdVector (kv_cfg ke)) ts" and "sset_has ts (wt ke)" and "addr \<noteq> []"
    and "ty = NONE \<or> type_conflict st key ty"
  shows "\<exists>st'. user_request_handler ke now (put_request key ty payload addr i) st = Inr st' \<and>
    last (sent st') = (addr, Response (answer_of PUT i (KeyTuple_default\<lparr>kt_key := key\<rparr>))) \<and>
    kt_error (KeyTuple_default\<lparr>kt_key := key\<rparr>) = NO_ERROR \<and>
    store st' = store st \<and> stored_key_map st' = stored_key_map st \<and> local_changeset st' = local_changeset st"
proof -
  let ?req = "put_request key ty payload addr i"
  from owner_tuple [OF assms(1,2), of ?req "KeyTuple_default\<lparr>kt_key := key, kt_lattice_type := ty, kt_payload := payload\<rparr>" now]
    assms(3) obtain st1 where
    st1: "sent st1 = sent st" "ring_ctx.more st1 = ring_ctx.more st" and
    h: "user_request_handler ke now ?req st = ebind (answer_put ke ty payload (KeyTuple_default\<lparr>kt_key := key\<rparr>) st1) (\<lambda>(tp, st2).
        Inr (send addr (Response (answer_of PUT i tp)) (track_access now key st2)))"
    by (auto simp: put_request_def KeyTuple_default_def)
  note same = more_fields [OF st1(2)]
  have "answer_put ke ty payload (KeyTuple_default\<lparr>kt_key := key\<rparr>) st1 = Inr (KeyTuple_default\<lparr>kt_key := key\<rparr>, st1)"
    using assms(4) same(1) by (auto simp: answer_put_def type_conflict_def KeyTuple_default_def)
  with h same show ?thesis by (simp add: track_access_def KeyTuple_default_def)
qed

theorem mismatched_put_acknowledged_witness:
  "\<exists>st'. user_request_handler example_kvs_env 1 (put_request ''k'' SET (serialize_set example_codecs [''x'']) ''tcp://c:1'' ''1'')
      example_replicated = Inr st' \<and>
    last (sent st') = (''tcp://c:1'', Response (answer_of PUT ''1'' (KeyTuple_default\<lparr>kt_key := ''k''\<rparr>))) \<and>
    kt_error (KeyTuple_default\<lparr>kt_key := ''k''\<rparr>) = NO_ERROR \<and> store st' = store example_replicated \<and>
    stored_key_map st' = stored_key_map example_replicated \<and> local_changeset st' = local_changeset example_replicated"
proof (rule mismatched_put_acknowledged)
  show "known_owners example_kvs_env example_replicated ''k'' (kSelfTierIdVector (kv_cfg example_kvs_env))
      [mk_ServerThread3 ''A'' ''a'' 0, mk_ServerThread3 ''B'' ''bb'' 0]"
    "sset_has [mk_ServerThread3 ''A'' ''a'' 0, mk_ServerThread3 ''B'' ''bb'' 0] (wt example_kvs_env)" by code_simp+
  have "type_conflict example_replicated ''k'' SET" by code_simp
  then show "SET = NONE \<or> type_conflict example_replicated ''k'' SET" ..
qed simp

text \<open>C26: the lattice type of a stored key is fixed. No client request, no gossip and no
  arrival of replication factors changes the lattice type of a stored key or drops the key.\<close>

theorem lattice_type_fixed:
  assumes "user_request_handler ke now request st = Inr st' \<or> gossip_handler ke gossip st = Inr st' \<or>
    replication_response_handler ke now response st = Inr st'"
    and "map_of (stored_key_map st) key = Some prop" and "kp_lattice prop \<noteq> NONE" and "umap_wf (pending_requests st)"
  shows "\<exists>prop'. map_of (stored_key_map st') key = Some prop' \<and> kp_lattice prop' = kp_lattice prop"
proof -
  have "type_kept st st'" if h: "user_request_handler ke now request st = Inr st'"
  proof -
    from user_request_outcome [OF h assms(4)] obtain resp st1 where
      i: "request_inv request st (length (kr_tuples request)) (resp, st1)"
      "st' = (if kp_tuples resp \<noteq> [] \<and> kr_response_address request \<noteq> []
           then send (kr_response_address request) (Response resp) st1 else st1)" by blast
    have "type_kept st st1" using i(1) by (simp add: request_inv_def)
    moreover have "stored_key_map st' = stored_key_map st1" using i(2) by simp
    ultimately show ?thesis by (simp add: type_kept_def)
  qed
  then have "type_kept st st'" using assms(1) gossip_handler_type_kept replication_response_type_kept by blast
  then show ?thesis using assms(2,3) by (simp add: type_kept_def)
qed

theorem lattice_type_fixed_witness:
  "\<exists>prop'. map_of (stored_key_map (projr (user_request_handler example_kvs_env 1 example_request example_replicated))) ''k'' = Some prop' \<and>
     kp_lattice prop' = LWW"
proof -
  have "\<not> isl (user_request_handler example_kvs_env 1 example_request example_replicated)" by code_simp
  then have "user_request_handler example_kvs_env 1 example_request example_replicated =
      Inr (projr (user_request_handler example_kvs_env 1 example_request example_replicated))" by simp
  moreover have "map_of (stored_key_map example_replicated) ''k'' = Some \<lparr>kp_size = 9, kp_lattice = LWW\<rparr>"
    "umap_wf (pending_requests example_replicated)" by code_simp+
  ultimately show ?thesis
    using lattice_type_fixed [of example_kvs_env 1 example_request example_replicated _ _ _ "''k''" "\<lparr>kp_size = 9, kp_lattice = LWW\<rparr>"]
    by simp
qed

end
