(* ===== verification/Kvs_Invariant.thy ===== *)
theory Kvs_Invariant
  imports Kvs_Join Kvs_Client_Ops
begin

text \<open>
  The invariant of a storage worker thread: every stored key has a lattice type, the maps hold
  each key once, and the two maps between caches and keys are inverse to each other. Every handler and every periodic task
  keeps it, so it holds in all states of the event loop.
\<close>

section \<open>The invariant\<close>

definition caches_inverse :: "kvs_state \<Rightarrow> bool" where
  "caches_inverse st \<longleftrightarrow>
     (\<forall>ip key. key \<in> set (umap_get [] (cache_ip_to_keys st) ip) \<longleftrightarrow> ip \<in> set (umap_get [] (key_to_cache_ips st) key))"

definition worker_inv :: "kvs_state \<Rightarrow> bool" where
  "worker_inv st \<longleftrightarrow> typed st \<and> umap_wf (stored_key_map st) \<and> umap_wf (pending_requests st) \<and> umap_wf (pending_gossip st) \<and>
     caches_inverse st"

definition keeps_inv :: "kvs_state \<Rightarrow> kvs_state \<Rightarrow> bool" where
  "keeps_inv st st' \<longleftrightarrow> (worker_inv st \<longrightarrow> worker_inv st')"

named_theorems keeps

lemma keeps_refl [simp, keeps]: "keeps_inv st st"
  by (simp add: keeps_inv_def)

lemma keeps_trans: "keeps_inv a b \<Longrightarrow> keeps_inv b c \<Longrightarrow> keeps_inv a c"
  by (simp add: keeps_inv_def)

lemma keeps_fields:
  assumes "stored_key_map st' = stored_key_map st" "pending_requests st' = pending_requests st" "pending_gossip st' = pending_gossip st"
    "cache_ip_to_keys st' = cache_ip_to_keys st" "key_to_cache_ips st' = key_to_cache_ips st"
  shows "keeps_inv st st'"
  using assms by (simp add: keeps_inv_def worker_inv_def typed_def caches_inverse_def)

lemma keeps_more: "ring_ctx.more st' = ring_ctx.more st \<Longrightarrow> keeps_inv st st'"
  by (rule keeps_fields) (rule more_fields, assumption)+

lemma keeps_same: "ctx_same st st' \<Longrightarrow> keeps_inv st st'"
  by (rule keeps_more) (simp add: ctx_same_def)

lemma keeps_responsible [keeps]: "responsible ke key tiers st = Inr (ts, ok, st') \<Longrightarrow> keeps_inv st st'"
  using responsible_kept keeps_more by blast

lemma keeps_ask [keeps]: "ask_replication ke key st = Inr st' \<Longrightarrow> keeps_inv st st'"
  using ask_replication_more keeps_more by blast

lemma keeps_reading: "reading st st' \<Longrightarrow> keeps_inv st st'"
  by (rule keeps_fields) (auto simp: reading_def)

lemma keeps_process_get [keeps]: "process_get ke key sr st = Inr (r, st') \<Longrightarrow> keeps_inv st st'"
  using process_get_reading keeps_reading by blast

lemma keeps_send [keeps]: "keeps_inv st (send a f st)"
  by (rule keeps_fields) (simp_all add: send_def)

lemma keeps_sent: "keeps_inv st (st\<lparr>sent := fs\<rparr>)"
  by (rule keeps_fields) simp_all

lemma keeps_send_all [keeps]: "keeps_inv st (send_all m st)"
  by (simp add: send_all_eq keeps_sent)

lemma keeps_track [keeps]: "keeps_inv st (track_access now key st)"
  by (rule keeps_fields) (simp_all add: track_access_def)

lemma keeps_changeset: "keeps_inv st (st\<lparr>local_changeset := l\<rparr>)"
  by (rule keeps_fields) simp_all

lemma keeps_process_put [keeps]:
  assumes "process_put ke key ty p (self_serializers ke ty) st = Inr st'"
  shows "keeps_inv st st'"
proof -
  from assms obtain sr n s where "self_serializers ke ty = Some sr"
    "st' = st\<lparr>store := s, stored_key_map := umap_put key \<lparr>kp_size = n, kp_lattice = ty\<rparr> (stored_key_map st)\<rparr>"
    by (auto simp: process_put_def split: option.splits prod.splits)
  moreover from this(1) have "ty \<noteq> NONE" by (auto simp: self_serializers_def serializers_def)
  ultimately show ?thesis by (auto simp: keeps_inv_def worker_inv_def typed_def caches_inverse_def wf_intros split: if_splits)
qed

lemma keeps_pending [keeps]:
  "keeps_inv st (push_pending_request key r st)" "keeps_inv st (push_pending_gossip key g st)"
  by (simp_all add: keeps_inv_def worker_inv_def typed_def caches_inverse_def push_pending_request_def push_pending_gossip_def wf_intros)

lemma keeps_erase_pending:
  "keeps_inv st (st\<lparr>pending_requests := umap_erase key (pending_requests st)\<rparr>)"
  "keeps_inv st (st\<lparr>pending_gossip := umap_erase key (pending_gossip st)\<rparr>)"
  by (simp_all add: keeps_inv_def worker_inv_def typed_def caches_inverse_def wf_intros)

lemma keeps_remove_key [keeps]: "remove_key ke key st = Inr st' \<Longrightarrow> keeps_inv st st'"
  by (auto simp: remove_key_def keeps_inv_def worker_inv_def typed_def caches_inverse_def wf_intros split: option.splits if_splits)

lemma keeps_rings [keeps]: "keeps_inv st (mod_global_ring t f st)" "keeps_inv st (tell_workers ke addr fr st)"
  by (rule keeps_fields, simp_all add: mod_global_ring_def) (use tell_workers_eq [of ke addr fr st] keeps_sent in fastforce)

lemma keeps_replication: "keeps_inv st (update_replication r st)" "keeps_inv st (st\<lparr>key_replication_map := m\<rparr>)"
  by (rule keeps_fields; simp add: update_replication_def)+

lemma keeps_efold:
  assumes "efold f xs s = Inr t" and "\<And>x a b. x \<in> set xs \<Longrightarrow> f x a = Inr b \<Longrightarrow> keeps_inv (g a) (g b)"
  shows "keeps_inv (g s) (g t)"
  by (rule efold_invariant [OF assms(1), of "\<lambda>x. keeps_inv (g s) (g x)"]) (auto intro: keeps_trans assms(2))

section \<open>Client requests and gossip\<close>

lemma keeps_answer_get [keeps]: "answer_get ke tp st = Inr (tp', st') \<Longrightarrow> keeps_inv st st'"
  using answer_get_cases [of ke tp st tp' st'] keeps_process_get by auto

lemma keeps_answer_put [keeps]: "answer_put ke ty p tp st = Inr (tp', st') \<Longrightarrow> keeps_inv st st'"
  using answer_put_cases [of ke ty p tp st tp' st'] by (auto intro: keeps_trans [OF keeps_process_put keeps_changeset])

lemma keeps_user_request_tuple:
  assumes "user_request_tuple ke now request tuple (resp, st) = Inr (resp', st')"
  shows "keeps_inv st st'"
proof -
  let ?key = "kt_key tuple"
  from assms obtain threads ok st1 where r: "responsible ke ?key (kSelfTierIdVector (kv_cfg ke)) st = Inr (threads, ok, st1)"
    by (auto simp: user_request_tuple_def Let_def ebind_Inr_iff)
  note eq = assms [unfolded user_request_tuple_def Let_def split_conv r ebind_simps]
  have "keeps_inv st1 st'"
    using eq by (auto simp: ebind_Inr_iff Let_def split: if_splits intro: keeps keeps_trans)
  with keeps_responsible [OF r] show ?thesis by (rule keeps_trans)
qed

lemma keeps_user_request [keeps]:
  assumes "user_request_handler ke now request st = Inr st'"
  shows "keeps_inv st st'"
proof -
  define r0 where "r0 = KeyResponse_default\<lparr>kp_response_id := kr_request_id request, kp_type := kr_type request\<rparr>"
  from assms obtain r st1 where e: "efold (user_request_tuple ke now request) (kr_tuples request) (r0, st) = Inr (r, st1)"
    and st': "st' = st1 \<or> st' = send (kr_response_address request) (Response r) st1"
    by (auto simp: user_request_handler_def r0_def [symmetric] ebind_Inr_iff split: if_splits)
  have "keeps_inv (snd (r0, st)) (snd (r, st1))"
    by (rule keeps_efold [OF e, of snd]) (auto intro: keeps_user_request_tuple)
  with st' show ?thesis by (auto intro: keeps_trans keeps)
qed


lemma keeps_gossip_tuple:
  assumes "gossip_tuple ke tuple (m, st) = Inr (m', st')"
  shows "keeps_inv st st'"
proof -
  let ?key = "kt_key tuple"
  from assms obtain threads ok st1 where r: "responsible ke ?key (kSelfTierIdVector (kv_cfg ke)) st = Inr (threads, ok, st1)"
    by (auto simp: gossip_tuple_def Let_def ebind_Inr_iff)
  note eq = assms [unfolded gossip_tuple_def Let_def split_conv r ebind_simps]
  have "keeps_inv st1 st'"
    using eq by (auto simp: ebind_Inr_iff Let_def split: if_splits option.splits intro: keeps keeps_trans)
  with keeps_responsible [OF r] show ?thesis by (rule keeps_trans)
qed

lemma keeps_gossip [keeps]:
  assumes "gossip_handler ke gossip st = Inr st'"
  shows "keeps_inv st st'"
proof -
  from assms obtain m st1 where e: "efold (gossip_tuple ke) (kr_tuples gossip) ([], st) = Inr (m, st1)"
    and st': "st' = send_all m st1"
    by (auto simp: gossip_handler_def ebind_Inr_iff)
  have "keeps_inv (snd ([] :: (Address, KeyRequest) umap, st)) (snd (m, st1))"
    by (rule keeps_efold [OF e, of snd]) (auto intro: keeps_gossip_tuple)
  with st' show ?thesis by (auto intro: keeps_trans keeps)
qed

section \<open>Caches\<close>

lemma fold_erase_caches:
  "umap_get [] (fold (\<lambda>key m. umap_mod [] key (uset_erase ip) m) ks m) k =
     (if k \<in> set ks then uset_erase ip (umap_get [] m k) else umap_get [] m k)"
  by (induction ks arbitrary: m) (auto simp: uset_erase_def)

lemma fold_insert_caches:
  assumes "fold (\<lambda>cache_key (c, k).
      (umap_mod [] ip (uset_insert cache_key) c, umap_mod [] cache_key (uset_insert ip) k)) ks (c, k) = (c', k')"
  shows "(set (umap_get [] c' ip2) = set (umap_get [] c ip2) \<union> (if ip2 = ip then set ks else {})) \<and>
    (set (umap_get [] k' key) = set (umap_get [] k key) \<union> (if key \<in> set ks then {ip} else {}))"
  using assms
proof (induction ks arbitrary: c k)
  case (Cons a ks)
  from Cons.IH [OF Cons.prems [unfolded fold.simps comp_def split_conv]] show ?case by auto
qed simp

lemma set_fold_uset_erase [simp]: "set (fold uset_erase xs s) = set s - set xs"
  by (induction xs arbitrary: s) auto

lemma keeps_cache_tuple: "keeps_inv st (cache_ip_response_tuple ke tuple st)"
proof (cases "kt_error tuple = NO_ERROR")
  case True
  let ?ip = "get_key_from_user_metadata (kt_key tuple)"
  let ?ks = "parsed (pb_strset (kv_pb ke)) (lv_value (parsed (pb_lww (kv_pb ke)) (kt_payload tuple)))"
  let ?old = "umap_get [] (cache_ip_to_keys st) ?ip"
  let ?k2c = "fold (\<lambda>key m. umap_mod [] key (uset_erase ?ip) m) (fold uset_erase ?ks ?old) (key_to_cache_ips st)"
  obtain c k where ck: "fold (\<lambda>cache_key (c, k).
      (umap_mod [] ?ip (uset_insert cache_key) c, umap_mod [] cache_key (uset_insert ?ip) k)) ?ks
      (umap_put ?ip [] (cache_ip_to_keys st), ?k2c) = (c, k)" by fastforce
  have st': "cache_ip_response_tuple ke tuple st = st\<lparr>cache_ip_to_keys := c, key_to_cache_ips := k\<rparr>"
    using True ck by (simp add: cache_ip_response_tuple_def Let_def)
  note new = fold_insert_caches [OF ck]
  have gone: "set (fold uset_erase ?ks ?old) = set ?old - set ?ks" by simp
  {
    assume inv: "caches_inverse st"
    have "key \<in> set (umap_get [] c ip) \<longleftrightarrow> ip \<in> set (umap_get [] k key)" for ip key
      using inv [unfolded caches_inverse_def, rule_format, of key ip] new [of ip key]
      by (auto simp: fold_erase_caches gone umap_get_put split: if_splits)
  }
  then show ?thesis unfolding st' by (auto simp: keeps_inv_def worker_inv_def typed_def caches_inverse_def)
qed (simp add: cache_ip_response_tuple_def)

lemma keeps_cache_response [keeps]: "keeps_inv st (cache_ip_response_handler ke response st)"
proof -
  have "keeps_inv st (fold (cache_ip_response_tuple ke) ts st)" for ts
    by (induction ts arbitrary: st) (auto intro: keeps_trans keeps_cache_tuple)
  then show ?thesis by (simp add: cache_ip_response_handler_def)
qed


lemma umap_get_erased: "umap_get d (fold umap_erase ks m) k = (if k \<in> set ks then d else umap_get d m k)"
  by (induction ks arbitrary: m) auto

lemma umap_get_map: "umap_get [] (map (\<lambda>(k, ips). (k, fold uset_erase gone ips)) m) k = fold uset_erase gone (umap_get [] m k)"
proof -
  have "fold uset_erase gone [] = []"
    by (induction gone) (simp_all add: uset_erase_def)
  then show ?thesis by (induction m) (auto simp: umap_get_def)
qed

lemma keeps_management [keeps]:
  assumes "management_node_response_handler ke func_nodes st = Inr st'"
  shows "keeps_inv st st'"
proof -
  let ?gone = "fold uset_erase func_nodes (extant_caches st)"
  define st1 where "st1 = st\<lparr>extant_caches := fold uset_insert func_nodes [],
      cache_ip_to_keys := fold umap_erase ?gone (cache_ip_to_keys st),
      key_to_cache_ips := map (\<lambda>(k, ips). (k, fold uset_erase ?gone ips)) (key_to_cache_ips st)\<rparr>"
  define f where "f = (\<lambda>cacheip (acc, st).
                  ebind (prepare_metadata_get_request (kv_rand ke) (kv_env ke) (get_user_metadata_key cacheip)
                           (global_ring st MEMORY) (local_ring st MEMORY) (cache_ip_response_connect_address (wt ke)) acc)
                    (\<lambda>acc'. Inr (acc', touch_rings MEMORY (st :: kvs_state))))"
  define acc0 where "acc0 = \<lparr>addr_request_map = [], rid = kvs_rid st1, rand_state = kvs_rand_state st1\<rparr>"
  have eq: "management_node_response_handler ke func_nodes st = ebind (efold f (fold uset_insert func_nodes []) (acc0, st1))
      (\<lambda>(acc, st2). Inr (send_all (addr_request_map acc) (st2\<lparr>kvs_rid := rid acc, kvs_rand_state := rand_state acc\<rparr>)))"
    unfolding management_node_response_handler_def Let_def st1_def f_def acc0_def ..
  from assms [unfolded eq] obtain acc st2 where e: "efold f (fold uset_insert func_nodes []) (acc0, st1) = Inr (acc, st2)"
    and st': "st' = send_all (addr_request_map acc) (st2\<lparr>kvs_rid := rid acc, kvs_rand_state := rand_state acc\<rparr>)"
    by (auto simp: ebind_Inr_iff)
  have "keeps_inv st st1"
    unfolding st1_def keeps_inv_def worker_inv_def
    by (auto simp: typed_def caches_inverse_def umap_get_erased umap_get_map)
  moreover have "keeps_inv (snd (acc0, st1)) (snd (acc, st2))"
    by (rule keeps_efold [OF e, of snd])
       (auto simp: f_def ebind_Inr_iff intro!: keeps_same)
  moreover have "keeps_inv st2 st'"
    unfolding st' by (rule keeps_trans [OF _ keeps_send_all]) (rule keeps_fields, simp_all)
  ultimately show ?thesis by (auto intro: keeps_trans)
qed


section \<open>Membership and replication\<close>

lemma keeps_depart [keeps]: "node_depart_handler ke serialized st = Inr st' \<Longrightarrow> keeps_inv st st'"
  by (auto simp: node_depart_handler_def Let_def ebind_Inr_iff intro: keeps_rings keeps_trans [OF keeps_rings(1) keeps_rings(2)])

lemma keeps_join_key: "node_join_key ke ip n key st = Inr st' \<Longrightarrow> keeps_inv st st'"
  by (auto simp: node_join_key_def ebind_Inr_iff split: if_splits dest!: keeps_responsible elim!: keeps_trans intro!: keeps_fields)

lemma keeps_fold_send: "keeps_inv st (fold (\<lambda>x. send (a x) (f x)) xs st)"
  by (induction xs arbitrary: st) (auto intro: keeps_trans [OF keeps_send])

lemma keeps_join [keeps]:
  assumes "node_join_handler ke serialized st = Inr st'"
  shows "keeps_inv st st'"
proof -
  have *: "keeps_inv a b" if "efold (node_join_key ke ip n) ks a = Inr b" for ip n ks a b
    by (rule keeps_efold [OF that, of "\<lambda>x. x"]) (rule keeps_join_key)
  from assms obtain tier pub priv n where parts: "vec_at (split_string serialized (CHR '':'')) 0 = Inr tier"
    "vec_at (split_string serialized (CHR '':'')) 1 = Inr pub" "vec_at (split_string serialized (CHR '':'')) 2 = Inr priv"
    "vec_at (split_string serialized (CHR '':'')) 3 = Inr n" and "\<exists>t c. Tier_Parse tier = Inr t \<and> stoi n = Inr c"
    unfolding node_join_handler_def Let_def ebind_Inr_iff by blast
  then obtain t c where tc: "Tier_Parse tier = Inr t" "stoi n = Inr c" by blast
  obtain inserted ring where g: "global_insert (kv_env ke) pub priv c 0 (global_ring st t) = (inserted, ring)" by fastforce
  let ?st1 = "mod_global_ring t (\<lambda>_. ring) st"
  let ?msg = "Text (join_message (kSelfTier (kv_cfg ke)) (public_ip (wt ke)) (private_ip (wt ke)) (self_join_count ke))"
  define st2 where "st2 = (if tid (wt ke) = 0
     then tell_workers ke node_join_connect_address (Text serialized)
            (fold (\<lambda>th. send (node_join_connect_address th) (Text serialized))
               (filter (\<lambda>th. private_ip th \<noteq> private_ip (wt ke) \<and> private_ip th \<noteq> priv)
                  (concat (map (\<lambda>(t, r). unique_servers r) (global_hash_rings ?st1))))
               (send (node_join_connect_address (mk_ServerThread3 pub priv 0)) ?msg ?st1))
     else ?st1)"
  have "st' = ?st1 \<or> st' = st2 \<or> efold (node_join_key ke priv c) (map fst (stored_key_map st2)) st2 = Inr st'"
    using assms [unfolded node_join_handler_def Let_def parts ebind_simps tc g split_conv, folded st2_def] by (auto split: if_splits)
  moreover have "keeps_inv st ?st1" by (rule keeps_rings)
  moreover from this have "keeps_inv st st2"
    by (auto simp: st2_def intro!: keeps_trans [OF _ keeps_rings(2)] keeps_trans [OF _ keeps_fold_send] keeps_trans [OF _ keeps_send])
  ultimately show ?thesis by (auto dest!: * intro: keeps_trans)
qed

lemma keeps_gossiping [keeps]: "send_gossip ke m st = Inr st' \<Longrightarrow> keeps_inv st st'"
  by (drule send_gossip_keeps) (auto intro: keeps_fields)

lemma fold_updates:
  assumes "\<And>x b s. \<exists>d m. f x (b, s) = (d, s\<lparr>key_replication_map := m\<rparr>)"
  shows "\<exists>m d. fold f xs (b, s) = (d, s\<lparr>key_replication_map := m\<rparr>)"
proof (induction xs arbitrary: b s)
  case Nil
  show ?case by (auto intro: exI [of _ "key_replication_map s"])
next
  case (Cons x xs)
  obtain d m where "f x (b, s) = (d, s\<lparr>key_replication_map := m\<rparr>)" using assms by blast
  with Cons.IH [of d "s\<lparr>key_replication_map := m\<rparr>"] show ?case by simp
qed

lemma keeps_replication_dec:
  assumes "update_replication_dec r st = (dec, st')"
  shows "\<exists>m. st' = st\<lparr>key_replication_map := m\<rparr>"
proof -
  have glob: "\<exists>m d. fold (\<lambda>(t, n) (dec, st). (dec \<or> n < global_rep st key t,
      st\<lparr>key_replication_map := set_global key t n (key_replication_map st)\<rparr>)) xs (b, s) = (d, s\<lparr>key_replication_map := m\<rparr>)"
    for xs key b and s :: kvs_state
    by (rule fold_updates) (auto simp: split_beta)
  have loc: "\<exists>m d. fold (\<lambda>(t, n) (dec, st). (dec \<or> n < local_rep st key t,
      st\<lparr>key_replication_map := set_local key t n (key_replication_map st)\<rparr>)) xs (b, s) = (d, s\<lparr>key_replication_map := m\<rparr>)"
    for xs key b and s :: kvs_state
    by (rule fold_updates) (auto simp: split_beta)
  obtain d1 m1 where 1: "fold (\<lambda>(t, n) (dec, st). (dec \<or> n < global_rep st (rf_key r) t,
      st\<lparr>key_replication_map := set_global (rf_key r) t n (key_replication_map st)\<rparr>)) (rf_global r) (False, st)
      = (d1, st\<lparr>key_replication_map := m1\<rparr>)" using glob by blast
  obtain d2 m2 where "fold (\<lambda>(t, n) (dec, st). (dec \<or> n < local_rep st (rf_key r) t,
      st\<lparr>key_replication_map := set_local (rf_key r) t n (key_replication_map st)\<rparr>)) (rf_local r)
      (d1, st\<lparr>key_replication_map := m1\<rparr>) = (d2, st\<lparr>key_replication_map := m1\<rparr>\<lparr>key_replication_map := m2\<rparr>)"
    using loc by blast
  with 1 assms show ?thesis by (auto simp: update_replication_dec_def Let_def)
qed

lemma keeps_change_key:
  assumes "replication_change_key ke r (m, rs, st) = Inr (m', rs', st')"
  shows "keeps_inv st st'"
proof (cases "umap_has (stored_key_map st) (rf_key r)")
  case True
  with assms obtain ts ok st1 where 1: "responsible ke (rf_key r) kAllTiers st = Inr (ts, ok, st1)"
    by (auto simp: replication_change_key_def Let_def ebind_Inr_iff)
  note eq = assms [unfolded replication_change_key_def Let_def split_conv 1 ebind_simps]
  obtain dec st2 where 2: "update_replication_dec r st1 = (dec, st2)" by fastforce
  have st2: "keeps_inv st1 st2" using keeps_replication_dec [OF 2] keeps_replication(2) by auto
  have "keeps_inv st1 st'"
  proof (cases ok)
    case ok: True
    with eq True 2 obtain ts3 ok3 where 3: "responsible ke (rf_key r) kAllTiers st2 = Inr (ts3, ok3, st')"
      by (auto simp: ebind_Inr_iff split: if_splits)
    show ?thesis using st2 keeps_responsible [OF 3] by (rule keeps_trans)
  next
    case False
    with eq True show ?thesis by (auto intro: keeps_replication)
  qed
  with keeps_responsible [OF 1] show ?thesis by (rule keeps_trans)
next
  case False
  with assms show ?thesis by (auto simp: replication_change_key_def intro: keeps_replication)
qed

lemma keeps_change [keeps]:
  assumes "replication_change_handler ke r st = Inr st'"
  shows "keeps_inv st st'"
proof -
  define st1 where "st1 = (if tid (wt ke) = 0 then tell_workers ke replication_change_connect_address (RepUpdate r) st else st)"
  define drop where "drop = (\<lambda>key st. ebind (remove_key ke key st)
      (\<lambda>st'. Inr (st'\<lparr>local_changeset := uset_erase key (local_changeset st')\<rparr>)))"
  from assms obtain m rs st2 st3 where e: "efold (replication_change_key ke) r ([], [], st1) = Inr (m, rs, st2)"
    and g: "send_gossip ke m st2 = Inr st3" and d: "efold drop rs st3 = Inr st'"
    by (auto simp: replication_change_handler_def Let_def ebind_Inr_iff st1_def [symmetric] drop_def [symmetric])
  have "keeps_inv st st1" by (simp add: st1_def keeps_rings)
  moreover have "keeps_inv (snd (snd ([] :: AddressKeysetMap, [] :: Key uset, st1))) (snd (snd (m, rs, st2)))"
    by (rule keeps_efold [OF e, of "\<lambda>x. snd (snd x)"]) (auto intro: keeps_change_key)
  moreover have "keeps_inv st3 st'"
    by (rule keeps_efold [OF d, of "\<lambda>x. x"])
       (auto simp: drop_def ebind_Inr_iff intro: keeps_trans [OF keeps_remove_key keeps_changeset])
  ultimately show ?thesis using keeps_gossiping [OF g] by (auto intro: keeps_trans)
qed

lemma keeps_serve_request: "serve_pending_request ke now key b r st = Inr st' \<Longrightarrow> keeps_inv st st'"
  unfolding serve_pending_request_def Let_def
  by (auto simp: ebind_Inr_iff split: if_splits intro!: keeps_trans [OF _ keeps_send] keeps_trans [OF _ keeps_track]
      keeps_trans [OF _ keeps_changeset] intro: keeps_process_put keeps_answer_get keeps_answer_put)

lemma keeps_serve_requests:
  assumes "serve_pending_requests ke now key st = Inr st'"
  shows "keeps_inv st st'"
proof (cases "map_of (pending_requests st) key")
  case (Some rs)
  have *: "keeps_inv a b" if "efold (serve_pending_request ke now key x) rs a = Inr b" for x a b
    by (rule keeps_efold [OF that, of "\<lambda>x. x"]) (rule keeps_serve_request)
  from assms [unfolded serve_pending_requests_def Some option.case] show ?thesis
    by (auto simp: ebind_Inr_iff split: if_splits intro!: keeps_trans [OF _ keeps_erase_pending(1)]
        dest!: keeps_responsible * elim: keeps_trans)
qed (use assms in \<open>simp add: serve_pending_requests_def\<close>)

lemma keeps_serve_gossip:
  assumes "serve_pending_gossip ke key st = Inr st'"
  shows "keeps_inv st st'"
proof (cases "map_of (pending_gossip st) key")
  case (Some gs)
  have "apply_pending_gossip ke key g a = Inr b \<Longrightarrow> keeps_inv a b" for g a b
    by (auto simp: apply_pending_gossip_def split: if_splits intro: keeps_process_put)
  then have *: "keeps_inv a b" if "efold (apply_pending_gossip ke key) gs a = Inr b" for a b
    by (rule keeps_efold [OF that, of "\<lambda>x. x"])
  from assms [unfolded serve_pending_gossip_def Some option.case Let_def] show ?thesis
    by (auto simp: ebind_Inr_iff split: if_splits intro!: keeps_trans [OF _ keeps_erase_pending(2)] keeps_trans [OF _ keeps_send_all]
        dest!: keeps_responsible * elim: keeps_trans)
qed (use assms in \<open>simp add: serve_pending_gossip_def\<close>)

lemma keeps_replication_response [keeps]:
  assumes "replication_response_handler ke now response st = Inr st'"
  shows "keeps_inv st st'"
proof -
  have serve: "keeps_inv st st'" if "ebind (serve_pending_requests ke now key st1) (serve_pending_gossip ke key) = Inr st'"
    "keeps_inv st st1" for key st1
    using that by (auto simp: ebind_Inr_iff dest!: keeps_serve_requests keeps_serve_gossip elim: keeps_trans)
  from assms obtain tuple where t: "vec_at (kp_tuples response) 0 = Inr tuple"
    by (auto simp: replication_response_handler_def ebind_Inr_iff)
  from assms [unfolded replication_response_handler_def Let_def t ebind_simps] show ?thesis
    by (auto split: if_splits intro: keeps_ask serve [OF _ keeps_replication(1)] serve [OF _ keeps_replication(2)])
qed

section \<open>Periodic tasks\<close>

lemma keeps_touches:
  "keeps_inv st (touch_rings t st)" "keeps_inv st (touch_global t st)" "keeps_inv st (touch_local t st)" "keeps_inv st (touch_global_rep key t st)"
  by (rule keeps_same, simp)+ (rule keeps_fields, simp_all add: touch_global_rep_def)

lemma keeps_fold: "(\<And>x a. keeps_inv a (f x a)) \<Longrightarrow> keeps_inv st (fold f xs st)"
  by (induction xs arbitrary: st) (auto intro: keeps_trans)

lemma keeps_primary:
  assumes "is_primary_replica ke key th st = (b, st')"
  shows "keeps_inv st st'"
proof -
  let ?self = "kSelfTier (kv_cfg ke)"
  define st1 where "st1 = touch_global_rep key ?self st"
  define st2 where "st2 = (if tier_value ?self > tier_value MEMORY
    then fold (touch_global_rep key) (filter (\<lambda>tier. tier_value tier < tier_value ?self) kAllTiers) st1 else st1)"
  have "keeps_inv st st1" unfolding st1_def by (rule keeps_touches)
  moreover have "keeps_inv st1 st2" unfolding st2_def by (simp add: keeps_fold keeps_touches)
  moreover have "st' \<in> {st1, st2, touch_global ?self st2, touch_local ?self (touch_global ?self st2)}"
    using assms [unfolded is_primary_replica_def Let_def, folded st1_def, folded st2_def] by (auto split: if_splits option.splits)
  moreover have "keeps_inv st2 (touch_global ?self st2)" "keeps_inv (touch_global ?self st2) (touch_local ?self (touch_global ?self st2))"
    by (rule keeps_touches)+
  ultimately show ?thesis unfolding keeps_inv_def by blast
qed

lemma keeps_primary_sizes:
  assumes "primary_key_sizes ke st = (sizes, st')"
  shows "keeps_inv st st'"
proof -
  have "keeps_inv st (snd (fold (\<lambda>(key, prop) (sizes, st). case is_primary_replica ke key (wt ke) st of
      (primary, st1) \<Rightarrow> (if primary then sizes @ [(key, kp_size prop)] else sizes, st1)) xs (l, st)))" for xs l
  proof (induction xs arbitrary: st l)
    case (Cons x xs)
    obtain b st1 where p: "is_primary_replica ke (fst x) (wt ke) st = (b, st1)" by fastforce
    from keeps_trans [OF keeps_primary [OF p] Cons.IH [of st1]] p show ?case by (simp add: split_beta)
  qed simp
  from this [of "stored_key_map st" "[]"] assms show ?thesis by (simp add: primary_key_sizes_def)
qed

lemma keeps_metadata:
  assumes "put_metadata ke key p st = Inr st'"
  shows "keeps_inv st st'"
proof -
  from assms obtain a f sd where "st' = touch_rings MEMORY st \<or> st' = send a f ((touch_rings MEMORY st)\<lparr>seed := sd\<rparr>)"
    unfolding put_metadata_def Let_def by (auto simp: ebind_Inr_iff split_beta split: if_splits)
  then have "keeps_inv (touch_rings MEMORY st) st'"
  proof
    assume "st' = send a f ((touch_rings MEMORY st)\<lparr>seed := sd\<rparr>)"
    then show ?thesis by (auto simp: send_def intro!: keeps_fields)
  qed simp
  with keeps_touches(1) show ?thesis by (rule keeps_trans)
qed

lemma keeps_report:
  assumes "report_round ke now d s = Inr s'"
  shows "keeps_inv (kvs s) (kvs s')"
proof -
  from assms obtain st1 st2 st3 st4 k1 p1 k2 p2 k3 p3 b a f where
    1: "put_metadata ke k1 p1 (kvs s) = Inr st1" and 2: "put_metadata ke k2 p2 st1 = Inr st2"
    and 3: "st3 = snd (primary_key_sizes ke st2)" and 4: "put_metadata ke k3 p3 st3 = Inr st4"
    and 5: "kvs s' = (if b then send a f st4 else st4)\<lparr>access_count := 0\<rparr>"
    unfolding report_round_def Let_def by (auto simp: ebind_Inr_iff split_beta)
  have "keeps_inv st4 (kvs s')" unfolding 5 by (rule keeps_fields) (simp_all add: send_def)
  moreover have "keeps_inv st2 st3" unfolding 3 by (rule keeps_primary_sizes [OF prod.collapse [symmetric]])
  ultimately show ?thesis
    using keeps_metadata [OF 1] keeps_metadata [OF 2] keeps_metadata [OF 4] unfolding keeps_inv_def by blast
qed

lemma keeps_gossip_round: "gossip_round ke st = Inr st' \<Longrightarrow> keeps_inv st st'"
proof -
  assume a: "gossip_round ke st = Inr st'"
  show ?thesis
  proof (cases "local_changeset st = []")
    case False
    with a obtain m st1 st2 where e: "efold (gossip_targets ke) (local_changeset st) ([], st) = Inr (m, st1)"
      and g: "send_gossip ke m st1 = Inr st2" and st': "st' = st2\<lparr>local_changeset := []\<rparr>"
      by (auto simp: gossip_round_def ebind_Inr_iff)
    have "keeps_inv (snd ([] :: AddressKeysetMap, st)) (snd (m, st1))"
      by (rule keeps_efold [OF e, of snd]) (auto simp: gossip_targets_def Let_def ebind_Inr_iff intro: keeps_responsible)
    with keeps_gossiping [OF g] keeps_changeset show ?thesis unfolding st' by (auto intro: keeps_trans)
  qed (use a in \<open>simp add: gossip_round_def\<close>)
qed

lemma keeps_redistribute:
  assumes "redistribute ke st = Inr st'"
  shows "keeps_inv st st'"
proof (cases "join_gossip_map st = []")
  case False
  with assms obtain jm m st2 where g: "send_gossip ke m (st\<lparr>join_gossip_map := jm\<rparr>) = Inr st2"
    and or: "st' = st2 \<or> (\<exists>st3. efold (remove_key ke) (join_remove_set st2) st2 = Inr st3 \<and> st' = st3\<lparr>join_remove_set := []\<rparr>)"
    unfolding redistribute_def Let_def by (auto simp: ebind_Inr_iff split: if_splits)
  have "keeps_inv st (st\<lparr>join_gossip_map := jm\<rparr>)" by (rule keeps_fields) simp_all
  with keeps_gossiping [OF g] have st2: "keeps_inv st st2" by (rule keeps_trans [rotated])
  from or show ?thesis
  proof (elim disjE exE conjE)
    fix st3 assume e: "efold (remove_key ke) (join_remove_set st2) st2 = Inr st3" and st': "st' = st3\<lparr>join_remove_set := []\<rparr>"
    have "keeps_inv st2 st3" by (rule keeps_efold [OF e, of "\<lambda>x. x"]) (rule keeps_remove_key)
    moreover have "keeps_inv st3 st'" unfolding st' by (rule keeps_fields) simp_all
    ultimately show ?thesis using st2 by (auto intro: keeps_trans)
  qed (use st2 in simp)
qed (use assms in \<open>simp add: redistribute_def\<close>)

section \<open>The event loop\<close>

lemma keeps_receive:
  assumes "receive ib i message handler s = Inr s'" and "\<And>m a b. handler m a = Inr b \<Longrightarrow> keeps_inv a b"
  shows "keeps_inv (kvs s) (kvs s')"
  using assms by (auto simp: receive_def ebind_Inr_iff split: option.splits)

lemma keeps_iteration:
  assumes "server_iteration ke ib s = Inr (True, s')"
  shows "keeps_inv (kvs s) (kvs s')"
proof -
  from assms obtain s1 s2 s3 s4 s5 s6 s7 s8 s9 s10 where
    1: "receive ib 0 (join_in ib) (node_join_handler ke) s = Inr s1" and
    2: "receive ib 1 (depart_in ib) (node_depart_handler ke) s1 = Inr s2" and
    3: "receive ib 3 (request_in ib) (user_request_handler ke (clock ib)) s2 = Inr s3" and
    4: "receive ib 4 (gossip_in ib) (gossip_handler ke) s3 = Inr s4" and
    5: "receive ib 5 (replication_response_in ib) (replication_response_handler ke (clock ib)) s4 = Inr s5" and
    6: "receive ib 6 (replication_change_in ib) (replication_change_handler ke) s5 = Inr s6" and
    7: "receive ib 7 (cache_ip_in ib) (\<lambda>m st. Inr (cache_ip_response_handler ke m st)) s6 = Inr s7" and
    8: "receive ib 8 (management_in ib) (management_node_response_handler ke) s7 = Inr s8" and
    9: "periodic_gossip ke ib s8 = Inr s9" and 10: "periodic_report ke ib s9 = Inr s10" and
    11: "periodic_redistribute ke s10 = Inr s'"
    unfolding server_iteration_def by (auto simp: ebind_Inr_iff split: option.splits)
  have "keeps_inv (kvs s) (kvs s1)" by (rule keeps_receive [OF 1]) (rule keeps_join)
  moreover have "keeps_inv (kvs s1) (kvs s2)" by (rule keeps_receive [OF 2]) (rule keeps_depart)
  moreover have "keeps_inv (kvs s2) (kvs s3)" by (rule keeps_receive [OF 3]) (rule keeps_user_request)
  moreover have "keeps_inv (kvs s3) (kvs s4)" by (rule keeps_receive [OF 4]) (rule keeps_gossip)
  moreover have "keeps_inv (kvs s4) (kvs s5)" by (rule keeps_receive [OF 5]) (rule keeps_replication_response)
  moreover have "keeps_inv (kvs s5) (kvs s6)" by (rule keeps_receive [OF 6]) (rule keeps_change)
  moreover have "keeps_inv (kvs s6) (kvs s7)" by (rule keeps_receive [OF 7]) (auto intro: keeps_cache_response)
  moreover have "keeps_inv (kvs s7) (kvs s8)" by (rule keeps_receive [OF 8]) (rule keeps_management)
  moreover have "keeps_inv (kvs s8) (kvs s9)"
    using 9 by (auto simp: periodic_gossip_def ebind_Inr_iff split: if_splits dest: keeps_gossip_round)
  moreover have "keeps_inv (kvs s9) (kvs s10)"
    using 10 by (auto simp: periodic_report_def Let_def split: if_splits dest: keeps_report)
  moreover have "keeps_inv (kvs s10) (kvs s')"
    using 11 by (auto simp: periodic_redistribute_def ebind_Inr_iff dest: keeps_redistribute)
  ultimately show ?thesis unfolding keeps_inv_def by blast
qed

lemma keeps_serving: "serving ke s s' \<Longrightarrow> keeps_inv (kvs s) (kvs s')"
  by (induction rule: serving.induct) (auto intro: keeps_trans keeps_iteration)


section \<open>From the start\<close>

lemma fold_more:
  assumes "\<And>x a. ring_ctx.more (f x a) = ring_ctx.more a"
  shows "ring_ctx.more (fold f xs a) = ring_ctx.more a"
  by (induction xs arbitrary: a) (simp_all add: assms)

lemma add_member_more: "ring_ctx.more (mod_global_ring t g st) = ring_ctx.more st" "ring_ctx.more (add_member en t m st) = ring_ctx.more st"
  by (simp_all add: mod_global_ring_def add_member_def split_beta)

lemma populate_more: "ring_ctx.more (populate en m st) = ring_ctx.more st"
  unfolding populate_def by (rule fold_more) (simp add: split_beta fold_more add_member_more)

lemma form_local_rings_more: "ring_ctx.more (form_local_rings en pub priv st) = ring_ctx.more st"
  unfolding form_local_rings_def by (rule fold_more) (clarsimp, rule fold_more, simp)

lemmas start_more = add_member_more populate_more form_local_rings_more

lemma keeps_announce: "keeps_inv st (announce_join ke c st)"
  unfolding announce_join_def Let_def by (intro keeps_trans [OF _ keeps_fold_send] keeps_refl)

lemma run_init_inv:
  assumes "run_init ke time garbage rand0 membership answer = Inr (ke', st)"
  shows "worker_inv st"
proof -
  let ?st0 = "empty_state (time + tid (wt ke)) garbage rand0"
  from assms obtain st2 c where st: "st = (if tid (wt ke) = 0 then announce_join ke c st2 else st2)"
    and more: "ring_ctx.more st2 = ring_ctx.more ?st0"
    by (auto simp: run_init_def Let_def ebind_Inr_iff start_more)
  have "worker_inv ?st0"
    by (simp add: worker_inv_def typed_def caches_inverse_def empty_state_def ring_ctx.defs kvs_state.defs umap_get_def)
  with keeps_more [OF more] have "worker_inv st2" by (simp add: keeps_inv_def)
  then show ?thesis using keeps_announce [of st2 ke c] by (simp add: st keeps_inv_def)
qed

text \<open>C1: Whatever membership the seed node answered and whatever messages arrive afterwards, in every state
  that the event loop of a storage worker goes through, every stored key has a lattice type, the maps
  of stored keys, pending requests and pending gossip hold each key once, and a cache is listed for a
  key exactly if the key is listed for the cache.\<close>

theorem worker_invariant:
  assumes "run_init ke time garbage rand0 membership answer = Inr (ke', kvs s)" and "serving ke' s s'"
  shows "worker_inv (kvs s')"
  using run_init_inv [OF assms(1)] keeps_serving [OF assms(2)] by (simp add: keeps_inv_def)

definition example_start :: "kvs_env \<times> kvs_state" where
  "example_start = projr (run_init example_kvs_env 1 0 0 [(MEMORY, [(''B'', ''bb'')])] [])"

definition example_inbox :: inbox where
  "example_inbox = \<lparr>join_in = None, depart_in = None, self_depart_in = None, request_in = Some example_request,
     gossip_in = None, replication_response_in = None, replication_change_in = None,
     cache_ip_in = Some (KeyResponse_default\<lparr>kp_tuples := [KeyTuple_default\<lparr>kt_key := get_user_metadata_key ''c'',
        kt_payload := serialize_ts example_codecs 5 (enc (pb_strset example_codecs) [''k'', ''l''])\<rparr>]\<rparr>),
     management_in = None, elapsed = (\<lambda>_. 3), clock = 1\<rparr>"

definition example_server :: server where
  "example_server = \<lparr>kvs = snd example_start, gossip_start = 0, report_start = 0, working_time = 0,
     working_time_map = replicate 10 0, epoch = 0\<rparr>"

theorem worker_invariant_witness:
  "worker_inv (kvs (snd (projr (server_iteration (fst example_start) example_inbox example_server))))"
proof -
  let ?it = "server_iteration (fst example_start) example_inbox example_server"
  have "\<not> isl (run_init example_kvs_env 1 0 0 [(MEMORY, [(''B'', ''bb'')])] [])" by code_simp
  then have init: "run_init example_kvs_env 1 0 0 [(MEMORY, [(''B'', ''bb'')])] [] = Inr (fst example_start, kvs example_server)"
    by (simp add: example_start_def example_server_def)
  have "\<not> isl ?it \<and> fst (projr ?it)" by code_simp
  then have "?it = Inr (True, snd (projr ?it))" by (metis prod.collapse sum.collapse(2))
  then have "serving (fst example_start) example_server (snd (projr ?it))" by (rule serving.again [OF serving.start])
  with init show ?thesis by (rule worker_invariant)
qed

end
