(* ===== verification/Routing.thy ===== *)
theory Routing
  imports Kvs_Server
begin

text \<open>
  The routing tier: \<open>src/route\<close>. A routing thread tells clients which threads own a key, gives the
  membership of the cluster to servers that start, and learns of joins and departures.

  \<open>routing_state\<close> extends the cluster state with the address requests that wait for replication
  factors. \<open>routing_init\<close> and \<open>routing_iteration\<close> are the two halves of \<open>run\<close> in \<open>routing.cpp\<close>. The
  membership that a seed request is answered with goes back on the socket it came from, so it is a
  result and not one of the frames in \<open>sent\<close>.
\<close>

record routing_env =
  rt_env :: env
  rt :: RoutingThread
  rt_monitoring_ips :: "Address list"

record routing_state = ring_ctx +
  rt_pending_requests :: "(Key, (Address \<times> string) list) umap"

section \<open>\<open>seed_handler.cpp\<close>\<close>

definition seed_handler :: "'a ring_ctx_scheme \<Rightarrow> ClusterMembership" where
  "seed_handler st =
     map (\<lambda>(tid, hash_ring). (tid, map (\<lambda>st. (public_ip st, private_ip st)) (unique_servers hash_ring))) (global_hash_rings st)"

section \<open>\<open>membership_handler.cpp\<close>\<close>

definition tell_routing_workers :: "routing_env \<Rightarrow> (RoutingThread \<Rightarrow> Address) \<Rightarrow> frame \<Rightarrow> 'a ring_ctx_scheme \<Rightarrow> 'a ring_ctx_scheme" where
  "tell_routing_workers re address_of f st =
     fold (\<lambda>t. send (address_of (mk_RoutingThread (rt_ip (rt re)) t)) f)
       (map of_nat [1..<unat (kRoutingThreadCount (cfg (rt_env re)))]) st"

definition routing_membership_handler :: "routing_env \<Rightarrow> string \<Rightarrow> 'a ring_ctx_scheme \<Rightarrow> 'a ring_ctx_scheme res" where
  "routing_membership_handler re serialized st =
     (let v = split_string serialized (CHR '':'')
      in ebind (vec_at v 0) (\<lambda>type.
         ebind (ebind (vec_at v 1) Tier_Parse) (\<lambda>tier.
         ebind (vec_at v 2) (\<lambda>new_server_public_ip.
         ebind (vec_at v 3) (\<lambda>new_server_private_ip.
           if type = ''join''
           then ebind (vec_at v 4) (\<lambda>count.
                ebind (stoi count) (\<lambda>join_count.
                  let (inserted, ring) = global_insert (rt_env re) new_server_public_ip new_server_private_ip join_count 0
                        (global_ring st tier);
                      st1 = mod_global_ring tier (\<lambda>_. ring) st;
                      msg = v ! 1 @ '':'' @ v ! 2 @ '':'' @ v ! 3 @ '':'' @ v ! 4
                  in Inr (if inserted \<and> rt_tid (rt re) = 0
                     then tell_routing_workers re rt_notify_connect_address (Text serialized)
                            (fold (\<lambda>th. send (node_join_connect_address th) (Text msg))
                               (filter (\<lambda>th. private_ip th \<noteq> new_server_private_ip)
                                  (concat (map (\<lambda>(t, r). unique_servers r) (global_hash_rings st1)))) st1)
                     else st1)))
           else if type = ''depart''
           then let st1 = mod_global_ring tier (global_remove (rt_env re) new_server_public_ip new_server_private_ip 0) st;
                    st2 = (if rt_tid (rt re) = 0
                           then tell_routing_workers re rt_notify_connect_address (Text serialized) st1 else st1)
                in Inr (fold touch_global kAllTiers st2)
           else Inr st)))))"

section \<open>\<open>replication_change_handler.cpp\<close>\<close>

definition routing_replication_change_handler ::
  "routing_env \<Rightarrow> ReplicationFactorUpdate \<Rightarrow> 'a ring_ctx_scheme \<Rightarrow> 'a ring_ctx_scheme" where
  "routing_replication_change_handler re update st =
     fold update_replication update
       (if rt_tid (rt re) = 0
        then tell_routing_workers re rt_replication_change_connect_address (RepUpdate update) st else st)"

section \<open>\<open>address_handler.cpp\<close>\<close>

text \<open>The loop over the tiers: the threads of the first tier that has any, or nothing when the
  replication factors of the key are not known.\<close>

fun first_tier_threads ::
  "env \<Rightarrow> Address \<Rightarrow> Key \<Rightarrow> bool \<Rightarrow> Tier list \<Rightarrow> 'a ring_ctx_scheme \<Rightarrow> (ServerThread list option \<times> 'a ring_ctx_scheme) res" where
  "first_tier_threads en addr key metadata [] st = Inr (Some [], st)"
| "first_tier_threads en addr key metadata (tier # tiers) st =
     ebind (get_responsible_threads en addr key metadata [tier] st) (\<lambda>(threads, succeed, st1).
       if threads \<noteq> [] then Inr (Some threads, st1)
       else if \<not> succeed then Inr (None, st1)
       else first_tier_threads en addr key metadata tiers st1)"

definition routing_threads :: "routing_env \<Rightarrow> Key \<Rightarrow> bool \<Rightarrow> 'a ring_ctx_scheme \<Rightarrow> (ServerThread list option \<times> 'a ring_ctx_scheme) res" where
  "routing_threads re key metadata =
     first_tier_threads (rt_env re) (rt_replication_response_connect_address (rt re)) key metadata kAllTiers"

text \<open>The loop over the keys of a request. An unknown key ends the handler without an answer.\<close>

fun address_keys ::
  "routing_env \<Rightarrow> KeyAddressRequest \<Rightarrow> Key list \<Rightarrow> KeyAddressResponse \<Rightarrow> routing_state \<Rightarrow>
     (KeyAddressResponse option \<times> routing_state) res" where
  "address_keys re request [] response st = Inr (Some response, st)"
| "address_keys re request (key # keys) response st =
     ebind (if length key > 0 then routing_threads re key (is_metadata key) st else Inr (Some [], st)) (\<lambda>(found, st1).
       case found of
         None \<Rightarrow> Inr (None, st1\<lparr>rt_pending_requests := umap_mod [] key
                     (\<lambda>rs. rs @ [(kar_response_address request, kar_request_id request)]) (rt_pending_requests st1)\<rparr>)
       | Some threads \<Rightarrow> address_keys re request keys
           (response\<lparr>kap_addresses := kap_addresses response @ [(key, map key_request_connect_address threads)]\<rparr>) st1)"

definition num_servers :: "'a ring_ctx_scheme \<Rightarrow> u32" where
  "num_servers st = sum_list (map (\<lambda>(t, r). of_nat (length (nodes r))) (global_hash_rings st))"

definition address_handler :: "routing_env \<Rightarrow> KeyAddressRequest \<Rightarrow> routing_state \<Rightarrow> routing_state res" where
  "address_handler re request st =
     (let response = KeyAddressResponse_default\<lparr>kap_response_id := kar_request_id request\<rparr>
      in if num_servers st = 0
         then Inr (send (kar_response_address request)
                     (AddressResponse (response\<lparr>kap_error := NO_SERVERS, kap_addresses := map (\<lambda>key. (key, [])) (kar_keys request)\<rparr>)) st)
         else ebind (address_keys re request (kar_keys request) response st) (\<lambda>(answer, st1).
                case answer of
                  None \<Rightarrow> Inr st1
                | Some response1 \<Rightarrow>
                    if kar_keys request \<noteq> [] then Inr (send (kar_response_address request) (AddressResponse response1) st1)
                    else Inr st1))"

section \<open>\<open>replication_response_handler.cpp\<close>\<close>

definition address_answer :: "Key \<Rightarrow> ServerThread list \<Rightarrow> string \<Rightarrow> KeyAddressResponse" where
  "address_answer key threads request_id =
     KeyAddressResponse_default\<lparr>kap_response_id := request_id, kap_addresses := [(key, map key_request_connect_address threads)]\<rparr>"

definition serve_pending_addresses :: "routing_env \<Rightarrow> Key \<Rightarrow> routing_state \<Rightarrow> routing_state res" where
  "serve_pending_addresses re key st =
     (case map_of (rt_pending_requests st) key of
        None \<Rightarrow> Inr st
      | Some requests \<Rightarrow>
          ebind (routing_threads re key False st) (\<lambda>(found, st1).
            case found of
              None \<Rightarrow> Inr st1
            | Some threads \<Rightarrow>
                let st2 = fold (\<lambda>(address, request_id). send address (AddressResponse (address_answer key threads request_id))) requests st1
                in Inr (st2\<lparr>rt_pending_requests := umap_erase key (rt_pending_requests st2)\<rparr>)))"

definition routing_replication_response_handler :: "routing_env \<Rightarrow> KeyResponse \<Rightarrow> routing_state \<Rightarrow> routing_state res" where
  "routing_replication_response_handler re response st =
     ebind (vec_at (kp_tuples response) 0) (\<lambda>tuple.
       let key = get_key_from_metadata (kt_key tuple); pbs = pb (rt_env re)
       in if kt_error tuple = NO_ERROR
          then let rep_data = parsed (pb_rep pbs) (lv_value (parsed (pb_lww pbs) (kt_payload tuple)))
               in serve_pending_addresses re key (update_replication (rep_data\<lparr>rf_key := key\<rparr>) st)
          else if kt_error tuple = KEY_DNE
          then serve_pending_addresses re key
                 (st\<lparr>key_replication_map := init_replication (cfg (rt_env re)) key (key_replication_map st)\<rparr>)
          else if kt_error tuple = WRONG_THREAD
          then issue_replication_factor_request (rt_env re) (rt_replication_response_connect_address (rt re)) key
                 (global_ring st MEMORY) (local_ring st MEMORY) (touch_rings MEMORY st)
          else Inr st)"

section \<open>\<open>run\<close> of \<open>routing.cpp\<close>\<close>

definition routing_init :: "routing_env \<Rightarrow> u32 \<Rightarrow> routing_state" where
  "routing_init re time =
     (let ip = rt_ip (rt re);
          st0 = ring_ctx.extend
            \<lparr>global_hash_rings = [], local_hash_rings = [], key_replication_map = [], seed = time + rt_tid (rt re), sent = []\<rparr>
            (routing_state.fields []);
          st1 = (if rt_tid (rt re) = 0
                 then fold (\<lambda>address. send (mt_notify_connect_address address)
                              (Text (''join:'' @ Tier_Name ROUTING @ '':'' @ ip @ '':NULL''))) (rt_monitoring_ips re) st0
                 else st0)
      in form_local_rings (rt_env re) ip ip st1)"

record routing_inbox =
  seed_in :: bool
  notify_in :: "string option"
  rt_replication_response_in :: "KeyResponse option"
  rt_replication_change_in :: "ReplicationFactorUpdate option"
  key_address_in :: "KeyAddressRequest option"

definition on_message :: "'m option \<Rightarrow> ('m \<Rightarrow> 's \<Rightarrow> 's res) \<Rightarrow> 's \<Rightarrow> 's res" where
  "on_message message handler st = (case message of None \<Rightarrow> Inr st | Some m \<Rightarrow> handler m st)"

definition routing_iteration :: "routing_env \<Rightarrow> routing_inbox \<Rightarrow> routing_state \<Rightarrow> (ClusterMembership option \<times> routing_state) res" where
  "routing_iteration re ib st =
     ebind (on_message (notify_in ib) (routing_membership_handler re) st) (\<lambda>st1.
     ebind (on_message (rt_replication_response_in ib) (routing_replication_response_handler re) st1) (\<lambda>st2.
     ebind (on_message (rt_replication_change_in ib) (\<lambda>m st. Inr (routing_replication_change_handler re m st)) st2) (\<lambda>st3.
     ebind (on_message (key_address_in ib) (address_handler re) st3) (\<lambda>st4.
       Inr (if seed_in ib then Some (seed_handler st) else None, st4)))))"

inductive routing :: "routing_env \<Rightarrow> routing_state \<Rightarrow> routing_state \<Rightarrow> bool" for re where
  start: "routing re st st"
| again: "routing re st st1 \<Longrightarrow> routing_iteration re ib st1 = Inr (answer, st2) \<Longrightarrow> routing re st st2"

section \<open>Answering address requests\<close>

text \<open>The threads a client is sent to for a key, as a function of the rings and the
  replication factors: the owners in memory, or those on disk if memory has none.\<close>

definition routed :: "env \<Rightarrow> 'a ring_ctx_scheme \<Rightarrow> Key \<Rightarrow> ServerThread list \<Rightarrow> bool" where
  "routed en st key ts \<longleftrightarrow>
     (if is_metadata key
      then get_responsible_threads_metadata en key (global_ring st MEMORY) (local_ring st MEMORY) = Inr ts
      else umap_has (key_replication_map st) key \<and>
        ebind (owners en st key [MEMORY]) (\<lambda>ms. if ms = [] then owners en st key [DISK] else Inr ms) = Inr ts)"

lemma routed_same: "ctx_same st st' \<Longrightarrow> routed en st' key ts = routed en st key ts"
  by (simp add: routed_def owners_same cong: if_cong) (simp add: ctx_same_def)

lemma first_tier_threads_metadata:
  assumes "get_responsible_threads_metadata en key (global_ring st MEMORY) (local_ring st MEMORY) = Inr ts"
  shows "\<exists>st'. first_tier_threads en addr key True tiers st = Inr (Some (if tiers = [] then [] else ts), st') \<and> ctx_same st st'"
  using assms
proof (induction tiers arbitrary: st)
  case Nil
  show ?case by simp
next
  case (Cons tier tiers)
  let ?st = "touch_rings MEMORY st"
  have same: "ctx_same st ?st" by simp
  with Cons.prems have "get_responsible_threads_metadata en key (global_ring ?st MEMORY) (local_ring ?st MEMORY) = Inr ts"
    by (simp add: ctx_same_def)
  from Cons.IH [OF this] obtain st' where
    "first_tier_threads en addr key True tiers ?st = Inr (Some (if tiers = [] then [] else ts), st')" and "ctx_same ?st st'" by blast
  moreover from this(2) have "ctx_same st st'" by (rule ctx_same_trans [OF same])
  ultimately show ?case using Cons.prems by (cases "ts = []") (auto simp: get_responsible_threads_def)
qed

lemma routing_threads_routed:
  assumes "routed (rt_env re) st key ts"
  shows "\<exists>st'. routing_threads re key (is_metadata key) st = Inr (Some ts, st') \<and> ctx_same st st'"
proof (cases "is_metadata key")
  case True
  with assms first_tier_threads_metadata [of "rt_env re" key st ts _ kAllTiers] show ?thesis
    by (simp add: routing_threads_def routed_def kAllTiers_def)
next
  case False
  let ?en = "rt_env re" and ?addr = "rt_replication_response_connect_address (rt re)"
  from assms False obtain ms where has: "umap_has (key_replication_map st) key"
    and ms: "owners ?en st key [MEMORY] = Inr ms" "(if ms = [] then owners ?en st key [DISK] else Inr ms) = Inr ts"
    by (auto simp: routed_def ebind_Inr_iff split: if_splits)
  from get_responsible_threads_known [OF has, of ?en ?addr "[MEMORY]"] ms(1) obtain st1 where
    st1: "ctx_same st st1" "get_responsible_threads ?en ?addr key False [MEMORY] st = Inr (ms, True, st1)" by auto
  show ?thesis
  proof (cases "ms = []")
    case True
    have has1: "umap_has (key_replication_map st1) key" and o1: "owners ?en st1 key [DISK] = Inr ts"
      using has ms(2) True st1(1) by (simp_all add: ctx_same_def owners_def)
    from get_responsible_threads_known [OF has1, of ?en ?addr "[DISK]"] o1 obtain st2 where
      "ctx_same st1 st2" "get_responsible_threads ?en ?addr key False [DISK] st1 = Inr (ts, True, st2)" by auto
    with st1 True False show ?thesis
      by (auto simp: routing_threads_def kAllTiers_def intro: ctx_same_trans)
  next
    case nonempty: False
    with st1 ms(2) False show ?thesis by (simp add: routing_threads_def kAllTiers_def)
  qed
qed

lemma routing_threads_unknown:
  assumes "\<not> is_metadata key" and "\<not> umap_has (key_replication_map st) key"
    and "get_responsible_threads_metadata (rt_env re) (get_metadata_key key replication)
      (global_ring st MEMORY) (local_ring st MEMORY) = Inr ms" and "ms \<noteq> []"
  shows "\<exists>st'. routing_threads re key False st = Inr (None, st') \<and>
    ctx_asked (rt_replication_response_connect_address (rt re)) key st st'"
proof -
  let ?addr = "rt_replication_response_connect_address (rt re)"
  note eq = issue_replication_factor_request_eq [OF assms(3), of ?addr "touch_rings MEMORY st"]
  have "\<exists>st'. get_responsible_threads (rt_env re) ?addr key False [MEMORY] st = Inr ([], False, st')"
    unfolding get_responsible_threads_def eq using assms(2,4) by simp
  then obtain st' where st': "get_responsible_threads (rt_env re) ?addr key False [MEMORY] st = Inr ([], False, st')" ..
  from get_responsible_threads_unknown [OF assms(2) this] st' show ?thesis
    by (auto simp: routing_threads_def kAllTiers_def)
qed

lemma rt_pending_same: "ctx_same st st' \<Longrightarrow> rt_pending_requests st' = rt_pending_requests st"
  by (cases st; cases st') (simp add: ctx_same_def)

lemma address_keys_routed:
  assumes "\<forall>key\<in>set keys. key \<noteq> [] \<longrightarrow> routed (rt_env re) st key (ts key)"
  shows "\<exists>st'. ctx_same st st' \<and> address_keys re request (keys @ rest) response st =
    address_keys re request rest (response\<lparr>kap_addresses := kap_addresses response @
        map (\<lambda>key. (key, if key = [] then [] else map key_request_connect_address (ts key))) keys\<rparr>) st'"
  using assms
proof (induction keys arbitrary: response st)
  case Nil
  show ?case by (intro exI [of _ st]) simp
next
  case (Cons key keys)
  let ?r = "response\<lparr>kap_addresses := kap_addresses response @ [(key, if key = [] then [] else map key_request_connect_address (ts key))]\<rparr>"
  have "\<exists>st1. ctx_same st st1 \<and> address_keys re request ((key # keys) @ rest) response st = address_keys re request (keys @ rest) ?r st1"
  proof (cases "key = []")
    case False
    with Cons.prems routing_threads_routed [of re st key "ts key"] show ?thesis by auto
  qed (intro exI [of _ st], simp)
  then obtain st1 where st1: "ctx_same st st1"
    "address_keys re request ((key # keys) @ rest) response st = address_keys re request (keys @ rest) ?r st1" by blast
  have "\<forall>key\<in>set keys. key \<noteq> [] \<longrightarrow> routed (rt_env re) st1 key (ts key)"
    using Cons.prems routed_same [OF st1(1)] by simp
  from Cons.IH [OF this, of ?r] st1 show ?case by (auto intro: ctx_same_trans)
qed

definition example_routing_env :: routing_env where
  "example_routing_env = \<lparr>rt_env = example_env, rt = mk_RoutingThread ''r'' 0, rt_monitoring_ips = [''m'']\<rparr>"

definition example_routing :: routing_state where
  "example_routing = ring_ctx.extend
     \<lparr>global_hash_rings = [(MEMORY, example_ring)], local_hash_rings = [(MEMORY, example_local_ring)],
      key_replication_map = init_replication example_config ''k'' [], seed = 0, sent = []\<rparr> (routing_state.fields [])"

text \<open>C27: When the cluster has servers and the replication factors of all data keys of an address
  request are known, the client gets one answer, which lists for each key, in the order of the
  request, the addresses of the threads that own it in the first tier with owners, and nothing for an
  empty key. Nothing else changes.\<close>

theorem address_request_answered:
  assumes "num_servers st \<noteq> 0" and "kar_keys request \<noteq> []"
    and "\<forall>key\<in>set (kar_keys request). key \<noteq> [] \<longrightarrow> routed (rt_env re) st key (ts key)"
  shows "\<exists>st'. address_handler re request st = Inr st' \<and>
    sent st' = sent st @ [(kar_response_address request, AddressResponse
      \<lparr>kap_addresses = map (\<lambda>key. (key, if key = [] then [] else map key_request_connect_address (ts key))) (kar_keys request),
       kap_error = NO_ERROR, kap_response_id = kar_request_id request\<rparr>)] \<and>
    rt_pending_requests st' = rt_pending_requests st \<and> global_ring st' = global_ring st"
proof -
  let ?r = "KeyAddressResponse_default\<lparr>kap_response_id := kar_request_id request\<rparr>"
  from address_keys_routed [OF assms(3), of request "[]" ?r] obtain st1 where same: "ctx_same st st1"
    and eq: "address_keys re request (kar_keys request) ?r st = Inr (Some (?r\<lparr>kap_addresses := kap_addresses ?r @
        map (\<lambda>key. (key, if key = [] then [] else map key_request_connect_address (ts key))) (kar_keys request)\<rparr>), st1)" by auto
  let ?st' = "send (kar_response_address request) (AddressResponse (?r\<lparr>kap_addresses := kap_addresses ?r @
        map (\<lambda>key. (key, if key = [] then [] else map key_request_connect_address (ts key))) (kar_keys request)\<rparr>)) st1"
  have "address_handler re request st = Inr ?st'"
    unfolding address_handler_def Let_def eq using assms(1,2) by simp
  moreover have "rt_pending_requests ?st' = rt_pending_requests st" "global_ring ?st' = global_ring st" "sent st1 = sent st"
    using same rt_pending_same [OF same] by (simp_all add: ctx_same_def send_def global_ring_def fun_eq_iff)
  ultimately show ?thesis by (intro exI [of _ ?st']) (simp add: KeyAddressResponse_default_def)
qed

theorem address_request_answered_witness:
  "\<exists>st'. address_handler example_routing_env \<lparr>kar_response_address = ''tcp://u:6850'', kar_keys = [''k'', []], kar_request_id = ''7''\<rparr>
      example_routing = Inr st' \<and>
    sent st' = [(''tcp://u:6850'', AddressResponse \<lparr>kap_addresses = [(''k'', [''tcp://A:6200'']), ([], [])],
      kap_error = NO_ERROR, kap_response_id = ''7''\<rparr>)]"
proof -
  let ?ts = "[mk_ServerThread3 ''A'' ''a'' 0]"
  have "num_servers example_routing \<noteq> 0" "routed (rt_env example_routing_env) example_routing ''k'' ?ts" by code_simp+
  moreover have "map key_request_connect_address ?ts = [''tcp://A:6200'']" by code_simp
  moreover have "sent example_routing = []" by code_simp
  ultimately show ?thesis
    using address_request_answered [of example_routing "\<lparr>kar_response_address = ''tcp://u:6850'', kar_keys = [''k'', []], kar_request_id = ''7''\<rparr>"
        example_routing_env "\<lambda>_. ?ts"] by auto
qed

section \<open>Keys whose replication factors are not known\<close>

text \<open>C32: As soon as the replication factors of one key of an address request are not known, the
  client gets no answer for any key: the routing thread asks for the factors of that key and remembers
  the client for that key only. The keys before it are looked up in vain and the keys after it are
  never looked at.\<close>

theorem multi_key_request_forgets_keys:
  assumes "num_servers st \<noteq> 0" and "kar_keys request = before @ key # after"
    and "\<forall>k\<in>set before. k \<noteq> [] \<longrightarrow> routed (rt_env re) st k (ts k)"
    and "key \<noteq> []" and "\<not> is_metadata key" and "\<not> umap_has (key_replication_map st) key"
    and "get_responsible_threads_metadata (rt_env re) (get_metadata_key key replication)
      (global_ring st MEMORY) (local_ring st MEMORY) = Inr ms" and "ms \<noteq> []"
  shows "\<exists>st' th. address_handler re request st = Inr st' \<and>
    sent st' = sent st @ [(key_request_connect_address th,
      Request (replication_request (rt_replication_response_connect_address (rt re)) key))] \<and>
    rt_pending_requests st' = umap_mod [] key
      (\<lambda>rs. rs @ [(kar_response_address request, kar_request_id request)]) (rt_pending_requests st)"
proof -
  let ?r = "KeyAddressResponse_default\<lparr>kap_response_id := kar_request_id request\<rparr>"
  from address_keys_routed [OF assms(3), of request "key # after" ?r] obtain st1 r where same: "ctx_same st st1"
    and eq: "address_keys re request (kar_keys request) ?r st = address_keys re request (key # after) r st1"
    unfolding assms(2) by blast
  have "\<not> umap_has (key_replication_map st1) key" "get_responsible_threads_metadata (rt_env re) (get_metadata_key key replication)
      (global_ring st1 MEMORY) (local_ring st1 MEMORY) = Inr ms"
    using assms(6,7) same by (simp_all add: ctx_same_def)
  from routing_threads_unknown [OF assms(5) this assms(8)] obtain st2 where
    st2: "routing_threads re key False st1 = Inr (None, st2)" and
    asked: "ctx_asked (rt_replication_response_connect_address (rt re)) key st1 st2" by blast
  let ?st' = "st2\<lparr>rt_pending_requests := umap_mod [] key
      (\<lambda>rs. rs @ [(kar_response_address request, kar_request_id request)]) (rt_pending_requests st2)\<rparr>"
  have "address_handler re request st = Inr ?st'"
    unfolding address_handler_def Let_def eq using assms(1,4,5) st2 by simp
  moreover have "rt_pending_requests st2 = rt_pending_requests st"
    using asked rt_pending_same [OF same] by (cases st1; cases st2) (simp add: ctx_asked_def)
  moreover from asked obtain th where "sent st2 = sent st1 @ [(key_request_connect_address th,
      Request (replication_request (rt_replication_response_connect_address (rt re)) key))]" by (auto simp: ctx_asked_def)
  moreover have "sent st1 = sent st" using same by (simp add: ctx_same_def)
  ultimately show ?thesis by (intro exI [of _ ?st'] exI [of _ th]) simp
qed

theorem multi_key_request_forgets_keys_witness:
  "\<exists>st' th. address_handler example_routing_env
      \<lparr>kar_response_address = ''tcp://u:6850'', kar_keys = [''k'', ''l'', ''k''], kar_request_id = ''7''\<rparr> example_routing = Inr st' \<and>
    sent st' = [(key_request_connect_address th, Request (replication_request ''tcp://r:6500'' ''l''))] \<and>
    rt_pending_requests st' = [(''l'', [(''tcp://u:6850'', ''7'')])]"
proof -
  let ?q = "\<lparr>kar_response_address = ''tcp://u:6850'', kar_keys = [''k'', ''l'', ''k''], kar_request_id = ''7''\<rparr>"
  let ?ts = "[mk_ServerThread3 ''A'' ''a'' 0]"
  have "num_servers example_routing \<noteq> 0" "routed (rt_env example_routing_env) example_routing ''k'' ?ts"
    "\<not> is_metadata ''l''" "\<not> umap_has (key_replication_map example_routing) ''l''" "sent example_routing = []"
    "rt_pending_requests example_routing = []" by code_simp+
  moreover have "get_responsible_threads_metadata (rt_env example_routing_env) (get_metadata_key ''l'' replication)
      (global_ring example_routing MEMORY) (local_ring example_routing MEMORY) = Inr ?ts" by code_simp
  moreover have "rt_replication_response_connect_address (rt example_routing_env) = ''tcp://r:6500''" by code_simp
  moreover have "umap_mod [] ''l'' (\<lambda>rs. rs @ [(''tcp://u:6850'', ''7'')]) [] = [(''l'', [(''tcp://u:6850'', ''7'')])]" by code_simp
  ultimately show ?thesis
    using multi_key_request_forgets_keys [of example_routing ?q "[''k'']" "''l''" "[''k'']" example_routing_env "\<lambda>_. ?ts" ?ts] by simp
qed

lemma key_of_replication_key: "get_key_from_metadata (get_metadata_key k replication) = k"
  by (simp add: get_key_from_metadata_def get_metadata_key_def kMetadataDelimiter_def typed_metadata_suffix_key)

text \<open>What a routing thread knows after an answer about the replication factors of a key.\<close>

definition learned :: "env \<Rightarrow> Key \<Rightarrow> KeyTuple \<Rightarrow> 'a ring_ctx_scheme \<Rightarrow> 'a ring_ctx_scheme" where
  "learned en key tuple st =
     (if kt_error tuple = NO_ERROR
      then update_replication ((parsed (pb_rep (pb en)) (lv_value (parsed (pb_lww (pb en)) (kt_payload tuple))))\<lparr>rf_key := key\<rparr>) st
      else st\<lparr>key_replication_map := init_replication (cfg en) key (key_replication_map st)\<rparr>)"

lemma learned_fields: "global_ring (learned en key tuple st) = global_ring st" "local_ring (learned en key tuple st) = local_ring st"
  "sent (learned en key tuple st) = sent st" "ring_ctx.more (learned en key tuple st) = ring_ctx.more st"
  by (simp_all add: learned_def update_replication_def global_ring_def local_ring_def fun_eq_iff)

lemma learned_factors:
  assumes "key_replication_map st' = key_replication_map st"
  shows "key_replication_map (learned en key tuple st') = key_replication_map (learned en key tuple st)"
  using assms by (simp add: learned_def update_replication_def)

lemma routed_cong:
  assumes "global_ring st' = global_ring st" "local_ring st' = local_ring st" "key_replication_map st' = key_replication_map st"
  shows "routed en st' key ts = routed en st key ts"
proof -
  have "global_rep st' = global_rep st" "local_rep st' = local_rep st"
    using assms(3) by (simp_all add: global_rep_def local_rep_def fun_eq_iff)
  with assms have "owners en st' key tiers = owners en st key tiers" for tiers by (simp add: owners_def)
  with assms show ?thesis by (simp add: routed_def cong: if_cong)
qed

lemma fold_send_frames: "fold (\<lambda>(a, i). send a (f i)) xs st = st\<lparr>sent := sent st @ map (\<lambda>(a, i). (a, f i)) xs\<rparr>"
  by (induction xs arbitrary: st) (auto simp: send_def)

lemma serve_pending_addresses_routed:
  assumes "map_of (rt_pending_requests st) key = Some requests" and "routed (rt_env re) st key ts" and "\<not> is_metadata key"
  shows "\<exists>st'. serve_pending_addresses re key st = Inr st' \<and>
    sent st' = sent st @ map (\<lambda>(a, i). (a, AddressResponse (address_answer key ts i))) requests \<and>
    rt_pending_requests st' = umap_erase key (rt_pending_requests st) \<and>
    umap_has (key_replication_map st') = umap_has (key_replication_map st)"
proof -
  from routing_threads_routed [OF assms(2)] assms(3) obtain st1 where
    st1: "routing_threads re key False st = Inr (Some ts, st1)" and same: "ctx_same st st1" by auto
  let ?st' = "(st1\<lparr>sent := sent st1 @ map (\<lambda>(a, i). (a, AddressResponse (address_answer key ts i))) requests\<rparr>)
      \<lparr>rt_pending_requests := umap_erase key (rt_pending_requests st1)\<rparr>"
  have "serve_pending_addresses re key st = Inr ?st'"
    unfolding serve_pending_addresses_def by (simp add: assms(1) st1 Let_def fold_send_frames)
  then show ?thesis
    using rt_pending_same [OF same] same by (intro exI [of _ ?st']) (simp add: ctx_same_def)
qed

lemma learns:
  assumes "kp_tuples response = [tuple]" and "kt_key tuple = get_metadata_key key replication"
    and "kt_error tuple = NO_ERROR \<or> kt_error tuple = KEY_DNE"
  shows "routing_replication_response_handler re response st = serve_pending_addresses re key (learned (rt_env re) key tuple st)"
  unfolding routing_replication_response_handler_def
  using assms by (auto simp: vec_at_def learned_def Let_def key_of_replication_key)

text \<open>C28: A client that asks for a key with unknown replication factors is answered. Its request makes
  the routing thread ask for the factors; when the answer arrives, with the factors or saying that the
  defaults apply, every client that waits for the key gets the addresses of the owners that follow from
  them, in the order of the requests, and no client waits for the key any more.\<close>

theorem unknown_key_answered:
  assumes "num_servers st \<noteq> 0" and "kar_keys request = [key]"
    and "key \<noteq> []" and "\<not> is_metadata key" and "\<not> umap_has (key_replication_map st) key"
    and "get_responsible_threads_metadata (rt_env re) (get_metadata_key key replication)
      (global_ring st MEMORY) (local_ring st MEMORY) = Inr ms" and "ms \<noteq> []"
    and "kp_tuples response = [tuple]" and "kt_key tuple = get_metadata_key key replication"
    and "kt_error tuple = NO_ERROR \<or> kt_error tuple = KEY_DNE"
    and "routed (rt_env re) (learned (rt_env re) key tuple st) key ts"
  shows "\<exists>st1 st2 th. address_handler re request st = Inr st1 \<and>
    sent st1 = sent st @ [(key_request_connect_address th,
      Request (replication_request (rt_replication_response_connect_address (rt re)) key))] \<and>
    routing_replication_response_handler re response st1 = Inr st2 \<and>
    sent st2 = sent st1 @ map (\<lambda>(a, i). (a, AddressResponse (address_answer key ts i)))
      (umap_get [] (rt_pending_requests st) key @ [(kar_response_address request, kar_request_id request)]) \<and>
    map_of (rt_pending_requests st2) key = None"
proof -
  from routing_threads_unknown [OF assms(4-7)] obtain st0 where
    st0: "routing_threads re key False st = Inr (None, st0)" and
    asked: "ctx_asked (rt_replication_response_connect_address (rt re)) key st st0" by blast
  define st1 where "st1 = st0\<lparr>rt_pending_requests := umap_mod [] key
      (\<lambda>rs. rs @ [(kar_response_address request, kar_request_id request)]) (rt_pending_requests st0)\<rparr>"
  have handled: "address_handler re request st = Inr st1"
    unfolding address_handler_def Let_def st1_def using assms(1-4) st0 by simp
  have pend: "rt_pending_requests st0 = rt_pending_requests st"
    using asked by (cases st; cases st0) (simp add: ctx_asked_def)
  from asked obtain th where th: "sent st1 = sent st @ [(key_request_connect_address th,
      Request (replication_request (rt_replication_response_connect_address (rt re)) key))]" by (auto simp: ctx_asked_def st1_def)
  let ?l = "learned (rt_env re) key tuple st1"
  have same: "global_ring st1 = global_ring st" "local_ring st1 = local_ring st" "key_replication_map st1 = key_replication_map st"
    using asked by (simp_all add: st1_def ctx_asked_def global_ring_def local_ring_def fun_eq_iff)
  have "routed (rt_env re) ?l key ts"
    using assms(11) routed_cong [of ?l "learned (rt_env re) key tuple st"] same learned_factors [OF same(3)]
    by (simp add: learned_fields)
  moreover have lp: "rt_pending_requests ?l = rt_pending_requests st1"
    using learned_fields(4) [of "rt_env re" key tuple st1] by (cases ?l; cases st1) simp
  then have "map_of (rt_pending_requests ?l) key =
      Some (umap_get [] (rt_pending_requests st) key @ [(kar_response_address request, kar_request_id request)])"
    by (simp add: st1_def pend)
  ultimately obtain st2 where "serve_pending_addresses re key ?l = Inr st2"
    "sent st2 = sent ?l @ map (\<lambda>(a, i). (a, AddressResponse (address_answer key ts i)))
      (umap_get [] (rt_pending_requests st) key @ [(kar_response_address request, kar_request_id request)])"
    "rt_pending_requests st2 = umap_erase key (rt_pending_requests ?l)"
    using serve_pending_addresses_routed [of ?l key _ re ts] assms(4) by blast
  with handled th learns [OF assms(8-10), of re st1] show ?thesis
    by (intro exI [of _ st1] exI [of _ st2] exI [of _ th]) (simp add: learned_fields)
qed

theorem unknown_key_answered_witness:
  "\<exists>st1 st2. address_handler example_routing_env \<lparr>kar_response_address = ''tcp://u:6850'', kar_keys = [''l''], kar_request_id = ''7''\<rparr>
      example_routing = Inr st1 \<and>
    routing_replication_response_handler example_routing_env
      (KeyResponse_default\<lparr>kp_tuples := [KeyTuple_default\<lparr>kt_key := get_metadata_key ''l'' replication, kt_error := KEY_DNE\<rparr>]\<rparr>) st1 = Inr st2 \<and>
    sent st2 = sent st1 @ [(''tcp://u:6850'', AddressResponse (address_answer ''l'' [mk_ServerThread3 ''A'' ''a'' 0] ''7''))]"
proof -
  let ?q = "\<lparr>kar_response_address = ''tcp://u:6850'', kar_keys = [''l''], kar_request_id = ''7''\<rparr>"
  let ?t = "KeyTuple_default\<lparr>kt_key := get_metadata_key ''l'' replication, kt_error := KEY_DNE\<rparr>"
  let ?r = "KeyResponse_default\<lparr>kp_tuples := [?t]\<rparr>"
  let ?ts = "[mk_ServerThread3 ''A'' ''a'' 0]"
  have "num_servers example_routing \<noteq> 0" "routed (rt_env example_routing_env) (learned (rt_env example_routing_env) ''l'' ?t example_routing) ''l'' ?ts"
    "\<not> is_metadata ''l''" "\<not> umap_has (key_replication_map example_routing) ''l''" by code_simp+
  moreover have "get_responsible_threads_metadata (rt_env example_routing_env) (get_metadata_key ''l'' replication)
      (global_ring example_routing MEMORY) (local_ring example_routing MEMORY) = Inr ?ts" by code_simp
  moreover have "umap_get [] (rt_pending_requests example_routing) ''l'' = []" by code_simp
  ultimately show ?thesis
    using unknown_key_answered [of example_routing ?q "''l''" example_routing_env ?ts ?r ?t ?ts] by auto
qed

section \<open>The invariant of a routing thread\<close>

lemma get_responsible_threads_keeps:
  assumes "get_responsible_threads en addr key md tiers st = Inr (ts, ok, st')"
  shows "global_ring st' = global_ring st \<and> local_ring st' = local_ring st \<and> ring_ctx.more st' = ring_ctx.more st \<and> (md \<longrightarrow> ok)"
proof (cases md)
  case True
  from get_responsible_threads_metadata_ok [of st en addr key tiers] obtain c' where c': "ctx_same st c'"
    and eq: "get_responsible_threads en addr key True tiers st =
      ebind (get_responsible_threads_metadata en key (global_ring st MEMORY) (local_ring st MEMORY)) (\<lambda>ts. Inr (ts, True, c'))"
    by (elim exE conjE) (rule that)
  from assms True have "get_responsible_threads en addr key True tiers st = Inr (ts, ok, st')" by simp
  from this [unfolded eq] c' True show ?thesis by (auto simp: ebind_Inr_iff ctx_same_def)
next
  case False
  show ?thesis
  proof (cases "umap_has (key_replication_map st) key")
    case True
    from get_responsible_threads_known [OF True, of en addr tiers] obtain c' where c': "ctx_same st c'"
      and eq: "get_responsible_threads en addr key False tiers st = ebind (owners en st key tiers) (\<lambda>ts. Inr (ts, True, c'))"
      by (elim exE conjE) (rule that)
    from assms False have "get_responsible_threads en addr key False tiers st = Inr (ts, ok, st')" by simp
    from this [unfolded eq] c' False show ?thesis by (auto simp: ebind_Inr_iff ctx_same_def)
  next
    case unknown: False
    from get_responsible_threads_unknown [OF unknown, of en addr tiers ts ok st'] assms False show ?thesis
      by (auto simp: ctx_asked_def)
  qed
qed

lemma first_tier_threads_keeps:
  assumes "first_tier_threads en addr key md tiers st = Inr (found, st')"
  shows "global_ring st' = global_ring st \<and> local_ring st' = local_ring st \<and> ring_ctx.more st' = ring_ctx.more st \<and>
    (md \<longrightarrow> found \<noteq> None)"
  using assms
proof (induction tiers arbitrary: st)
  case (Cons tier tiers)
  then obtain ts ok st1 where r: "get_responsible_threads en addr key md [tier] st = Inr (ts, ok, st1)"
    by (auto simp: ebind_Inr_iff)
  note k = get_responsible_threads_keeps [OF r]
  show ?case
  proof (cases "ts = [] \<and> ok")
    case True
    with Cons.prems r have "first_tier_threads en addr key md tiers st1 = Inr (found, st')" by simp
    from Cons.IH [OF this] k show ?thesis by simp
  next
    case False
    with Cons.prems r k show ?thesis by (auto split: if_splits)
  qed
qed auto

definition pending_ok :: "(Key, (Address \<times> string) list) umap \<Rightarrow> bool" where
  "pending_ok m \<longleftrightarrow> umap_wf m \<and> (\<forall>key requests. map_of m key = Some requests \<longrightarrow> requests \<noteq> [] \<and> key \<noteq> [] \<and> \<not> is_metadata key)"

definition routing_inv :: "routing_env \<Rightarrow> routing_state \<Rightarrow> bool" where
  "routing_inv re st \<longleftrightarrow>
     (\<forall>tier. ring_inv (GlobalHasher_thread (rt_env re)) (kVirtualThreadNum (cfg (rt_env re))) (global_ring st tier)) \<and>
     (\<forall>tier. ring_inv (LocalHasher_thread (rt_env re)) (kVirtualThreadNum (cfg (rt_env re))) (local_ring st tier)) \<and>
     local_ring st = local_ring (routing_init re 0) \<and>
     pending_ok (rt_pending_requests st)"

lemma pending_ok_erase: "pending_ok m \<Longrightarrow> pending_ok (umap_erase key m)"
  unfolding pending_ok_def by (simp add: wf_intros)

lemma ring_updates [simp]:
  "local_ring (st\<lparr>rt_pending_requests := p\<rparr>) = local_ring st" "global_ring (st\<lparr>rt_pending_requests := p\<rparr>) = global_ring st"
  "local_ring (st'\<lparr>global_hash_rings := g\<rparr>) = local_ring st'" "local_ring (st'\<lparr>sent := fs\<rparr>) = local_ring st'"
  "global_ring (st'\<lparr>sent := fs\<rparr>) = global_ring st'"
  by (simp_all add: local_ring_def global_ring_def fun_eq_iff)

lemma routing_inv_cong:
  assumes "global_ring st' = global_ring st" "local_ring st' = local_ring st" "rt_pending_requests st' = rt_pending_requests st"
  shows "routing_inv re st' = routing_inv re st"
  using assms by (simp add: routing_inv_def)

lemma rt_pending_more: "ring_ctx.more st' = ring_ctx.more st \<Longrightarrow> rt_pending_requests st' = rt_pending_requests st"
  by (cases st; cases st') simp

lemma routing_threads_inv:
  assumes "routing_threads re key md st = Inr (found, st')" and "routing_inv re st"
  shows "routing_inv re st'" and "md \<Longrightarrow> found \<noteq> None"
  using first_tier_threads_keeps [OF assms(1) [unfolded routing_threads_def]] assms(2) routing_inv_cong [of st' st]
    rt_pending_more [of st' st] by auto

lemma address_keys_inv:
  assumes "address_keys re request keys response st = Inr (answer, st')" and "routing_inv re st"
  shows "routing_inv re st'"
  using assms
proof (induction keys arbitrary: response st)
  case (Cons key keys)
  show ?case
  proof (cases "key = []")
    case True
    with Cons show ?thesis by auto
  next
    case False
    with Cons.prems(1) obtain found st1 where f: "routing_threads re key (is_metadata key) st = Inr (found, st1)"
      by (auto simp: ebind_Inr_iff)
    note inv = routing_threads_inv [OF f Cons.prems(2)]
    show ?thesis
    proof (cases found)
      case None
      with inv(2) have "\<not> is_metadata key" by auto
      with inv(1) have "routing_inv re (st1\<lparr>rt_pending_requests := umap_mod [] key
          (\<lambda>rs. rs @ [(kar_response_address request, kar_request_id request)]) (rt_pending_requests st1)\<rparr>)"
        using False by (auto simp: routing_inv_def pending_ok_def wf_intros split: if_splits)
      with Cons.prems(1) f None False show ?thesis by simp
    next
      case (Some ts)
      with Cons.prems(1) f False inv(1) Cons.IH show ?thesis by auto
    qed
  qed
qed simp

lemma routing_inv_send: "routing_inv re (send a f st) = routing_inv re st"
  by (rule routing_inv_cong) (simp_all add: send_def global_ring_def local_ring_def fun_eq_iff)

lemma routing_inv_fold_send: "routing_inv re (fold (\<lambda>x. send (a x) (f x)) xs st) = routing_inv re st"
  by (induction xs arbitrary: st) (simp_all add: routing_inv_send)

lemma address_handler_inv:
  assumes "address_handler re request st = Inr st'" and "routing_inv re st"
  shows "routing_inv re st'"
proof (cases "num_servers st = 0")
  case True
  with assms show ?thesis by (auto simp: address_handler_def Let_def routing_inv_send)
next
  case False
  with assms(1) obtain answer st1 where
    a: "address_keys re request (kar_keys request) (KeyAddressResponse_default\<lparr>kap_response_id := kar_request_id request\<rparr>) st = Inr (answer, st1)"
    by (auto simp: address_handler_def Let_def ebind_Inr_iff)
  have "st' = st1 \<or> (\<exists>a f. st' = send a f st1)"
    using assms(1) [unfolded address_handler_def Let_def a ebind_simps] False by (auto split: option.splits if_splits)
  with address_keys_inv [OF a assms(2)] show ?thesis by (auto simp: routing_inv_send)
qed

lemma routing_inv_ring:
  assumes "routing_inv re st" and "ring_inv (GlobalHasher_thread (rt_env re)) (kVirtualThreadNum (cfg (rt_env re))) (f (global_ring st tier))"
  shows "routing_inv re (mod_global_ring tier f st)"
  using assms by (auto simp: routing_inv_def mod_global_ring_def) (auto simp: global_ring_def)

lemma routing_inv_tell: "routing_inv re (tell_routing_workers re a f st) = routing_inv re st"
  unfolding tell_routing_workers_def by (rule routing_inv_fold_send)

lemma routing_inv_same: "ctx_same st st' \<Longrightarrow> routing_inv re st' = routing_inv re st"
  by (rule routing_inv_cong [OF _ _ rt_pending_same]) (simp_all add: ctx_same_def)

lemma routing_membership_inv:
  assumes "routing_membership_handler re serialized st = Inr st'" and "routing_inv re st"
  shows "routing_inv re st'"
proof -
  let ?en = "rt_env re" and ?v = "split_string serialized (CHR '':'')"
  from assms(1) obtain type tn tier pub priv where parts: "vec_at ?v 0 = Inr type" "vec_at ?v 1 = Inr tn" "Tier_Parse tn = Inr tier"
    "vec_at ?v 2 = Inr pub" "vec_at ?v 3 = Inr priv"
    by (auto simp: routing_membership_handler_def Let_def ebind_Inr_iff)
  note eq = assms(1) [unfolded routing_membership_handler_def Let_def parts ebind_simps]
  have ring: "ring_inv (GlobalHasher_thread ?en) (kVirtualThreadNum (cfg ?en)) (global_ring st tier)"
    using assms(2) by (simp add: routing_inv_def)
  consider "type = ''join''" | "type = ''depart''" | "type \<noteq> ''join''" "type \<noteq> ''depart''" by blast
  then show ?thesis
  proof cases
    case 1
    with eq obtain c n where "vec_at ?v 4 = Inr c" "stoi c = Inr n" by (auto simp: ebind_Inr_iff)
    note eq' = eq [unfolded this ebind_simps]
    obtain ins r where g: "global_insert ?en pub priv n 0 (global_ring st tier) = (ins, r)" by fastforce
    have "ring_inv (GlobalHasher_thread ?en) (kVirtualThreadNum (cfg ?en)) r"
      using HashRing_insert_inv [OF ring, of pub priv n 0] g by (simp add: global_insert_def)
    with assms(2) have "routing_inv re (mod_global_ring tier (\<lambda>_. r) st)" by (rule routing_inv_ring)
    with 1 eq' g show ?thesis by (auto simp: routing_inv_tell routing_inv_fold_send split: if_splits)
  next
    case 2
    have "routing_inv re (mod_global_ring tier (global_remove ?en pub priv 0) st)"
      using assms(2) HashRing_remove_inv(1) [OF ring global_hash_eq] by (intro routing_inv_ring) (simp_all add: global_remove_def)
    moreover have "routing_inv re (fold touch_global ts a) = routing_inv re a" for ts a
      by (induction ts arbitrary: a) (simp_all add: routing_inv_same [OF ctx_same_touch_global])
    ultimately show ?thesis using 2 eq by (auto simp: routing_inv_tell split: if_splits)
  next
    case 3
    with eq assms(2) show ?thesis by simp
  qed
qed

lemma serve_pending_addresses_inv:
  assumes "serve_pending_addresses re key st = Inr st'" and "routing_inv re st"
  shows "routing_inv re st'"
proof (cases "map_of (rt_pending_requests st) key")
  case (Some requests)
  with assms(1) obtain found st1 where f: "routing_threads re key False st = Inr (found, st1)"
    by (auto simp: serve_pending_addresses_def ebind_Inr_iff)
  note inv = routing_threads_inv(1) [OF f assms(2)]
  have "st' = st1 \<or> (\<exists>fs. st' = st1\<lparr>sent := fs, rt_pending_requests := umap_erase key (rt_pending_requests st1)\<rparr>)"
    using assms(1) [unfolded serve_pending_addresses_def Some option.case f ebind_simps Let_def fold_send_frames]
    by (auto split: option.splits)
  with inv show ?thesis
    by (auto simp: routing_inv_def intro: pending_ok_erase)
qed (use assms in \<open>simp add: serve_pending_addresses_def\<close>)

lemma routing_inv_factors: "routing_inv re (st\<lparr>key_replication_map := m\<rparr>) = routing_inv re st"
  by (rule routing_inv_cong) (simp_all add: global_ring_def local_ring_def fun_eq_iff)

lemma routing_inv_update: "routing_inv re (update_replication r st) = routing_inv re st"
  unfolding update_replication_def by (rule routing_inv_factors)

lemma routing_response_inv:
  assumes "routing_replication_response_handler re response st = Inr st'" and "routing_inv re st"
  shows "routing_inv re st'"
proof -
  from assms(1) obtain tuple where t: "vec_at (kp_tuples response) 0 = Inr tuple"
    by (auto simp: routing_replication_response_handler_def ebind_Inr_iff)
  have serve: "routing_inv re st'" if "serve_pending_addresses re key s = Inr st'" "routing_inv re s = routing_inv re st" for key s
    using serve_pending_addresses_inv [OF that(1)] that(2) assms(2) by simp
  have ask: "routing_inv re st'" if "issue_replication_factor_request (rt_env re) addr key g l (touch_rings MEMORY st) = Inr st'" for addr key g l
  proof -
    from that obtain a f sd where "st' = send a f ((touch_rings MEMORY st)\<lparr>seed := sd\<rparr>)"
      by (auto simp: issue_replication_factor_request_def Let_def ebind_Inr_iff split: if_splits prod.splits)
    moreover have "routing_inv re (s\<lparr>seed := sd\<rparr>) = routing_inv re s" for s sd
      by (rule routing_inv_cong) (simp_all add: global_ring_def local_ring_def fun_eq_iff)
    ultimately show ?thesis using assms(2) by (simp add: routing_inv_send routing_inv_same [OF ctx_same_touch_rings])
  qed
  from assms(1) [unfolded routing_replication_response_handler_def Let_def t ebind_simps] assms(2) show ?thesis
    by (auto simp: routing_inv_update routing_inv_factors split: if_splits dest: ask intro: serve)
qed

lemma routing_change_inv: "routing_inv re (routing_replication_change_handler re m st) = routing_inv re st"
proof -
  have "routing_inv re (fold update_replication m s) = routing_inv re s" for m s
    by (induction m arbitrary: s) (simp_all add: routing_inv_update)
  then show ?thesis by (simp add: routing_replication_change_handler_def routing_inv_tell)
qed

lemma routing_iteration_inv:
  assumes "routing_iteration re ib st = Inr (answer, st')" and "routing_inv re st"
  shows "routing_inv re st'"
proof -
  have on: "routing_inv re b" if "on_message m h a = Inr b" "routing_inv re a"
    "\<And>x a b. h x a = Inr b \<Longrightarrow> routing_inv re a \<Longrightarrow> routing_inv re b" for m h a b
    using that by (auto simp: on_message_def split: option.splits)
  from assms(1) obtain st1 st2 st3 where
    1: "on_message (notify_in ib) (routing_membership_handler re) st = Inr st1" and
    2: "on_message (rt_replication_response_in ib) (routing_replication_response_handler re) st1 = Inr st2" and
    3: "on_message (rt_replication_change_in ib) (\<lambda>m st. Inr (routing_replication_change_handler re m st)) st2 = Inr st3" and
    4: "on_message (key_address_in ib) (address_handler re) st3 = Inr st'"
    by (auto simp: routing_iteration_def ebind_Inr_iff)
  note i1 = on [OF 1 assms(2) routing_membership_inv]
  note i2 = on [OF 2 i1 routing_response_inv]
  have i3: "routing_inv re st3" by (rule on [OF 3 i2]) (auto simp: routing_change_inv)
  show ?thesis by (rule on [OF 4 i3 address_handler_inv])
qed

definition local_rings_of :: "env \<Rightarrow> Address \<Rightarrow> Address \<Rightarrow> (Tier, LocalHashRing) umap \<Rightarrow> (Tier, LocalHashRing) umap" where
  "local_rings_of en pub priv m =
     fold (\<lambda>(t, tier). fold (\<lambda>i. umap_mod HashRing_empty (tm_id tier) (\<lambda>r. snd (local_insert en pub priv 0 (of_nat i) r)))
               [0..<unat (thread_number tier)]) (kTierMetadata (cfg en)) m"

lemma fold_commutes: "(\<And>x s. g (f x s) = f' x (g s)) \<Longrightarrow> g (fold f xs s) = fold f' xs (g s)"
  by (induction xs arbitrary: s) simp_all

lemma fold_unchanged: "(\<And>x s. g (f x s) = g s) \<Longrightarrow> g (fold f xs s) = g s"
  by (induction xs arbitrary: s) simp_all

lemma form_local_rings_eq: "local_hash_rings (form_local_rings en pub priv st) = local_rings_of en pub priv (local_hash_rings st)"
  unfolding form_local_rings_def local_rings_of_def by (rule fold_commutes) (clarsimp, rule fold_commutes, simp)

lemma fold_send_local: "local_hash_rings (fold (\<lambda>x. send (a x) (f x)) xs st) = local_hash_rings st"
  by (induction xs arbitrary: st) (simp_all add: send_def)

lemma form_local_rings_global:
  "global_hash_rings (form_local_rings en pub priv st) = global_hash_rings st"
  "rt_pending_requests (form_local_rings en pub priv st') = rt_pending_requests st'"
  unfolding form_local_rings_def
  by (rule fold_unchanged; clarsimp; rule fold_unchanged; simp)+

lemma routing_init_local: "local_hash_rings (routing_init re time) = local_rings_of (rt_env re) (rt_ip (rt re)) (rt_ip (rt re)) []"
  by (simp add: routing_init_def Let_def form_local_rings_eq fold_send_local ring_ctx.defs)

lemma empty_ring_inv: "ring_inv h n HashRing_empty"
  by (simp add: ring_inv_def HashRing_empty_def ring_sorted_def)

lemma local_rings_of_inv:
  assumes "\<And>t. ring_inv (LocalHasher_thread en) (kVirtualThreadNum (cfg en)) (umap_get HashRing_empty m t)"
  shows "ring_inv (LocalHasher_thread en) (kVirtualThreadNum (cfg en)) (umap_get HashRing_empty (local_rings_of en pub priv m) t)"
proof -
  let ?P = "\<lambda>m. \<forall>t. ring_inv (LocalHasher_thread en) (kVirtualThreadNum (cfg en)) (umap_get HashRing_empty m t)"
  have step: "?P m \<Longrightarrow> ?P (umap_mod HashRing_empty k (\<lambda>r. snd (local_insert en pub priv 0 i r)) m)" for m k i
    by (simp add: HashRing_insert_inv local_insert_def)
  have folds: "?P m \<Longrightarrow> (\<And>x m. ?P m \<Longrightarrow> ?P (f x m)) \<Longrightarrow> ?P (fold f xs m)" for f :: "'x \<Rightarrow> _" and xs m
    by (induction xs arbitrary: m) simp_all
  have "?P (local_rings_of en pub priv m)"
    unfolding local_rings_of_def by (rule folds) (use assms in simp, clarsimp, rule folds [THEN spec], simp, rule step, simp)
  then show ?thesis ..
qed

lemma routing_init_inv: "routing_inv re (routing_init re time)"
proof -
  have "global_hash_rings (routing_init re time) = []" "rt_pending_requests (routing_init re time) = []"
    by (simp_all add: routing_init_def Let_def form_local_rings_global ring_ctx.defs routing_state.defs fold_send_eq)
  moreover have "ring_inv (LocalHasher_thread (rt_env re)) (kVirtualThreadNum (cfg (rt_env re))) (local_ring (routing_init re time) t)" for t
    unfolding local_ring_def routing_init_local by (rule local_rings_of_inv) (simp add: umap_get_def empty_ring_inv)
  ultimately show ?thesis
    by (simp add: routing_inv_def pending_ok_def global_ring_def umap_get_def empty_ring_inv)
       (simp add: local_ring_def routing_init_local fun_eq_iff)
qed

lemma routing_keeps_inv: "routing re st st' \<Longrightarrow> routing_inv re st \<Longrightarrow> routing_inv re st'"
  by (induction rule: routing.induct) (auto intro: routing_iteration_inv)

text \<open>C29: In every state of a routing thread, from its start on and for any messages, the rings of all
  tiers are well formed (so the owners that it computes are the next distinct servers clockwise), and
  clients wait only for data keys, each key listed once with at least one client.\<close>

theorem routing_invariant:
  assumes "routing re (routing_init re time) st"
  shows "routing_inv re st"
  using assms routing_init_inv by (rule routing_keeps_inv)

definition example_routing_inbox :: routing_inbox where
  "example_routing_inbox = \<lparr>seed_in = True, notify_in = Some ''join:MEMORY:A:a:0'', rt_replication_response_in = None,
     rt_replication_change_in = None,
     key_address_in = Some \<lparr>kar_response_address = ''tcp://u:6850'', kar_keys = [''l''], kar_request_id = ''7''\<rparr>\<rparr>"

theorem routing_invariant_witness:
  "routing_inv example_routing_env (snd (projr (routing_iteration example_routing_env example_routing_inbox (routing_init example_routing_env 1))))"
proof -
  let ?it = "routing_iteration example_routing_env example_routing_inbox (routing_init example_routing_env 1)"
  have "\<not> isl ?it" by code_simp
  then have "?it = Inr (fst (projr ?it), snd (projr ?it))" by simp
  then have "routing example_routing_env (routing_init example_routing_env 1) (snd (projr ?it))"
    by (rule routing.again [OF routing.start])
  then show ?thesis by (rule routing_invariant)
qed

end
