(* ===== verification/Cluster.thy ===== *)
theory Cluster
  imports Routing Kvs_Join Kvs_Client_Ops
begin

text \<open>
  Storage servers and routing nodes together. A server that starts builds its rings from the
  membership the seed node gives it and announces itself; the routing node inserts it into its own
  rings. Both then compute the same owners for every key, so the address a client is given
  leads to a thread that accepts the request.
\<close>

section \<open>Rings without collisions\<close>

text \<open>Every virtual node of every server of the ring is in it: no two hash values collided.\<close>

definition ring_exact :: "(ServerThread \<Rightarrow> 'h::linorder) \<Rightarrow> u32 \<Rightarrow> 'h HashRing \<Rightarrow> bool" where
  "ring_exact hasher vnum ring \<longleftrightarrow> ring_sorted (nodes ring) \<and>
     set (nodes ring) = (\<lambda>v. (hasher v, v)) `
       (\<Union>u\<in>set (unique_servers ring). set (virtual_threads vnum (public_ip u) (private_ip u) (tid u)))"

lemma ring_sorted_unique:
  assumes "ring_sorted a" and "ring_sorted b" and "set a = set b"
  shows "a = b"
proof -
  have s: "sorted (map fst c) \<and> distinct (map fst c)" if "ring_sorted c" for c
    using that by (auto simp: ring_sorted_def strict_sorted_iff)
  have "inj_on fst (set a \<union> set b)"
    using s [OF assms(1)] assms(3) by (simp add: distinct_map)
  then show ?thesis
    using s [OF assms(1)] s [OF assms(2)] assms(3) by (intro map_sorted_distinct_set_unique) auto
qed

lemma ring_exact_inj:
  assumes "ring_exact hasher vnum ring"
  shows "inj_on hasher (\<Union>u\<in>set (unique_servers ring). set (virtual_threads vnum (public_ip u) (private_ip u) (tid u)))"
proof (rule inj_onI)
  fix v w
  assume v: "v \<in> (\<Union>u\<in>set (unique_servers ring). set (virtual_threads vnum (public_ip u) (private_ip u) (tid u)))"
    and w: "w \<in> (\<Union>u\<in>set (unique_servers ring). set (virtual_threads vnum (public_ip u) (private_ip u) (tid u)))"
    and eq: "hasher v = hasher w"
  have "(hasher v, v) \<in> set (nodes ring)" "(hasher w, w) \<in> set (nodes ring)"
    using assms imageI [OF v, of "\<lambda>v. (hasher v, v)"] imageI [OF w, of "\<lambda>v. (hasher v, v)"] unfolding ring_exact_def by simp_all
  moreover have "distinct (map fst (nodes ring))"
    using assms by (auto simp: ring_exact_def ring_sorted_def strict_sorted_iff)
  ultimately show "v = w" using eq by (metis eq_key_imp_eq_value)
qed

lemma fold_nodes_insert_exact:
  assumes "ring_sorted ns" and "inj_on hasher (set sts)" and "distinct sts" and "\<forall>st\<in>set sts. hasher st \<notin> fst ` set ns"
  shows "set (fold (\<lambda>st. nodes_insert (hasher st) st) sts ns) = set ns \<union> (\<lambda>st. (hasher st, st)) ` set sts"
  using assms
proof (induction sts arbitrary: ns)
  case (Cons st sts)
  let ?ns = "nodes_insert (hasher st) st ns"
  have set: "set ?ns = insert (hasher st, st) (set ns)"
    using Cons.prems by (simp add: set_nodes_insert)
  have "\<forall>s\<in>set sts. hasher s \<notin> fst ` set ?ns"
    using Cons.prems set by (auto simp: inj_on_def)
  with Cons.IH [OF ring_sorted_insert [OF Cons.prems(1)]] Cons.prems set show ?case by auto
qed simp

lemma unat_of_nat_less: "v < unat vnum \<Longrightarrow> unat (of_nat v :: u32) = v" for vnum :: u32
proof -
  assume "v < unat vnum"
  moreover have "unat vnum < 2 ^ 32" using unsigned_less [of vnum] by simp
  ultimately show "unat (of_nat v :: u32) = v" by (simp add: unat_of_nat take_bit_nat_eq_self)
qed

lemma distinct_virtual_threads: "distinct (virtual_threads vnum pub priv t)"
proof -
  have "inj_on (\<lambda>v. mk_ServerThread pub priv t (of_nat v)) {0..<unat vnum}"
  proof (rule inj_onI)
    fix x y
    assume "x \<in> {0..<unat vnum}" "y \<in> {0..<unat vnum}" and eq: "mk_ServerThread pub priv t (of_nat x) = mk_ServerThread pub priv t (of_nat y)"
    moreover from eq have "(of_nat x :: u32) = of_nat y" by (simp add: mk_ServerThread_def)
    ultimately show "x = y" using unat_of_nat_less [of _ vnum] by (metis atLeastLessThan_iff)
  qed
  then show ?thesis by (simp add: virtual_threads_def distinct_map)
qed

text \<open>Inserting the servers of a ring one by one into an empty ring builds the same ring.\<close>

definition insert_all :: "env \<Rightarrow> (Address \<times> Address) list \<Rightarrow> GlobalHashRing \<Rightarrow> GlobalHashRing" where
  "insert_all en servers ring = fold (\<lambda>(pub, priv) r. snd (global_insert en pub priv 0 0 r)) servers ring"

lemma insert_all_exact:
  assumes "inj_on (GlobalHasher_thread en)
      (\<Union>u\<in>set (unique_servers ring @ us). set (virtual_threads (kVirtualThreadNum (cfg en)) (public_ip u) (private_ip u) (tid u)))"
    and "sorted_wrt (\<lambda>a b. \<not> st_eq a b) (unique_servers ring @ us)" and "\<forall>u\<in>set us. u = mk_ServerThread (public_ip u) (private_ip u) 0 0"
    and "ring_exact (GlobalHasher_thread en) (kVirtualThreadNum (cfg en)) ring"
  shows "ring_exact (GlobalHasher_thread en) (kVirtualThreadNum (cfg en)) (insert_all en (map (\<lambda>u. (public_ip u, private_ip u)) us) ring) \<and>
    unique_servers (insert_all en (map (\<lambda>u. (public_ip u, private_ip u)) us) ring) = unique_servers ring @ us"
  using assms
proof (induction us arbitrary: ring)
  case Nil
  then show ?case by (simp add: insert_all_def)
next
  case (Cons u us)
  let ?h = "GlobalHasher_thread en" and ?n = "kVirtualThreadNum (cfg en)"
  let ?V = "\<lambda>us. \<Union>u\<in>us. set (virtual_threads ?n (public_ip u) (private_ip u) (tid u))"
  let ?new = "virtual_threads ?n (public_ip u) (private_ip u) 0"
  have u: "u = mk_ServerThread (public_ip u) (private_ip u) 0 0" using Cons.prems(3) by simp
  then have tid: "tid u = 0" by (metis mk_ServerThread_def ServerThread.select_convs(3))
  have new: "\<not> sset_has (unique_servers ring) (mk_ServerThread (public_ip u) (private_ip u) 0 0)"
    using Cons.prems(2) by (auto simp: sset_has_iff sorted_wrt_append u [symmetric])
  have disj: "v \<notin> ?V (set (unique_servers ring))" if "v \<in> set ?new" for v
    using that Cons.prems(2) tid by (auto simp: set_virtual_threads sorted_wrt_append st_eq_iff)
  have free: "\<forall>st\<in>set ?new. ?h st \<notin> fst ` set (nodes ring)"
  proof (intro ballI notI)
    fix st assume st: "st \<in> set ?new" and "?h st \<in> fst ` set (nodes ring)"
    then have "?h st \<in> ?h ` ?V (set (unique_servers ring))"
      using Cons.prems(4) unfolding ring_exact_def by (simp only: image_image fst_conv)
    then obtain w where w: "w \<in> ?V (set (unique_servers ring))" "?h st = ?h w" by (rule imageE) (rule that)
    have "st = w" by (rule inj_onD [OF Cons.prems(1)]) (use w st tid in auto)
    with disj [OF st] w(1) show False by simp
  qed
  let ?ring = "snd (global_insert en (public_ip u) (private_ip u) 0 0 ring)"
  have nodes: "nodes ?ring = fold (\<lambda>st. nodes_insert (?h st) st) ?new (nodes ring)" and
    unique: "unique_servers ?ring = unique_servers ring @ [u]"
    using new u by (simp_all add: global_insert_def HashRing_insert_def Let_def)
  have inj: "inj_on ?h (set ?new)" by (rule inj_on_subset [OF Cons.prems(1)]) (use tid in auto)
  have sorted: "ring_sorted (nodes ring)" using Cons.prems(4) by (simp add: ring_exact_def)
  have "ring_exact ?h ?n ?ring"
    using fold_nodes_insert_exact [OF sorted inj distinct_virtual_threads free] fold_nodes_insert [OF sorted, of ?h ?new] Cons.prems(4)
    by (auto simp: ring_exact_def nodes unique tid)
  with Cons.IH [of ?ring] Cons.prems(1-3) unique show ?case by (simp add: insert_all_def)
qed

lemma insert_all_rebuilds:
  assumes "ring_exact (GlobalHasher_thread en) (kVirtualThreadNum (cfg en)) ring"
    and "sorted_wrt (\<lambda>a b. \<not> st_eq a b) (unique_servers ring)"
    and "\<forall>u\<in>set (unique_servers ring). u = mk_ServerThread (public_ip u) (private_ip u) 0 0"
  shows "nodes (insert_all en (map (\<lambda>u. (public_ip u, private_ip u)) (unique_servers ring)) HashRing_empty) = nodes ring \<and>
    unique_servers (insert_all en (map (\<lambda>u. (public_ip u, private_ip u)) (unique_servers ring)) HashRing_empty) = unique_servers ring"
proof -
  let ?r = "insert_all en (map (\<lambda>u. (public_ip u, private_ip u)) (unique_servers ring)) HashRing_empty"
  have "ring_exact (GlobalHasher_thread en) (kVirtualThreadNum (cfg en)) HashRing_empty"
    by (simp add: ring_exact_def HashRing_empty_def ring_sorted_def)
  with insert_all_exact [of en HashRing_empty "unique_servers ring"] ring_exact_inj [OF assms(1)] assms(2,3)
  have r: "ring_exact (GlobalHasher_thread en) (kVirtualThreadNum (cfg en)) ?r \<and> unique_servers ?r = unique_servers ring"
    by (simp add: HashRing_empty_def)
  with assms(1) have "nodes ?r = nodes ring"
    by (intro ring_sorted_unique) (auto simp: ring_exact_def)
  with r show ?thesis by simp
qed

section \<open>The rings of a server that starts\<close>

lemma global_ring_mod: "global_ring (mod_global_ring tier f st) t = (if t = tier then f (global_ring st t) else global_ring st t)"
  by (simp add: mod_global_ring_def global_ring_def)

lemma fold_add_member: "global_ring (fold (add_member en tier) servers st) t =
    (if t = tier then insert_all en servers (global_ring st t) else global_ring st t)"
proof (induction servers arbitrary: st)
  case (Cons s servers)
  then show ?case by (cases s) (simp add: add_member_def insert_all_def global_ring_mod)
qed (simp add: insert_all_def)

lemma populate_rings:
  assumes "distinct (map fst membership)"
  shows "global_ring (populate en membership st) t =
    (case map_of membership t of None \<Rightarrow> global_ring st t | Some servers \<Rightarrow> insert_all en servers (global_ring st t))"
  using assms
proof (induction membership arbitrary: st)
  case (Cons p membership)
  obtain tier servers where p: "p = (tier, servers)" by fastforce
  with Cons.prems have d: "distinct (map fst membership)" and "map_of membership tier = None" by (auto simp: map_of_eq_None_iff)
  with Cons.IH [OF d, of "fold (add_member en tier) servers st"] p show ?case
    by (auto simp: populate_def fold_add_member split: option.splits)
qed (simp add: populate_def)

lemma map_of_seed: "map_of (seed_handler st) t =
    map_option (\<lambda>r. map (\<lambda>u. (public_ip u, private_ip u)) (unique_servers r)) (map_of (global_hash_rings st) t)"
  by (simp add: seed_handler_def map_of_map split_beta comp_def)

text \<open>A routing thread whose rings hold every virtual node, and servers only under their
  thread 0.\<close>

definition exact_rings :: "env \<Rightarrow> 'a ring_ctx_scheme \<Rightarrow> bool" where
  "exact_rings en st \<longleftrightarrow> umap_wf (global_hash_rings st) \<and>
     (\<forall>t. ring_exact (GlobalHasher_thread en) (kVirtualThreadNum (cfg en)) (global_ring st t) \<and>
          sorted_wrt (\<lambda>a b. \<not> st_eq a b) (unique_servers (global_ring st t)) \<and>
          (\<forall>u\<in>set (unique_servers (global_ring st t)). u = mk_ServerThread (public_ip u) (private_ip u) 0 0))"

lemma seeded_rings:
  assumes "exact_rings en rs" and "\<And>t. global_ring st t = HashRing_empty"
  shows "nodes (global_ring (populate en (seed_handler rs) st) t) = nodes (global_ring rs t)"
    and "unique_servers (global_ring (populate en (seed_handler rs) st) t) = unique_servers (global_ring rs t)"
proof -
  have "map fst (seed_handler rs) = map fst (global_hash_rings rs)"
    by (simp add: seed_handler_def split_beta comp_def)
  then have "distinct (map fst (seed_handler rs))" using assms(1) by (simp add: exact_rings_def)
  note eq = populate_rings [OF this, of en st t, unfolded map_of_seed assms(2)]
  have "nodes (global_ring (populate en (seed_handler rs) st) t) = nodes (global_ring rs t) \<and>
      unique_servers (global_ring (populate en (seed_handler rs) st) t) = unique_servers (global_ring rs t)"
  proof (cases "map_of (global_hash_rings rs) t")
    case None
    then have "global_ring rs t = HashRing_empty" by (simp add: global_ring_def umap_get_def)
    with None show ?thesis by (simp add: eq)
  next
    case (Some r)
    then have "global_ring rs t = r" by (simp add: global_ring_def umap_get_def)
    with Some assms(1) insert_all_rebuilds [of en r] show ?thesis by (auto simp: eq exact_rings_def)
  qed
  then show "nodes (global_ring (populate en (seed_handler rs) st) t) = nodes (global_ring rs t)"
    and "unique_servers (global_ring (populate en (seed_handler rs) st) t) = unique_servers (global_ring rs t)" by blast+
qed

lemma HashRing_insert_cong:
  assumes "nodes a = nodes b" and "unique_servers a = unique_servers b"
  shows "nodes (snd (HashRing_insert h n pub priv c t a)) = nodes (snd (HashRing_insert h n pub priv c' t b))"
    and "unique_servers (snd (HashRing_insert h n pub priv c t a)) = unique_servers (snd (HashRing_insert h n pub priv c' t b))"
  using assms by (simp_all add: HashRing_insert_def Let_def)

section \<open>Local rings\<close>

text \<open>The local ring of a node is built of its own addresses, but the choice of the
  threads only looks at hash values and thread numbers, which do not depend on them.\<close>

definition ring_view :: "'h HashRing \<Rightarrow> ('h \<times> u32) list" where
  "ring_view r = map (\<lambda>(h, st). (h, tid st)) (nodes r)"

lemma ring_view_parts: "map fst (nodes r) = map fst (ring_view r)" "map (\<lambda>p. tid (snd p)) (nodes r) = map snd (ring_view r)"
  by (simp_all add: ring_view_def split_beta comp_def)

lemma chm_find_fst: "chm_find h ns = (if map fst ns = [] then None
    else let it = length (takeWhile (\<lambda>k. k < h) (map fst ns)) in Some (if it = length (map fst ns) then 0 else it))"
  by (simp add: chm_find_def lower_bound_def takeWhile_map comp_def)

lemma responsible_local_view:
  assumes "ring_view a = ring_view b" and "std_hash en = std_hash en'"
  shows "responsible_local en key n a = responsible_local en' key n b"
  unfolding responsible_local_def chm_find_fst LocalHasher_key_def ring_view_parts assms ..

lemma responsible_global_nodes:
  assumes "nodes a = nodes b" and "std_hash en = std_hash en'"
  shows "responsible_global en key n a = responsible_global en' key n b"
  unfolding responsible_global_def GlobalHasher_key_def assms ..

lemma responsible_threads_agree:
  assumes "nodes g = nodes g'" and "ring_view l = ring_view l'" and "std_hash en = std_hash en'"
  shows "responsible_threads_in en key n m g l = responsible_threads_in en' key n m g' l'"
  unfolding responsible_threads_in_def
    responsible_global_nodes [OF assms(1,3)] responsible_local_view [OF assms(2,3)] ..

text \<open>Two local rings that differ only in the addresses they were made with.\<close>

definition local_like :: "Address \<Rightarrow> Address \<Rightarrow> LocalHashRing \<Rightarrow> LocalHashRing \<Rightarrow> bool" where
  "local_like priv priv' r r' \<longleftrightarrow> ring_view r = ring_view r' \<and> map tid (unique_servers r) = map tid (unique_servers r') \<and>
     (\<forall>u\<in>set (unique_servers r). private_ip u = priv) \<and> (\<forall>u\<in>set (unique_servers r'). private_ip u = priv')"

lemma nodes_insert_view:
  "map (\<lambda>(h, st). (h, tid st)) ns = map (\<lambda>(h, st). (h, tid st)) ns' \<Longrightarrow> tid s = tid s' \<Longrightarrow>
     map (\<lambda>(h, st). (h, tid st)) (nodes_insert h s ns) = map (\<lambda>(h, st). (h, tid st)) (nodes_insert h s' ns')"
proof (induction h s ns arbitrary: ns' rule: nodes_insert.induct)
  case (2 h st k t r)
  then obtain t' r' where "ns' = (k, t') # r'" "tid t = tid t'" "map (\<lambda>(h, st). (h, tid st)) r = map (\<lambda>(h, st). (h, tid st)) r'"
    by (cases ns') auto
  with 2 show ?case by auto
qed auto

lemma sset_has_like:
  assumes "map tid us = map tid us'" and "\<forall>u\<in>set us. private_ip u = priv" and "\<forall>u\<in>set us'. private_ip u = priv'"
  shows "sset_has us (mk_ServerThread pub priv t 0) = sset_has us' (mk_ServerThread pub' priv' t 0)"
proof -
  have "(\<exists>u\<in>set us. tid u = t) = (\<exists>u\<in>set us'. tid u = t)"
    using arg_cong [OF assms(1), of set] by (auto simp: set_eq_iff image_iff) metis+
  with assms(2,3) show ?thesis by (auto simp: sset_has_iff st_eq_iff mk_ServerThread_def)
qed

lemma local_insert_like:
  assumes "local_like priv priv' r r'" and "std_hash en = std_hash en'" and "kVirtualThreadNum (cfg en) = kVirtualThreadNum (cfg en')"
  shows "local_like priv priv' (snd (local_insert en pub priv c t r)) (snd (local_insert en' pub' priv' c t r'))"
proof -
  let ?n = "kVirtualThreadNum (cfg en)"
  have view: "map (\<lambda>(h, st). (h, tid st)) (fold (\<lambda>st. nodes_insert (LocalHasher_thread en st) st) (map (\<lambda>v. mk_ServerThread pub priv t (of_nat v)) vs) ns)
    = map (\<lambda>(h, st). (h, tid st)) (fold (\<lambda>st. nodes_insert (LocalHasher_thread en' st) st) (map (\<lambda>v. mk_ServerThread pub' priv' t (of_nat v)) vs) ns')"
    if "map (\<lambda>(h, st). (h, tid st)) ns = map (\<lambda>(h, st). (h, tid st)) ns'" for vs :: "nat list" and ns ns'
    using that
  proof (induction vs arbitrary: ns ns')
    case (Cons v vs)
    have "LocalHasher_thread en (mk_ServerThread pub priv t (of_nat v)) = LocalHasher_thread en' (mk_ServerThread pub' priv' t (of_nat v))"
      by (simp add: LocalHasher_thread_def mk_ServerThread_def assms(2))
    moreover have "tid (mk_ServerThread pub priv t (of_nat v)) = tid (mk_ServerThread pub' priv' t (of_nat v))"
      by (simp add: mk_ServerThread_def)
    ultimately show ?case using Cons.IH [OF nodes_insert_view [OF Cons.prems]] by simp
  qed simp
  have has: "sset_has (unique_servers r) (mk_ServerThread pub priv t 0) = sset_has (unique_servers r') (mk_ServerThread pub' priv' t 0)"
    using assms(1) by (intro sset_has_like) (auto simp: local_like_def)
  show ?thesis
    using assms(1) has view [of "nodes r" "nodes r'" "[0..<unat ?n]"]
    by (auto simp: local_insert_def HashRing_insert_def Let_def local_like_def ring_view_def virtual_threads_def assms(3) mk_ServerThread_def)
qed

lemma local_rings_like:
  assumes "std_hash en = std_hash en'" and "kVirtualThreadNum (cfg en) = kVirtualThreadNum (cfg en')" and "kTierMetadata (cfg en) = kTierMetadata (cfg en')"
  shows "ring_view (umap_get HashRing_empty (local_rings_of en pub priv []) t) = ring_view (umap_get HashRing_empty (local_rings_of en' pub' priv' []) t)"
proof -
  let ?R = "\<lambda>m m'. \<forall>t. local_like priv priv' (umap_get HashRing_empty m t) (umap_get HashRing_empty m' t)"
  have step: "?R m m' \<Longrightarrow> ?R (umap_mod HashRing_empty k (\<lambda>r. snd (local_insert en pub priv 0 i r)) m)
      (umap_mod HashRing_empty k (\<lambda>r. snd (local_insert en' pub' priv' 0 i r)) m')" for m m' k i
    by (simp add: local_insert_like [OF _ assms(1,2)])
  have folds: "?R m m' \<Longrightarrow> (\<And>x m m'. ?R m m' \<Longrightarrow> ?R (f x m) (f' x m')) \<Longrightarrow> ?R (fold f xs m) (fold f' xs m')"
    for f f' :: "'x \<Rightarrow> _" and xs m m'
    by (induction xs arbitrary: m m') simp_all
  have base: "?R [] []" by (simp add: umap_get_def local_like_def ring_view_def HashRing_empty_def)
  have "?R (local_rings_of en pub priv []) (local_rings_of en' pub' priv' [])"
    unfolding local_rings_of_def assms(3)
    by (rule folds [OF base]) (simp only: split_beta, rule folds, assumption, rule step, assumption)
  then show ?thesis by (auto simp: local_like_def)
qed

section \<open>A server starts\<close>

definition start_message :: "kvs_env \<Rightarrow> string \<Rightarrow> string" where
  "start_message ke count_str =
     ''join:'' @ Tier_Name (kSelfTier (kv_cfg ke)) @ '':'' @ public_ip (wt ke) @ '':'' @ private_ip (wt ke) @ '':'' @ count_str"

lemma start_message_split:
  assumes "CHR '':'' \<notin> set (public_ip (wt ke))" and "CHR '':'' \<notin> set (private_ip (wt ke))" and "CHR '':'' \<notin> set c" and "c \<noteq> []"
  shows "split_string (start_message ke c) (CHR '':'') = [''join'', Tier_Name (kSelfTier (kv_cfg ke)), public_ip (wt ke), private_ip (wt ke), c]"
proof -
  have "split_string (''join'' @ CHR '':'' # r) (CHR '':'') = ''join'' # split_string r (CHR '':'')" for r
    by (rule split_string_piece) simp
  then show ?thesis using assms
    by (simp add: start_message_def split_string_piece colon_notin_tier split_string_last)
qed

lemma announce_join_sends:
  assumes "ip \<in> set (routing_ips ke)"
  shows "(rt_notify_connect_address (mk_RoutingThread ip 0), Text (start_message ke c)) \<in> set (sent (announce_join ke c st))"
  using assms by (auto simp: announce_join_def Let_def fold_send_eq start_message_def)

lemma announce_join_rings: "global_ring (announce_join ke c st) = global_ring st" "local_hash_rings (announce_join ke c st) = local_hash_rings st"
  by (simp_all add: announce_join_def Let_def fold_send_eq global_ring_def fun_eq_iff)

lemma mod_global_ring_local: "local_hash_rings (mod_global_ring t f st) = local_hash_rings st"
  by (simp add: mod_global_ring_def)

lemma form_local_rings_ring: "global_ring (form_local_rings en pub priv st) = global_ring st"
  by (simp add: global_ring_def form_local_rings_global fun_eq_iff)

lemma run_init_rings:
  assumes "run_init ke time garbage rand0 membership answer = Inr (ke', st)"
  shows "\<exists>c n. stoi c = Inr n \<and> c = (if management_ip ke \<noteq> ''NULL'' then answer else ''0'') \<and>
    (\<forall>t. global_ring st t = (if t = kSelfTier (kv_cfg ke)
       then snd (global_insert (kv_env ke) (public_ip (wt ke)) (private_ip (wt ke)) n 0
              (global_ring (populate (kv_env ke) membership (empty_state (time + tid (wt ke)) garbage rand0)) t))
       else global_ring (populate (kv_env ke) membership (empty_state (time + tid (wt ke)) garbage rand0)) t)) \<and>
    local_hash_rings st = local_rings_of (kv_env ke) (public_ip (wt ke)) (private_ip (wt ke)) [] \<and>
    (tid (wt ke) = 0 \<longrightarrow> (\<forall>ip\<in>set (routing_ips ke). (rt_notify_connect_address (mk_RoutingThread ip 0), Text (start_message ke c)) \<in> set (sent st)))"
proof -
  let ?en = "kv_env ke" and ?self = "wt ke" and ?tier = "kSelfTier (kv_cfg ke)"
  define p where "p = populate ?en membership (empty_state (time + tid ?self) garbage rand0)"
  from assms obtain c n where c: "stoi c = Inr n" "c = (if management_ip ke \<noteq> ''NULL'' then answer else ''0'')" and
    st: "st = (let st2 = form_local_rings ?en (public_ip ?self) (private_ip ?self)
        (mod_global_ring ?tier (\<lambda>r. snd (global_insert ?en (public_ip ?self) (private_ip ?self) n 0 r)) p)
      in if tid ?self = 0 then announce_join ke c st2 else st2)"
    unfolding run_init_def Let_def p_def by (auto simp: ebind_Inr_iff)
  have loc: "local_hash_rings p = []"
  proof -
    have "local_hash_rings (add_member ?en t s a) = local_hash_rings a" for t s and a :: kvs_state
      by (simp add: add_member_def mod_global_ring_def split_beta)
    then have "local_hash_rings (populate ?en m a) = local_hash_rings a" for m and a :: kvs_state
      unfolding populate_def by (intro fold_unchanged) (simp add: split_beta fold_unchanged)
    then show ?thesis by (simp add: p_def empty_state_def ring_ctx.defs)
  qed
  show ?thesis
    unfolding p_def [symmetric]
    by (rule exI [of _ c], rule exI [of _ n], rule conjI [OF c(1)], rule conjI [OF c(2)])
       (auto simp: st Let_def announce_join_rings announce_join_sends form_local_rings_eq global_ring_mod loc
         form_local_rings_ring mod_global_ring_local)
qed

lemma routing_join_rings:
  assumes "split_string m (CHR '':'') = [''join'', Tier_Name tier, pub, priv, c]" and "stoi c = Inr n"
  shows "\<exists>rs'. routing_membership_handler re m rs = Inr rs' \<and>
    (\<forall>t. global_ring rs' t = (if t = tier then snd (global_insert (rt_env re) pub priv n 0 (global_ring rs t)) else global_ring rs t)) \<and>
    local_ring rs' = local_ring rs"
proof -
  obtain ins r where g: "global_insert (rt_env re) pub priv n 0 (global_ring rs tier) = (ins, r)" by fastforce
  let ?v = "[''join'', Tier_Name tier, pub, priv, c]"
  have parts: "vec_at ?v 0 = Inr ''join''" "vec_at ?v 1 = Inr (Tier_Name tier)" "vec_at ?v 2 = Inr pub" "vec_at ?v 3 = Inr priv"
    "vec_at ?v 4 = Inr c" by (simp_all add: vec_at_def)
  let ?rs = "mod_global_ring tier (\<lambda>_. r) rs"
  have rings: "\<forall>t. global_ring ?rs t = (if t = tier then snd (global_insert (rt_env re) pub priv n 0 (global_ring rs t)) else global_ring rs t)"
    "local_ring ?rs = local_ring rs"
    using g by (auto simp: global_ring_mod local_ring_def mod_global_ring_local)
  have "\<exists>fs. routing_membership_handler re m rs = Inr (?rs\<lparr>sent := sent ?rs @ fs\<rparr>)"
    unfolding routing_membership_handler_def Let_def assms(1) parts ebind_simps Tier_Parse_Name assms(2) g split_conv
      tell_routing_workers_def fold_send_eq
    by (auto intro: exI [of _ "[]"])
  with rings show ?thesis by (auto simp: global_ring_def local_ring_def fun_eq_iff)
qed

text \<open>C30: The seed node and a server that starts agree on who owns what. The server builds its rings from
  the membership that a routing thread answered, adds itself and announces itself to the routing
  nodes; after the routing thread has handled the announcement, both choose the same threads for every key,
  every tier and all replication factors. The hypotheses are that they run with the same
  hash function and configuration, that no two virtual nodes of the cluster share a hash value, and that
  addresses contain no colon.\<close>

theorem start_agreement:
  assumes "run_init ke time garbage rand0 (seed_handler rs) answer = Inr (ke', st)"
    and "routing re (routing_init re time') rs" and "exact_rings (kv_env ke) rs"
    and "std_hash (rt_env re) = std_hash (kv_env ke)" and "kVirtualThreadNum (cfg (rt_env re)) = kVirtualThreadNum (kv_cfg ke)"
    and "kTierMetadata (cfg (rt_env re)) = kTierMetadata (kv_cfg ke)"
    and "tid (wt ke) = 0" and "rt_ip (rt re) \<in> set (routing_ips ke)"
    and "CHR '':'' \<notin> set (public_ip (wt ke) @ private_ip (wt ke) @ answer)"
  shows "\<exists>message rs'. (rt_notify_connect_address (mk_RoutingThread (rt_ip (rt re)) 0), Text message) \<in> set (sent st) \<and>
    routing_membership_handler re message rs = Inr rs' \<and>
    (\<forall>key tier global local.
       responsible_threads_in (rt_env re) key global local (global_ring rs' tier) (local_ring rs' tier) =
       responsible_threads_in (kv_env ke) key global local (global_ring st tier) (local_ring st tier))"
proof -
  let ?en = "kv_env ke" and ?pub = "public_ip (wt ke)" and ?priv = "private_ip (wt ke)" and ?self = "kSelfTier (kv_cfg ke)"
  let ?p = "populate ?en (seed_handler rs) (empty_state (time + tid (wt ke)) garbage rand0)"
  from run_init_rings [OF assms(1)] assms(7,8) obtain c n where c: "stoi c = Inr n" "c = (if management_ip ke \<noteq> ''NULL'' then answer else ''0'')"
    and gl: "\<And>t. global_ring st t = (if t = ?self then snd (global_insert ?en ?pub ?priv n 0 (global_ring ?p t)) else global_ring ?p t)"
    and loc: "local_hash_rings st = local_rings_of ?en ?pub ?priv []"
    and sent: "(rt_notify_connect_address (mk_RoutingThread (rt_ip (rt re)) 0), Text (start_message ke c)) \<in> set (sent st)"
    by auto
  have "c \<noteq> []" using c(1) by (auto simp: stoi_def)
  moreover have "CHR '':'' \<notin> set c" using c(2) assms(9) by auto
  ultimately have "split_string (start_message ke c) (CHR '':'') = [''join'', Tier_Name ?self, ?pub, ?priv, c]"
    using assms(9) by (intro start_message_split) auto
  from routing_join_rings [OF this c(1), of re rs] obtain rs' where rs': "routing_membership_handler re (start_message ke c) rs = Inr rs'"
    and grs: "\<And>t. global_ring rs' t = (if t = ?self then snd (global_insert (rt_env re) ?pub ?priv n 0 (global_ring rs t)) else global_ring rs t)"
    and lrs: "local_ring rs' = local_ring rs" by blast
  have "GlobalHasher_thread (rt_env re) = GlobalHasher_thread ?en" by (simp add: GlobalHasher_thread_def assms(4) fun_eq_iff)
  then have ins: "global_insert (rt_env re) = global_insert ?en" by (simp add: global_insert_def assms(5))
  have empty: "global_ring (empty_state a b d) t = HashRing_empty" for a b d t
    by (simp add: empty_state_def global_ring_def ring_ctx.defs umap_get_def)
  note seeded = seeded_rings [OF assms(3) empty]
  have "nodes (snd (global_insert ?en ?pub ?priv n 0 (global_ring rs t))) = nodes (snd (global_insert ?en ?pub ?priv n 0 (global_ring ?p t)))" for t
    unfolding global_insert_def by (rule HashRing_insert_cong(1)) (simp_all add: seeded)
  then have nodes: "nodes (global_ring rs' t) = nodes (global_ring st t)" for t
    unfolding gl grs ins by (simp add: seeded)
  have "routing_inv re rs" using routing_keeps_inv [OF assms(2) routing_init_inv] .
  then have "local_ring rs' t = umap_get HashRing_empty (local_rings_of (rt_env re) (rt_ip (rt re)) (rt_ip (rt re)) []) t" for t
    by (simp add: lrs routing_inv_def) (simp add: local_ring_def routing_init_local)
  then have "ring_view (local_ring rs' t) = ring_view (local_ring st t)" for t
    using local_rings_like [OF assms(4-6)] by (simp add: local_ring_def loc)
  with nodes sent rs' show ?thesis
    by (intro exI [of _ "start_message ke c"] exI [of _ rs'] conjI allI responsible_threads_agree assms(4))
qed

definition spread_env :: env where
  "spread_env = example_env\<lparr>cfg := example_config\<lparr>kVirtualThreadNum := 1\<rparr>\<rparr>"

definition spread_kvs_env :: kvs_env where
  "spread_kvs_env = example_kvs_env\<lparr>kv_env := spread_env, wt := mk_ServerThread3 ''C'' ''ccc'' 0\<rparr>"

definition spread_routing_env :: routing_env where
  "spread_routing_env = example_routing_env\<lparr>rt_env := spread_env\<rparr>"

definition spread_routing :: routing_state where
  "spread_routing = snd (projr (routing_iteration spread_routing_env
     \<lparr>seed_in = False, notify_in = Some ''join:MEMORY:A:a:0'', rt_replication_response_in = None,
      rt_replication_change_in = None, key_address_in = None\<rparr> (routing_init spread_routing_env 1)))"

theorem start_agreement_witness:
  "\<exists>message rs'. (''tcp://r:6400'', Text message) \<in> set (sent (snd (projr (run_init spread_kvs_env 1 0 0 (seed_handler spread_routing) [])))) \<and>
    routing_membership_handler spread_routing_env message spread_routing = Inr rs' \<and>
    responsible_threads_in spread_env ''k'' 2 1 (global_ring rs' MEMORY) (local_ring rs' MEMORY) =
      responsible_threads_in spread_env ''k'' 2 1
        (global_ring (snd (projr (run_init spread_kvs_env 1 0 0 (seed_handler spread_routing) []))) MEMORY)
        (local_ring (snd (projr (run_init spread_kvs_env 1 0 0 (seed_handler spread_routing) []))) MEMORY)"
proof -
  let ?i = "run_init spread_kvs_env 1 0 0 (seed_handler spread_routing) []"
  let ?ib = "\<lparr>seed_in = False, notify_in = Some ''join:MEMORY:A:a:0'', rt_replication_response_in = None,
      rt_replication_change_in = None, key_address_in = None\<rparr>"
  let ?it = "routing_iteration spread_routing_env ?ib (routing_init spread_routing_env 1)"
  have "\<not> isl ?i" by code_simp
  then have i: "?i = Inr (fst (projr ?i), snd (projr ?i))" by simp
  have "\<not> isl ?it" by code_simp
  then have "?it = Inr (fst (projr ?it), spread_routing)" by (simp add: spread_routing_def)
  then have r: "routing spread_routing_env (routing_init spread_routing_env 1) spread_routing"
    by (rule routing.again [OF routing.start])
  have "umap_wf (global_hash_rings spread_routing)" by code_simp
  moreover have "ring_exact (GlobalHasher_thread spread_env) (kVirtualThreadNum (cfg spread_env)) (global_ring spread_routing t) \<and>
      sorted_wrt (\<lambda>a b. \<not> st_eq a b) (unique_servers (global_ring spread_routing t)) \<and>
      (\<forall>u\<in>set (unique_servers (global_ring spread_routing t)). u = mk_ServerThread (public_ip u) (private_ip u) 0 0)" for t
    by (cases t; hypsubst) code_simp+
  ultimately have e: "exact_rings (kv_env spread_kvs_env) spread_routing"
    by (simp add: exact_rings_def spread_kvs_env_def)
  have same: "rt_env spread_routing_env = spread_env" "kv_env spread_kvs_env = spread_env"
    by (simp_all add: spread_routing_env_def spread_kvs_env_def)
  have "tid (wt spread_kvs_env) = 0" "rt_ip (rt spread_routing_env) \<in> set (routing_ips spread_kvs_env)"
    "CHR '':'' \<notin> set (public_ip (wt spread_kvs_env) @ private_ip (wt spread_kvs_env) @ [])"
    "rt_notify_connect_address (mk_RoutingThread (rt_ip (rt spread_routing_env)) 0) = ''tcp://r:6400''" by code_simp+
  with start_agreement [OF i r e] same show ?thesis by (auto simp: same)
qed

section \<open>A client goes through the routing tier\<close>

text \<open>Agreement of a routing thread and a storage thread: they choose the same threads for any
  replication factors, and know the same factors of the key.\<close>

definition agree :: "env \<Rightarrow> 'a ring_ctx_scheme \<Rightarrow> env \<Rightarrow> 'b ring_ctx_scheme \<Rightarrow> Key \<Rightarrow> Tier \<Rightarrow> bool" where
  "agree en rs en' st key tier \<longleftrightarrow>
     responsible_threads_in en key (global_rep rs key tier) (local_rep rs key tier) (global_ring rs tier) (local_ring rs tier) =
       responsible_threads_in en' key (global_rep st key tier) (local_rep st key tier) (global_ring st tier) (local_ring st tier) \<and>
     umap_has (key_replication_map st) key"

lemma owners_single: "owners en st key [tier] =
    responsible_threads_in en key (global_rep st key tier) (local_rep st key tier) (global_ring st tier) (local_ring st tier)"
  by (cases "responsible_threads_in en key (global_rep st key tier) (local_rep st key tier) (global_ring st tier) (local_ring st tier)")
     (simp_all add: owners_def)

lemma agree_owners:
  assumes "agree en rs en' st key tier"
  shows "owners en' st key [tier] = owners en rs key [tier]"
  using assms by (simp add: agree_def owners_single)

text \<open>What a routing thread that knows the owners of a key answers.\<close>

lemma routed_answer:
  assumes "num_servers rs \<noteq> 0" and "key \<noteq> []" and "routed (rt_env re) rs key ts"
  shows "\<exists>rs'. address_handler re \<lparr>kar_response_address = reply, kar_keys = [key], kar_request_id = q\<rparr> rs = Inr rs' \<and>
    sent rs' = sent rs @ [(reply, AddressResponse \<lparr>kap_addresses = [(key, map key_request_connect_address ts)], kap_error = NO_ERROR, kap_response_id = q\<rparr>)]"
proof -
  let ?q = "\<lparr>kar_response_address = reply, kar_keys = [key], kar_request_id = q\<rparr>"
  let ?r = "KeyAddressResponse_default\<lparr>kap_response_id := q\<rparr>"
  have "\<forall>k\<in>set [key]. k \<noteq> [] \<longrightarrow> routed (rt_env re) rs k ts" using assms(3) by simp
  from address_keys_routed [OF this, of ?q "[]" ?r] assms(2) obtain rs1 where same: "ctx_same rs rs1"
    and eq: "address_keys re ?q [key] ?r rs = Inr (Some (?r\<lparr>kap_addresses := [(key, map key_request_connect_address ts)]\<rparr>), rs1)"
    by (auto simp: KeyAddressResponse_default_def)
  show ?thesis using assms(1) eq same unfolding address_handler_def Let_def by (simp add: ctx_same_def KeyAddressResponse_default_def)
qed

end
