(* ===== verification/Requests.thy ===== *)
theory Requests
  imports Hash_Ring
begin

text \<open>
  Synchronous requests: \<open>common/include/requests.hpp\<close>. What the receiving socket delivers is a list of
  events, a message or a timeout; when the list is used up, every further wait times out. \<open>id_of\<close> is
  the \<open>response_id\<close> of a message.
\<close>

section \<open>\<open>receive\<close>\<close>

text \<open>The loop. A limit of 0 is only met for an empty set of ids, where the decrement
  wraps.\<close>

fun receive_loop :: "('r \<Rightarrow> string) \<Rightarrow> string uset \<Rightarrow> 'r list \<Rightarrow> u32 \<Rightarrow> 'r option list \<Rightarrow> bool \<times> 'r list \<times> 'r option list" where
  "receive_loop id_of request_ids responses timeout_limit [] = (False, [], [])"
| "receive_loop id_of request_ids responses timeout_limit (Some response # events) =
     (let resp_id = id_of response;
          hit = resp_id \<in> set request_ids;
          request_ids1 = (if hit then uset_erase resp_id request_ids else request_ids);
          responses1 = (if hit then responses @ [response] else responses)
      in if request_ids1 = [] then (True, responses1, events)
         else receive_loop id_of request_ids1 responses1 timeout_limit events)"
| "receive_loop id_of request_ids responses timeout_limit (None # events) =
     (if timeout_limit - 1 = 0 then (False, [], events)
      else receive_loop id_of request_ids responses (timeout_limit - 1) events)"

definition receive_responses :: "('r \<Rightarrow> string) \<Rightarrow> string uset \<Rightarrow> 'r option list \<Rightarrow> bool \<times> 'r list \<times> 'r option list" where
  "receive_responses id_of request_ids events = receive_loop id_of request_ids [] (of_nat (length request_ids)) events"

section \<open>\<open>send_request\<close> and \<open>make_request\<close>\<close>

definition send_request :: "KeyRequest \<Rightarrow> Address \<Rightarrow> 'a ring_ctx_scheme \<Rightarrow> 'a ring_ctx_scheme" where
  "send_request request address st = send address (Request request) st"

text \<open>The result is the response, or nothing when the request did not succeed.\<close>

definition make_request :: "KeyRequest \<Rightarrow> Address \<Rightarrow> KeyResponse option list \<Rightarrow> 'a ring_ctx_scheme \<Rightarrow>
    (KeyResponse option \<times> KeyResponse option list \<times> 'a ring_ctx_scheme)" where
  "make_request request address events st =
     (case receive_responses kp_response_id [kr_request_id request] events of
        (succeed, responses, events1) \<Rightarrow>
          (if succeed then Some (responses ! 0) else None, events1, send_request request address st))"

section \<open>Properties\<close>

lemma receive_loop_ids:
  assumes "receive_loop id_of ids resp limit events = (True, responses, rest)" and "distinct ids" and "ids \<noteq> []"
  shows "\<exists>got. responses = resp @ got \<and> distinct (map id_of got) \<and> set (map id_of got) = set ids \<and>
    set got \<subseteq> {r. Some r \<in> set events}"
  using assms
proof (induction id_of ids resp limit events rule: receive_loop.induct)
  case (2 id_of ids resp limit r events)
  let ?i = "id_of r"
  show ?case
  proof (cases "?i \<in> set ids")
    case True
    show ?thesis
    proof (cases "uset_erase ?i ids = []")
      case fin: True
      have "set ids = {?i}" using True arg_cong [OF fin, of set] by auto
      moreover have "responses = resp @ [r]" using "2.prems"(1) True fin by simp
      ultimately show ?thesis by (intro exI [of _ "[r]"]) simp
    next
      case False
      have "\<exists>got. responses = (resp @ [r]) @ got \<and> distinct (map id_of got) \<and>
          set (map id_of got) = set (uset_erase ?i ids) \<and> set got \<subseteq> {r. Some r \<in> set events}"
        using "2.IH" [of ?i True "uset_erase ?i ids" "resp @ [r]"] "2.prems" True False by (simp add: wf_intros)
      then obtain got where got: "responses = resp @ r # got" "distinct (map id_of got)"
        "set (map id_of got) = set ids - {?i}" "set got \<subseteq> {r. Some r \<in> set events}" by auto
      then have "distinct (map id_of (r # got))" by auto
      moreover have "set (map id_of (r # got)) = set ids" using got(3) True by auto
      moreover have "set (r # got) \<subseteq> {r'. Some r' \<in> set (Some r # events)}" using got(4) by auto
      ultimately show ?thesis using got(1) by (intro exI [of _ "r # got"]) simp
    qed
  next
    case False
    with "2.IH" [of ?i False ids resp] "2.prems" show ?thesis by auto
  qed
next
  case (3 id_of ids resp limit events)
  then show ?case by (auto split: if_splits)
qed simp

lemma receive_loop_used:
  assumes "receive_loop id_of ids resp limit events = (succeed, responses, rest)"
  shows "\<exists>used. events = used @ rest \<and> (\<not> succeed \<longrightarrow> None \<in> set used \<or> rest = []) \<and> (succeed \<longrightarrow> set responses \<subseteq> set resp \<union> {r. Some r \<in> set used})"
  using assms
proof (induction id_of ids resp limit events rule: receive_loop.induct)
  case (2 id_of ids resp limit r events)
  show ?case
  proof (cases "(if id_of r \<in> set ids then uset_erase (id_of r) ids else ids) = []")
    case True
    with "2.prems" show ?thesis by (intro exI [of _ "[Some r]"]) (auto split: if_splits)
  next
    case False
    from "2.IH" [OF refl refl refl refl False] "2.prems" False obtain used where
      "events = used @ rest" "\<not> succeed \<longrightarrow> None \<in> set used \<or> rest = []"
      "succeed \<longrightarrow> set responses \<subseteq> set (if id_of r \<in> set ids then resp @ [r] else resp) \<union> {r. Some r \<in> set used}"
      by (auto simp: Let_def)
    then show ?thesis by (intro exI [of _ "Some r # used"]) (auto split: if_splits)
  qed
next
  case (3 id_of ids resp limit events)
  show ?case
  proof (cases "limit - 1 = 0")
    case True
    with "3.prems" show ?thesis by (intro exI [of _ "[None]"]) simp
  next
    case False
    with 3 obtain used where "events = used @ rest" "succeed \<longrightarrow> set responses \<subseteq> set resp \<union> {r. Some r \<in> set used}" by auto
    then show ?thesis by (intro exI [of _ "None # used"]) auto
  qed
qed auto

lemma make_request_used:
  assumes "make_request request address events st = (res, rest, st')"
  shows "st' = send address (Request request) st"
    and "\<exists>used. events = used @ rest \<and> (res = None \<longrightarrow> None \<in> set used \<or> rest = []) \<and>
      (\<forall>r. res = Some r \<longrightarrow> Some r \<in> set used \<and> kp_response_id r = kr_request_id request)"
proof -
  obtain succeed responses rest' where l: "receive_loop kp_response_id [kr_request_id request] [] (of_nat (length [kr_request_id request])) events = (succeed, responses, rest')"
    by (cases "receive_loop kp_response_id [kr_request_id request] [] (of_nat (length [kr_request_id request])) events") auto
  with assms have res: "res = (if succeed then Some (responses ! 0) else None)" "rest = rest'" "st' = send address (Request request) st"
    by (auto simp: make_request_def receive_responses_def send_request_def)
  from receive_loop_used [OF l] obtain used where used: "events = used @ rest" "\<not> succeed \<longrightarrow> None \<in> set used \<or> rest = []"
    "succeed \<longrightarrow> set responses \<subseteq> {r. Some r \<in> set used}" by (auto simp: res)
  have "responses ! 0 \<in> set responses \<and> kp_response_id (responses ! 0) = kr_request_id request" if succeed
  proof -
    from l that have "receive_loop kp_response_id [kr_request_id request] [] (of_nat (length [kr_request_id request])) events = (True, responses, rest')"
      by simp
    from receive_loop_ids [OF this] show ?thesis by (cases responses) auto
  qed
  with used show "\<exists>used. events = used @ rest \<and> (res = None \<longrightarrow> None \<in> set used \<or> rest = []) \<and>
      (\<forall>r. res = Some r \<longrightarrow> Some r \<in> set used \<and> kp_response_id r = kr_request_id request)"
    by (intro exI [of _ used]) (auto simp: res(1))
qed (use assms in \<open>auto simp: make_request_def send_request_def split: prod.splits\<close>)

text \<open>a successful \<open>receive\<close> returns exactly one response for each of the requested ids, each of them a message that
  arrived; messages with other ids and second answers to an id are dropped.\<close>

theorem receive_one_response_per_id:
  assumes "receive_responses id_of request_ids events = (True, responses, rest)" and "distinct request_ids" and "request_ids \<noteq> []"
  shows "distinct (map id_of responses) \<and> set (map id_of responses) = set request_ids \<and> set responses \<subseteq> {r. Some r \<in> set events}"
  using receive_loop_ids [OF assms(1) [unfolded receive_responses_def] assms(2,3)] by simp

theorem receive_one_response_per_id_witness:
  "distinct [2::nat, 1] \<and>
   receive_responses (\<lambda>n. to_string (of_nat n :: u32)) [''1'', ''2''] [None, Some 7, Some 2, Some 2, Some 1] = (True, [2, 1], []) \<and>
   set [''2'', ''1''] = set [''1'', ''2'']"
proof -
  have r: "receive_responses (\<lambda>n. to_string (of_nat n :: u32)) [''1'', ''2''] [None, Some 7, Some 2, Some 2, Some 1] = (True, [2, 1], [])"
    by code_simp
  from receive_one_response_per_id [OF r] r show ?thesis by auto
qed

text \<open>The number of times the wait ran out.\<close>

definition timeouts :: "'r option list \<Rightarrow> nat" where
  "timeouts events = length (filter (\<lambda>e. e = None) events)"

lemma receive_loop_ends:
  assumes "timeouts events \<ge> unat limit" and "limit > 0"
  shows "\<exists>used rest. events = used @ rest \<and> timeouts used \<le> unat limit \<and>
    (\<forall>later. snd (snd (receive_loop id_of ids resp limit (events @ later))) = rest @ later \<and>
       fst (receive_loop id_of ids resp limit (events @ later)) = fst (receive_loop id_of ids resp limit used) \<and>
       (timeouts used = unat limit \<longrightarrow> \<not> fst (receive_loop id_of ids resp limit used)))"
  using assms
proof (induction id_of ids resp limit events rule: receive_loop.induct)
  case (1 id_of ids resp limit)
  then have False by (simp add: timeouts_def word_less_nat_alt)
  then show ?case ..
next
  case (2 id_of ids resp limit r events)
  let ?ids = "if id_of r \<in> set ids then uset_erase (id_of r) ids else ids"
  show ?case
  proof (cases "?ids = []")
    case True
    have "timeouts [Some r] = 0" by (simp add: timeouts_def)
    then show ?thesis using True "2.prems"(2)
      by (intro exI [of _ "[Some r]"] exI [of _ events]) (auto simp: word_less_nat_alt Let_def)
  next
    case False
    have t: "timeouts (Some r # us) = timeouts us" for us :: "'a option list" by (simp add: timeouts_def)
    from "2.IH" [OF refl refl refl refl False] "2.prems" t obtain used rest where u: "events = used @ rest" "timeouts used \<le> unat limit"
      and l: "\<forall>later. snd (snd (receive_loop id_of ?ids (if id_of r \<in> set ids then resp @ [r] else resp) limit (events @ later))) = rest @ later \<and>
        fst (receive_loop id_of ?ids (if id_of r \<in> set ids then resp @ [r] else resp) limit (events @ later)) =
          fst (receive_loop id_of ?ids (if id_of r \<in> set ids then resp @ [r] else resp) limit used) \<and>
        (timeouts used = unat limit \<longrightarrow> \<not> fst (receive_loop id_of ?ids (if id_of r \<in> set ids then resp @ [r] else resp) limit used))" by auto
    show ?thesis using u(1) l False
      by (intro exI [of _ "Some r # used"] exI [of _ rest]) (auto simp: t u(2) Let_def)
  qed
next
  case (3 id_of ids resp limit events)
  have t: "timeouts (None # us) = Suc (timeouts us)" for us :: "'a option list" by (simp add: timeouts_def)
  have l: "unat (limit - 1) = unat limit - 1" "unat limit > 0"
    using "3.prems"(2) unat_minus_one [of limit] by (simp_all add: word_gt_0 unat_gt_0)
  show ?case
  proof (cases "limit - 1 = 0")
    case True
    with l have "unat limit = 1" by simp
    then show ?thesis using True by (intro exI [of _ "[None]"] exI [of _ events]) (simp add: t, simp add: timeouts_def)
  next
    case False
    then have "limit - 1 > 0" by (simp add: word_gt_0)
    moreover have "unat (limit - 1) \<le> timeouts events" using "3.prems"(1) l t by simp
    ultimately obtain used rest where u: "events = used @ rest" "timeouts used \<le> unat (limit - 1)"
      and r: "\<forall>later. snd (snd (receive_loop id_of ids resp (limit - 1) (events @ later))) = rest @ later \<and>
        fst (receive_loop id_of ids resp (limit - 1) (events @ later)) = fst (receive_loop id_of ids resp (limit - 1) used) \<and>
        (timeouts used = unat (limit - 1) \<longrightarrow> \<not> fst (receive_loop id_of ids resp (limit - 1) used))"
      using "3.IH" [OF False] by blast
    show ?thesis using r False u l by (intro exI [of _ "None # used"] exI [of _ rest]) (auto simp: t)
  qed
qed

text \<open>C33: \<open>receive\<close> ends: at the latest when as many waits have timed out as there are ids it does not look at
  the socket again, whatever arrives later.\<close>

theorem receive_ends:
  assumes "timeouts events \<ge> length request_ids" and "request_ids \<noteq> []" and "length request_ids < 2 ^ 32"
  shows "\<exists>used rest. events = used @ rest \<and> timeouts used \<le> length request_ids \<and>
    (\<forall>later. snd (snd (receive_responses id_of request_ids (events @ later))) = rest @ later \<and>
       fst (receive_responses id_of request_ids (events @ later)) = fst (receive_responses id_of request_ids used) \<and>
       (timeouts used = length request_ids \<longrightarrow> \<not> fst (receive_responses id_of request_ids used)))"
proof -
  have n: "unat (of_nat (length request_ids) :: u32) = length request_ids"
    using assms(3) by (simp add: unat_of_nat take_bit_nat_eq_self)
  with assms(2) have "(of_nat (length request_ids) :: u32) > 0" by (simp add: word_less_nat_alt)
  with receive_loop_ends [of "of_nat (length request_ids)" events id_of request_ids "[]"] assms(1) n show ?thesis
    unfolding receive_responses_def by simp
qed

theorem receive_ends_witness:
  "timeouts [Some ''x'', None, Some ''a'', None] = length [''a'', ''b''] \<and>
   (\<exists>used rest. [Some ''x'', None, Some ''a'', None] = used @ rest \<and> timeouts used \<le> length [''a'', ''b''] \<and>
      snd (snd (receive_responses (\<lambda>s. s) [''a'', ''b''] ([Some ''x'', None, Some ''a'', None] @ [Some ''b'']))) = rest @ [Some ''b''])"
  using receive_ends [of "[''a'', ''b'']" "[Some ''x'', None, Some ''a'', None]" "\<lambda>s. s"] by (auto simp: timeouts_def)

end
