(* ===== verification/Monitor_Stats.thy ===== *)
theory Monitor_Stats
  imports Routing Requests
begin

text \<open>
  What the monitoring node knows: its state and the statistics it gathers (\<open>src/monitor/stats_helpers.cpp\<close>,
  \<open>SummaryStats\<close> of \<open>monitoring_utils.hpp\<close>, the variables of \<open>main\<close> in \<open>monitoring.cpp\<close>).
  A \<open>double\<close> that can be the result of 0/0 is an option, with \<open>None\<close> for NaN, and a comparison with
  NaN is false. A conversion of a \<open>double\<close> that does not fit the integer type faults.
  The square root is a parameter, and so is what the response socket delivers (\<open>mn_responses\<close>).
\<close>

section \<open>Constants and numbers\<close>

definition kMonitoringThreshold :: u32 where "kMonitoringThreshold = 30"
definition kGracePeriod :: u32 where "kGracePeriod = 120"
definition kNodeAdditionBatchSize :: u32 where "kNodeAdditionBatchSize = 2"
definition kMaxMemoryNodeConsumption :: double where "kMaxMemoryNodeConsumption = 6 / 10"
definition kMaxEbsNodeConsumption :: double where "kMaxEbsNodeConsumption = 75 / 100"
definition kMinEbsNodeConsumption :: double where "kMinEbsNodeConsumption = 5 / 10"
definition kKeyPromotionThreshold :: u32 where "kKeyPromotionThreshold = 0"
definition kKeyDemotionThreshold :: u32 where "kKeyDemotionThreshold = 1"
definition kMinMemoryTierSize :: u32 where "kMinMemoryTierSize = 1"
definition kMinEbsTierSize :: u32 where "kMinEbsTierSize = 0"
definition kSloWorst :: u32 where "kSloWorst = 3000"

definition to_double :: "'a::len word \<Rightarrow> double" where
  "to_double w = of_int (uint w)"

text \<open>The conversion truncates towards zero and is undefined when the truncated value does not
  fit.\<close>

definition to_unsigned :: "double \<Rightarrow> 'a::len word res" where
  "to_unsigned d = (if - 1 < d \<and> d < 2 ^ LENGTH('a) then Inr (of_int (if d < 0 then 0 else \<lfloor>d\<rfloor>)) else Inl Bad_conversion)"

definition ceil_unsigned :: "double \<Rightarrow> u32 res" where
  "ceil_unsigned d = to_unsigned (of_int \<lceil>d\<rceil>)"

type_synonym ndouble = "double option"

definition ndiv :: "double \<Rightarrow> u32 \<Rightarrow> ndouble" where
  "ndiv x n = (if n = 0 then None else Some (x / to_double n))"

definition nadd :: "ndouble \<Rightarrow> ndouble \<Rightarrow> ndouble" where
  "nadd a b = (case (a, b) of (Some x, Some y) \<Rightarrow> Some (x + y) | _ \<Rightarrow> None)"

definition nless :: "ndouble \<Rightarrow> ndouble \<Rightarrow> bool" where
  "nless a b = (case (a, b) of (Some x, Some y) \<Rightarrow> x < y | _ \<Rightarrow> False)"

section \<open>State\<close>

type_synonym StorageStats = "(Address, (u32, u64) umap) umap"
type_synonym OccupancyStats = "(Address, (u32, double \<times> u32) umap) umap"
type_synonym AccessStats = "(Address, (u32, u32) umap) umap"

record SummaryStats =
  key_access_mean :: double
  key_access_std :: ndouble
  total_memory_access :: u32
  total_ebs_access :: u32
  total_memory_consumption :: u64
  total_ebs_consumption :: u64
  max_memory_consumption_percentage :: double
  max_ebs_consumption_percentage :: double
  avg_memory_consumption_percentage :: double
  avg_ebs_consumption_percentage :: double
  required_memory_node :: u32
  required_ebs_node :: u32
  max_memory_occupancy :: double
  min_memory_occupancy :: double
  avg_memory_occupancy :: ndouble
  max_ebs_occupancy :: double
  min_ebs_occupancy :: double
  avg_ebs_occupancy :: ndouble
  min_occupancy_memory_public_ip :: Address
  min_occupancy_memory_private_ip :: Address
  avg_latency :: double
  total_throughput :: double

definition SummaryStats_clear :: SummaryStats where
  "SummaryStats_clear = \<lparr>key_access_mean = 0, key_access_std = Some 0, total_memory_access = 0, total_ebs_access = 0,
     total_memory_consumption = 0, total_ebs_consumption = 0, max_memory_consumption_percentage = 0,
     max_ebs_consumption_percentage = 0, avg_memory_consumption_percentage = 0, avg_ebs_consumption_percentage = 0,
     required_memory_node = 0, required_ebs_node = 0, max_memory_occupancy = 0, min_memory_occupancy = 1,
     avg_memory_occupancy = Some 0, max_ebs_occupancy = 0, min_ebs_occupancy = 1, avg_ebs_occupancy = Some 0,
     min_occupancy_memory_public_ip = [], min_occupancy_memory_private_ip = [], avg_latency = 0, total_throughput = 0\<rparr>"

record monitor_env =
  mn_env :: env
  mn_ip :: Address
  mn_management_ip :: Address
  kEnableElasticity :: bool
  kEnableTiering :: bool
  kEnableSelectiveRep :: bool
  mn_rand :: "u64 \<Rightarrow> u32 \<times> u64"
  mn_sqrt :: "double \<Rightarrow> double"

abbreviation mn_cfg :: "monitor_env \<Rightarrow> config" where
  "mn_cfg me \<equiv> cfg (mn_env me)"

record monitor_state = ring_ctx +
  memory_node_count :: u32
  ebs_node_count :: u32
  key_access_frequency :: "(Key, (Address, u32) umap) umap"
  key_access_summary :: "(Key, u32) umap"
  key_sizes :: "(Key, u32) umap"
  memory_storage :: StorageStats
  ebs_storage :: StorageStats
  memory_occupancy :: OccupancyStats
  ebs_occupancy :: OccupancyStats
  memory_accesses :: AccessStats
  ebs_accesses :: AccessStats
  ss :: SummaryStats
  user_latency :: "(string, double) umap"
  user_throughput :: "(string, double) umap"
  latency_miss_ratio_map :: "(Key, double \<times> u32) umap"
  mn_routing_ips :: "Address list"
  departing_node_map :: "(Address, u32) umap"
  mn_report_start :: u64
  grace_start :: u64
  new_memory_count :: u32
  new_ebs_count :: u32
  removing_memory_node :: bool
  removing_ebs_node :: bool
  server_monitoring_epoch :: u32
  mn_rid :: u32
  mn_rand_state :: u64
  mn_responses :: "KeyResponse option list"

text \<open>The state in which the loop starts. The node counts are not initialised in the source; every round
  writes them before it reads them. The rings of the monitor are never seeded: they are filled by the
  join messages.\<close>

definition monitor_init :: "monitor_env \<Rightarrow> u64 \<Rightarrow> u64 \<Rightarrow> KeyResponse option list \<Rightarrow> monitor_state" where
  "monitor_init me now rand0 responses = form_local_rings (mn_env me) (mn_ip me) (mn_ip me) (ring_ctx.extend
     \<lparr>global_hash_rings = [], local_hash_rings = [], key_replication_map = [], seed = 0, sent = []\<rparr>
     (monitor_state.fields 0 0 [] [] [] [] [] [] [] [] [] SummaryStats_clear [] [] [] [] [] now now 0 0 False False 0 0 rand0 responses))"

section \<open>\<open>collect_internal_stats\<close>\<close>

definition mn_request :: "KeyRequest \<Rightarrow> Address \<Rightarrow> monitor_state \<Rightarrow> KeyResponse option \<times> monitor_state" where
  "mn_request request address st =
     (case make_request request address (mn_responses st) st of (res, events, st1) \<Rightarrow> (res, st1\<lparr>mn_responses := events\<rparr>))"

definition stats_keys :: "monitor_env \<Rightarrow> monitor_state \<Rightarrow> Key list" where
  "stats_keys me st = concat (map (\<lambda>tier. concat (map (\<lambda>th. concat (map
     (\<lambda>i. map (get_metadata_key_thread th tier (of_nat i)) [server_stats, key_access, key_size])
       [0..<unat (thread_number (tier_metadata (mn_cfg me) tier))]))
     (unique_servers (global_ring st tier)))) kAllTiers)"

definition record_stat :: "Tier \<Rightarrow> Address \<Rightarrow> u32 \<Rightarrow> ServerThreadStatistics \<Rightarrow> monitor_state \<Rightarrow> monitor_state" where
  "record_stat tier ip_pair t stat st =
     (if tier = MEMORY
      then st\<lparr>memory_storage := umap_mod [] ip_pair (umap_put t (sts_storage_consumption stat)) (memory_storage st),
              memory_occupancy := umap_mod [] ip_pair (umap_put t (sts_occupancy stat, sts_epoch stat)) (memory_occupancy st),
              memory_accesses := umap_mod [] ip_pair (umap_put t (sts_access_count stat)) (memory_accesses st)\<rparr>
      else st\<lparr>ebs_storage := umap_mod [] ip_pair (umap_put t (sts_storage_consumption stat)) (ebs_storage st),
              ebs_occupancy := umap_mod [] ip_pair (umap_put t (sts_occupancy stat, sts_epoch stat)) (ebs_occupancy st),
              ebs_accesses := umap_mod [] ip_pair (umap_put t (sts_access_count stat)) (ebs_accesses st)\<rparr>)"

definition stat_value :: "codecs \<Rightarrow> string \<Rightarrow> Tier \<Rightarrow> Address \<Rightarrow> u32 \<Rightarrow> string \<Rightarrow> monitor_state \<Rightarrow> monitor_state" where
  "stat_value c metadata_type tier ip_pair t val st =
     (if metadata_type = ''stats'' then record_stat tier ip_pair t (parsed (pb_stat c) val) st
      else if metadata_type = ''access''
      then st\<lparr>key_access_frequency := fold (\<lambda>(key, count). umap_mod [] key (umap_put (ip_pair @ '':'' @ to_string t) count))
               (parsed (pb_access c) val) (key_access_frequency st)\<rparr>
      else if metadata_type = ''size''
      then st\<lparr>key_sizes := fold (\<lambda>(key, sz). umap_put key sz) (parsed (pb_size c) val) (key_sizes st)\<rparr>
      else st)"

definition stat_tuple :: "monitor_env \<Rightarrow> KeyTuple \<Rightarrow> monitor_state \<Rightarrow> monitor_state res" where
  "stat_tuple me tuple st =
     (if kt_error tuple \<noteq> NO_ERROR then Inr st
      else let tokens = split_metadata_key (kt_key tuple); c = pb (mn_env me)
      in ebind (vec_at tokens 1) (\<lambda>metadata_type.
         ebind (vec_at tokens 2) (\<lambda>pub.
         ebind (vec_at tokens 3) (\<lambda>priv.
         ebind (ebind (vec_at tokens 4) stoi) (\<lambda>t.
         ebind (ebind (vec_at tokens 5) Tier_Parse) (\<lambda>tier.
           Inr (stat_value c metadata_type tier (pub @ ''/'' @ priv) (of_int t)
                  (lv_value (parsed (pb_lww c) (kt_payload tuple))) st)))))))"

definition stat_request :: "monitor_env \<Rightarrow> Address \<times> KeyRequest \<Rightarrow> monitor_state \<Rightarrow> monitor_state res" where
  "stat_request me = (\<lambda>(address, request) st.
     case mn_request request address st of
       (None, st1) \<Rightarrow> Inr st1
     | (Some res, st1) \<Rightarrow> efold (stat_tuple me) (kp_tuples res) st1)"

definition collect_internal_stats :: "monitor_env \<Rightarrow> monitor_state \<Rightarrow> monitor_state res" where
  "collect_internal_stats me st =
     (let keys = stats_keys me st;
          st1 = fold touch_global kAllTiers st;
          st2 = (if keys = [] then st1 else touch_local MEMORY st1)
      in ebind (efold (\<lambda>key. prepare_metadata_get_request (mn_rand me) (mn_env me) key (global_ring st MEMORY)
                         (local_ring st MEMORY) (mt_response_connect_address (mn_ip me))) keys
                  \<lparr>addr_request_map = [], rid = mn_rid st2, rand_state = mn_rand_state st2\<rparr>) (\<lambda>acc.
           efold (stat_request me) (addr_request_map acc) (st2\<lparr>mn_rid := rid acc, mn_rand_state := rand_state acc\<rparr>)))"

section \<open>\<open>compute_summary_stats\<close>\<close>

definition access_totals :: "(Key, (Address, u32) umap) umap \<Rightarrow> (Key \<times> u32) list" where
  "access_totals freq = map (\<lambda>(key, machines). (key, fold (\<lambda>(a, n) sum. sum + n) machines 0)) freq"

definition access_moment :: "u32 \<Rightarrow> u32 \<times> double \<times> double \<Rightarrow> u32 \<times> double \<times> double" where
  "access_moment n = (\<lambda>(cnt, mean, ms).
     if n > 0
     then let cnt1 = cnt + 1; delta = to_double n - mean; mean1 = mean + delta / to_double cnt1;
              delta2 = to_double n - mean1
          in (cnt1, mean1, ms + delta * delta2)
     else (cnt, mean, ms))"

definition total_access :: "AccessStats \<Rightarrow> u32 \<Rightarrow> u32" where
  "total_access accesses = fold (\<lambda>(a, threads). fold (\<lambda>(t, n) sum. sum + n) threads) accesses"

text \<open>The sum of a node's threads is an \<open>unsigned\<close>, the total of the tier an \<open>unsigned long long\<close>.\<close>

definition node_consumption :: "u64 \<Rightarrow> Address \<times> (u32, u64) umap \<Rightarrow> u64 \<times> double \<times> u32 \<Rightarrow> u64 \<times> double \<times> u32" where
  "node_consumption capacity = (\<lambda>(a, threads) (total, max_percentage, count).
     let total_thread_consumption = fold (\<lambda>(t, n) sum. sum + ucast n) threads (0 :: u32);
         percentage = to_double total_thread_consumption / to_double capacity
     in (fold (\<lambda>(t, n) sum. sum + n) threads total,
         if percentage > max_percentage then percentage else max_percentage, count + 1))"

definition node_occupancy :: "(u32, double \<times> u32) umap \<Rightarrow> ndouble" where
  "node_occupancy threads = ndiv (fold (\<lambda>(t, occ, epoch) sum. sum + occ) threads 0) (fold (\<lambda>_ n. n + 1) threads 0)"

definition memory_occupancy_node :: "Address \<times> (u32, double \<times> u32) umap \<Rightarrow> SummaryStats \<times> ndouble \<times> u32 \<Rightarrow>
    (SummaryStats \<times> ndouble \<times> u32) res" where
  "memory_occupancy_node = (\<lambda>(node, threads) (s, sum, count).
     let occ = node_occupancy threads; sum1 = nadd sum occ;
         s1 = (if nless (Some (max_memory_occupancy s)) occ then s\<lparr>max_memory_occupancy := the occ\<rparr> else s)
     in if nless occ (Some (min_memory_occupancy s1))
        then let ips = split_string node (CHR ''/'')
             in ebind (vec_at ips 0) (\<lambda>pub. ebind (vec_at ips 1) (\<lambda>priv.
                  Inr (s1\<lparr>min_memory_occupancy := the occ, min_occupancy_memory_public_ip := pub,
                         min_occupancy_memory_private_ip := priv\<rparr>, sum1, count + 1)))
        else Inr (s1, sum1, count + 1))"

definition ebs_occupancy_node :: "Address \<times> (u32, double \<times> u32) umap \<Rightarrow> SummaryStats \<times> ndouble \<times> u32 \<Rightarrow>
    SummaryStats \<times> ndouble \<times> u32" where
  "ebs_occupancy_node = (\<lambda>(node, threads) (s, sum, count).
     let occ = node_occupancy threads;
         s1 = (if nless (Some (max_ebs_occupancy s)) occ then s\<lparr>max_ebs_occupancy := the occ\<rparr> else s);
         s2 = (if nless occ (Some (min_ebs_occupancy s1)) then s1\<lparr>min_ebs_occupancy := the occ\<rparr> else s1)
     in (s2, nadd sum occ, count + 1))"

definition navg :: "ndouble \<Rightarrow> u32 \<Rightarrow> ndouble" where
  "navg x count = (case x of None \<Rightarrow> None | Some y \<Rightarrow> ndiv y count)"

definition summarize_access :: "monitor_env \<Rightarrow> monitor_state \<Rightarrow> monitor_state" where
  "summarize_access me st =
     (let totals = access_totals (key_access_frequency st);
          (cnt, mean, ms) = fold (access_moment \<circ> snd) totals (0, 0, 0); s = ss st
      in st\<lparr>key_access_summary := fold (\<lambda>(key, n). umap_put key n) totals (key_access_summary st),
            ss := s\<lparr>key_access_mean := mean, key_access_std := map_option (mn_sqrt me) (ndiv ms cnt),
                   total_memory_access := total_access (memory_accesses st) (total_memory_access s),
                   total_ebs_access := total_access (ebs_accesses st) (total_ebs_access s)\<rparr>\<rparr>)"

text \<open>A tier without capacity has no number of required nodes: the division gives an infinity or NaN, whose
  conversion is undefined.\<close>

definition nodes_needed :: "u64 \<Rightarrow> double \<Rightarrow> u64 \<Rightarrow> u32 res" where
  "nodes_needed consumption fraction capacity =
     (if capacity = 0 then Inl Bad_conversion else ceil_unsigned (to_double consumption / (fraction * to_double capacity)))"

definition summarize_storage :: "monitor_env \<Rightarrow> monitor_state \<Rightarrow> monitor_state res" where
  "summarize_storage me st =
     (let s = ss st;
          mcap = node_capacity (tier_metadata (mn_cfg me) MEMORY); ecap = node_capacity (tier_metadata (mn_cfg me) DISK);
          (m_total, m_max, m_count) = fold (node_consumption mcap) (memory_storage st)
             (total_memory_consumption s, max_memory_consumption_percentage s, 0);
          (e_total, e_max, e_count) = fold (node_consumption ecap) (ebs_storage st)
             (total_ebs_consumption s, max_ebs_consumption_percentage s, 0);
          m_avg = (if m_count \<noteq> 0 then to_double m_total / (to_double m_count * to_double mcap) else avg_memory_consumption_percentage s);
          e_avg = (if e_count \<noteq> 0 then to_double e_total / (to_double e_count * to_double ecap) else avg_ebs_consumption_percentage s)
      in ebind (nodes_needed m_total kMaxMemoryNodeConsumption mcap) (\<lambda>m_required.
         ebind (nodes_needed e_total kMaxEbsNodeConsumption ecap) (\<lambda>e_required.
              Inr (st\<lparr>ss := s\<lparr>total_memory_consumption := m_total, total_ebs_consumption := e_total,
                     max_memory_consumption_percentage := m_max, max_ebs_consumption_percentage := e_max,
                     avg_memory_consumption_percentage := m_avg, avg_ebs_consumption_percentage := e_avg,
                     required_memory_node := m_required, required_ebs_node := e_required\<rparr>\<rparr>))))"

definition summarize_occupancy :: "monitor_state \<Rightarrow> monitor_state res" where
  "summarize_occupancy st =
     ebind (efold memory_occupancy_node (memory_occupancy st) (ss st, Some 0, 0)) (\<lambda>(s, m_sum, m_count).
       let (s1, e_sum, e_count) = fold ebs_occupancy_node (ebs_occupancy st)
             (s\<lparr>avg_memory_occupancy := navg m_sum m_count\<rparr>, Some 0, 0)
       in Inr (st\<lparr>ss := s1\<lparr>avg_ebs_occupancy := navg e_sum e_count\<rparr>\<rparr>))"

definition compute_summary_stats :: "monitor_env \<Rightarrow> monitor_state \<Rightarrow> monitor_state res" where
  "compute_summary_stats me st = ebind (summarize_storage me (summarize_access me st)) summarize_occupancy"

section \<open>\<open>collect_external_stats\<close>\<close>

text \<open>The number of users stays below that of an \<open>unsigned\<close>, so their count is the size of the map.\<close>

definition collect_external_stats :: "monitor_state \<Rightarrow> monitor_state" where
  "collect_external_stats st =
     (let s = ss st;
          s1 = (if user_latency st \<noteq> []
                then s\<lparr>avg_latency := fold (\<lambda>(u, x) sum. sum + x) (user_latency st) 0 / of_nat (length (user_latency st))\<rparr> else s)
      in st\<lparr>ss := s1\<lparr>total_throughput := fold (\<lambda>(u, x) sum. sum + x) (user_throughput st) (total_throughput s1)\<rparr>\<rparr>)"

section \<open>The running mean and deviation\<close>

definition mean_of :: "double list \<Rightarrow> double" where
  "mean_of xs = (if xs = [] then 0 else sum_list xs / of_nat (length xs))"

definition squares_of :: "double list \<Rightarrow> double" where
  "squares_of xs = sum_list (map (\<lambda>x. (x - mean_of xs)\<^sup>2) xs)"

lemma mean_of_times: "mean_of xs * of_nat (length xs) = sum_list xs"
  by (simp add: mean_of_def)

lemma squares_of_expand: "squares_of xs = sum_list (map (\<lambda>x. x\<^sup>2) xs) - sum_list xs * mean_of xs"
proof -
  have "sum_list (map (\<lambda>x. (x - m)\<^sup>2) xs) = sum_list (map (\<lambda>x. x\<^sup>2) xs) - 2 * m * sum_list xs + m * of_nat (length xs) * m" for m
    by (induction xs) (simp_all add: power2_eq_square algebra_simps)
  from this [of "mean_of xs"] show ?thesis
    unfolding squares_of_def mean_of_times by (simp add: algebra_simps)
qed

lemma moment_step:
  fixes x :: double
  shows "mean_of xs + (x - mean_of xs) / (of_nat (length xs) + 1) = mean_of (xs @ [x])" (is ?mean)
    and "squares_of xs + (x - mean_of xs) * (x - mean_of (xs @ [x])) = squares_of (xs @ [x])" (is ?squares)
proof -
  define n :: double where "n = of_nat (length xs)"
  have pos: "n + 1 \<noteq> 0" using of_nat_0_le_iff [of "length xs", where 'a = double] by (simp add: n_def)
  have s: "sum_list xs = mean_of xs * n" using mean_of_times [of xs] by (simp add: n_def)
  moreover have "mean_of (xs @ [x]) * (n + 1) = sum_list xs + x"
    using mean_of_times [of "xs @ [x]"] by (simp add: n_def add.commute)
  ultimately have x: "x = mean_of (xs @ [x]) * (n + 1) - mean_of xs * n" by simp
  then have "mean_of (xs @ [x]) - mean_of xs = (x - mean_of xs) / (n + 1)"
    using pos by (simp add: eq_divide_eq algebra_simps)
  then show ?mean by (simp add: n_def)
  have gen: "q - s * m + (y - m) * (y - m') = q + y\<^sup>2 - (s + y) * m'" if "s = m * n" "y = m' * (n + 1) - m * n" for q s m m' y :: double
    unfolding that by (simp add: power2_eq_square algebra_simps)
  show ?squares
    using gen [OF s x, of "sum_list (map (\<lambda>x. x\<^sup>2) xs)"] by (simp add: squares_of_expand)
qed

lemma to_double_nat: "to_double w = of_nat (unat w)"
  by (simp add: to_double_def)

lemma access_moment_eq:
  "n > 0 \<Longrightarrow> access_moment n (c, m, q) = (let m1 = m + (to_double n - m) / to_double (c + 1)
     in (c + 1, m1, q + (to_double n - m) * (to_double n - m1)))"
  "\<not> n > 0 \<Longrightarrow> access_moment n s = s"
  by (simp_all add: access_moment_def Let_def split: prod.splits)

lemma access_moments:
  assumes "length (filter (\<lambda>n. n > 0) ns) < 2 ^ 32"
  shows "fold access_moment ns (0, 0, 0) =
    (let xs = map to_double (filter (\<lambda>n. n > 0) ns) in (of_nat (length xs), mean_of xs, squares_of xs))"
  using assms
proof (induction ns rule: rev_induct)
  case (snoc n ns)
  let ?xs = "map to_double (filter (\<lambda>n. n > 0) ns)"
  have "length ?xs < 2 ^ 32 - (if n > 0 then 1 else 0)" using snoc.prems by (auto split: if_splits)
  with snoc.IH have IH: "fold access_moment ns (0, 0, 0) = (of_nat (length ?xs), mean_of ?xs, squares_of ?xs)"
    by (simp add: Let_def split: if_splits)
  show ?case
  proof (cases "n > 0")
    case True
    with \<open>length ?xs < _\<close> have "unat (of_nat (Suc (length ?xs)) :: u32) = Suc (length ?xs)"
      by (simp only: unsigned_of_nat of_nat_id) (simp add: take_bit_nat_eq_self)
    then have "to_double (of_nat (length ?xs) + 1 :: u32) = of_nat (length ?xs) + 1"
      unfolding to_double_nat by (simp only: of_nat_Suc add.commute)
    then show ?thesis
      using True moment_step [of ?xs "to_double n"] IH by (simp add: access_moment_eq Let_def add.commute)
  qed (use IH in \<open>simp add: access_moment_eq Let_def\<close>)
qed (simp add: mean_of_def squares_of_def)

text \<open>The number of times each key was accessed, for the keys accessed at all.\<close>

definition accessed :: "monitor_state \<Rightarrow> double list" where
  "accessed st = map to_double (filter (\<lambda>n. n > 0) (map snd (access_totals (key_access_frequency st))))"

lemma summarize_storage_eq:
  assumes "summarize_storage me st = Inr st'"
  shows "key_access_mean (ss st') = key_access_mean (ss st)" and "key_access_std (ss st') = key_access_std (ss st)"
    and "avg_latency (ss st') = avg_latency (ss st)" and "\<exists>s. st' = st\<lparr>ss := s\<rparr>"
  using assms by (auto simp: summarize_storage_def Let_def ebind_Inr_iff split: prod.splits if_splits)

definition same_access :: "SummaryStats \<Rightarrow> SummaryStats \<Rightarrow> bool" where
  "same_access s s' \<longleftrightarrow> key_access_mean s' = key_access_mean s \<and> key_access_std s' = key_access_std s \<and>
     avg_latency s' = avg_latency s \<and> total_memory_consumption s' = total_memory_consumption s"

lemma occupancy_nodes_same:
  "memory_occupancy_node p (s, x, n) = Inr (s', x', n') \<Longrightarrow> same_access s s'"
  "same_access s (fst (ebs_occupancy_node p (s, x, n)))"
  by (auto simp: memory_occupancy_node_def ebs_occupancy_node_def same_access_def Let_def ebind_Inr_iff split: prod.splits if_splits)

lemma summarize_occupancy_eq:
  assumes "summarize_occupancy st = Inr st'"
  shows "same_access (ss st) (ss st')" and "\<exists>s. st' = st\<lparr>ss := s\<rparr>"
proof -
  from assms obtain r where "efold memory_occupancy_node (memory_occupancy st) (ss st, Some 0, 0) = Inr r"
    by (auto simp: summarize_occupancy_def ebind_Inr_iff)
  then obtain s x n where m: "efold memory_occupancy_node (memory_occupancy st) (ss st, Some 0, 0) = Inr (s, x, n)"
    by (cases r) auto
  obtain s1 y k where e: "fold ebs_occupancy_node (ebs_occupancy st) (s\<lparr>avg_memory_occupancy := navg x n\<rparr>, Some 0, 0) = (s1, y, k)"
    by (cases "fold ebs_occupancy_node (ebs_occupancy st) (s\<lparr>avg_memory_occupancy := navg x n\<rparr>, Some 0, 0)") auto
  have st': "st' = st\<lparr>ss := s1\<lparr>avg_ebs_occupancy := navg y k\<rparr>\<rparr>" using assms m e by (simp add: summarize_occupancy_def)
  then show "\<exists>s. st' = st\<lparr>ss := s\<rparr>" by blast
  have "same_access (ss st) (fst (s, x, n))"
    by (rule efold_invariant [OF m, where P = "\<lambda>q. same_access (ss st) (fst q)"])
      (auto simp: same_access_def dest!: occupancy_nodes_same(1))
  moreover have "same_access (ss st) (fst (fold ebs_occupancy_node es (s', y, k)))" if "same_access (ss st) s'" for es s' y k
    by (rule fold_invariant_list [where P = "\<lambda>q. same_access (ss st) (fst q)"])
      (use that occupancy_nodes_same(2) in \<open>auto simp: same_access_def\<close>)
  from this [of "s\<lparr>avg_memory_occupancy := navg x n\<rparr>" "ebs_occupancy st" "Some 0" 0] calculation have "same_access (ss st) s1"
    by (simp add: e same_access_def)
  then show "same_access (ss st) (ss st')" unfolding st' by (simp add: same_access_def)
qed

definition example_monitor_env :: monitor_env where
  "example_monitor_env = \<lparr>mn_env = example_env, mn_ip = ''M'', mn_management_ip = ''G'', kEnableElasticity = True,
     kEnableTiering = True, kEnableSelectiveRep = True, mn_rand = (\<lambda>s. (ucast s, s + 1)), mn_sqrt = (\<lambda>x. x)\<rparr>"

definition example_accesses :: monitor_state where
  "example_accesses = (monitor_init example_monitor_env 0 0 [])
     \<lparr>key_access_frequency := [(''a'', [(''A/a:0'', 1), (''A/a:1'', 2)]), (''b'', []), (''c'', [(''B/b:0'', 5)])],
      memory_storage := [(''A/a'', [(0, 100), (1, 200)])], memory_occupancy := [(''A/a'', [(0, 1 / 10, 3), (1, 3 / 10, 3)])]\<rparr>"



end
