(* ===== verification/Monitor.thy ===== *)
theory Monitor
  imports Monitor_Stats
begin

text \<open>
  The monitoring node's handlers, policies and loop: the other files of \<open>src/monitor\<close>. A counter or
  flag that a function takes by reference is passed as the setter of the field. The clock is read once per
  round. Requests for new replication factors are a map from keys to factors, in the order
  of the map.
\<close>

section \<open>Handlers\<close>

record UserFeedback =
  fb_uid :: string
  fb_latency :: double
  fb_finish :: bool
  fb_throughput :: double
  fb_key_latency :: "(Key \<times> double) list"

definition key_feedback :: "Key \<times> double \<Rightarrow> (Key, double \<times> u32) umap \<Rightarrow> (Key, double \<times> u32) umap" where
  "key_feedback = (\<lambda>(key, observed) m.
     case map_of m key of
       None \<Rightarrow> umap_put key (observed / to_double kSloWorst, 1) m
     | Some (ratio, n) \<Rightarrow>
         umap_put key ((ratio * to_double n + observed / to_double kSloWorst) / to_double (n + 1), n + 1) m)"

definition feedback_handler :: "UserFeedback \<Rightarrow> monitor_state \<Rightarrow> monitor_state" where
  "feedback_handler fb st =
     (if fb_finish fb then st\<lparr>user_latency := umap_erase (fb_uid fb) (user_latency st)\<rparr>
      else st\<lparr>user_latency := umap_put (fb_uid fb) (fb_latency fb) (user_latency st),
              user_throughput := umap_put (fb_uid fb) (fb_throughput fb) (user_throughput st),
              latency_miss_ratio_map := fold key_feedback (fb_key_latency fb) (latency_miss_ratio_map st)\<rparr>)"

definition management_address :: "monitor_env \<Rightarrow> Address" where
  "management_address me = ''tcp://'' @ mn_management_ip me @ '':7001''"

definition depart_done_handler :: "monitor_env \<Rightarrow> u64 \<Rightarrow> string \<Rightarrow> monitor_state \<Rightarrow> monitor_state res" where
  "depart_done_handler me now serialized st =
     (let tokens = split_string serialized (CHR ''_'')
      in ebind (vec_at tokens 0) (\<lambda>departed_public_ip.
         ebind (vec_at tokens 1) (\<lambda>departed_private_ip.
         ebind (ebind (vec_at tokens 2) stoi) (\<lambda>tier_id.
           case map_of (departing_node_map st) departed_private_ip of
             None \<Rightarrow> Inr st
           | Some n \<Rightarrow>
               let st1 = st\<lparr>departing_node_map := umap_put departed_private_ip (n - 1) (departing_node_map st)\<rparr>
               in if n - 1 \<noteq> 0 then Inr st1
                  else let memory = ((of_int tier_id :: u32) = 1);
                           st2 = (if memory then st1\<lparr>removing_memory_node := False\<rparr> else st1\<lparr>removing_ebs_node := False\<rparr>);
                           message = ''remove:'' @ departed_private_ip @ '':'' @ (if memory then ''memory'' else ''ebs'')
                       in Inr ((send (management_address me) (Text message) st2)
                            \<lparr>grace_start := now, departing_node_map := umap_erase departed_private_ip (departing_node_map st1)\<rparr>)))))"

definition erase_accesses :: "Address \<Rightarrow> u32 \<Rightarrow> (Key, (Address, u32) umap) umap \<Rightarrow> (Key, (Address, u32) umap) umap" where
  "erase_accesses ip count freq =
     map (\<lambda>(key, machines). (key, fold (\<lambda>i. umap_erase (ip @ '':'' @ to_string (of_nat i :: u32))) [0..<unat count] machines)) freq"

definition monitor_membership_handler :: "monitor_env \<Rightarrow> u64 \<Rightarrow> string \<Rightarrow> monitor_state \<Rightarrow> monitor_state res" where
  "monitor_membership_handler me now serialized st =
     (let v = split_string serialized (CHR '':'')
      in ebind (vec_at v 0) (\<lambda>ty.
         ebind (ebind (vec_at v 1) Tier_Parse) (\<lambda>tier.
         ebind (vec_at v 2) (\<lambda>pub.
         ebind (vec_at v 3) (\<lambda>priv. Inr (
           if ty = ''join''
           then let st1 = mod_global_ring tier (\<lambda>r. snd (global_insert (mn_env me) pub priv 0 0 r)) st
                in if tier = MEMORY
                   then st1\<lparr>new_memory_count := (if new_memory_count st > 0 then new_memory_count st - 1 else new_memory_count st),
                            grace_start := now\<rparr>
                   else if tier = DISK
                   then st1\<lparr>new_ebs_count := (if new_ebs_count st > 0 then new_ebs_count st - 1 else new_ebs_count st),
                            grace_start := now\<rparr>
                   else if tier = ROUTING then st\<lparr>mn_routing_ips := mn_routing_ips st @ [pub]\<rparr>
                   else st
           else if ty = ''depart''
           then let st1 = mod_global_ring tier (global_remove (mn_env me) pub priv 0) st
                in if tier = MEMORY
                   then st1\<lparr>memory_storage := umap_erase priv (memory_storage st), memory_occupancy := umap_erase priv (memory_occupancy st),
                            key_access_frequency := erase_accesses priv (kMemoryThreadCount (mn_cfg me)) (key_access_frequency st)\<rparr>
                   else if tier = DISK
                   then st1\<lparr>ebs_storage := umap_erase priv (ebs_storage st), ebs_occupancy := umap_erase priv (ebs_occupancy st),
                            key_access_frequency := erase_accesses priv (kEbsThreadCount (mn_cfg me)) (key_access_frequency st)\<rparr>
                   else st1
           else st))))))"

section \<open>Elasticity\<close>

definition set_new_memory :: "u32 \<Rightarrow> monitor_state \<Rightarrow> monitor_state" where
  "set_new_memory n st = st\<lparr>new_memory_count := n\<rparr>"

definition set_new_ebs :: "u32 \<Rightarrow> monitor_state \<Rightarrow> monitor_state" where
  "set_new_ebs n st = st\<lparr>new_ebs_count := n\<rparr>"

definition add_node :: "monitor_env \<Rightarrow> string \<Rightarrow> u32 \<Rightarrow> (u32 \<Rightarrow> monitor_state \<Rightarrow> monitor_state) \<Rightarrow> monitor_state \<Rightarrow> monitor_state" where
  "add_node me tier number set_adding st =
     set_adding number (send (management_address me) (Text (''add:'' @ to_string number @ '':'' @ tier)) st)"

definition remove_node :: "monitor_env \<Rightarrow> ServerThread \<Rightarrow> (monitor_state \<Rightarrow> monitor_state) \<Rightarrow> monitor_state \<Rightarrow> monitor_state" where
  "remove_node me node set_removing st =
     set_removing (send (self_depart_connect_address node) (Text (mt_depart_done_connect_address (mn_ip me)))
       (st\<lparr>departing_node_map := umap_put (private_ip node) (thread_number (tier_metadata (mn_cfg me) MEMORY)) (departing_node_map st)\<rparr>))"

text \<open>\<open>time_elapsed > kGracePeriod\<close>, where \<open>time_elapsed\<close> is a \<open>long\<close> (\<open>grace_over\<close>), or an \<open>int\<close>, which
  the comparison converts to \<open>unsigned\<close> (\<open>grace_over_int\<close>).\<close>

definition grace_over :: "u64 \<Rightarrow> monitor_state \<Rightarrow> bool" where
  "grace_over now st \<longleftrightarrow> seconds_since now (grace_start st) > uint kGracePeriod"

definition grace_over_int :: "u64 \<Rightarrow> monitor_state \<Rightarrow> bool" where
  "grace_over_int now st \<longleftrightarrow> (of_int (seconds_since now (grace_start st)) :: u32) > kGracePeriod"

section \<open>Replication factors\<close>

type_synonym rep_requests = "(Key, KeyReplication) umap"

definition create_new_replication_vector :: "u32 \<Rightarrow> u32 \<Rightarrow> u32 \<Rightarrow> u32 \<Rightarrow> KeyReplication" where
  "create_new_replication_vector gm ge lm le =
     \<lparr>global_replication = [(MEMORY, gm), (DISK, ge)], local_replication = [(MEMORY, lm), (DISK, le)]\<rparr>"

definition rep_of :: "'a ring_ctx_scheme \<Rightarrow> Key \<Rightarrow> KeyReplication" where
  "rep_of c key = umap_get KeyReplication_default (key_replication_map c) key"

definition touch_rep :: "Key \<Rightarrow> 'a ring_ctx_scheme \<Rightarrow> 'a ring_ctx_scheme" where
  "touch_rep key c = c\<lparr>key_replication_map := umap_mod KeyReplication_default key id (key_replication_map c)\<rparr>"

definition replication_data :: "Key \<Rightarrow> KeyReplication \<Rightarrow> ReplicationFactor" where
  "replication_data key rep = \<lparr>rf_key = key, rf_global = global_replication rep, rf_local = local_replication rep\<rparr>"

definition prepare_replication_factor_update :: "Key \<Rightarrow> Address \<Rightarrow>
    (Address, ReplicationFactorUpdate) umap \<times> monitor_state \<Rightarrow> (Address, ReplicationFactorUpdate) umap \<times> monitor_state" where
  "prepare_replication_factor_update key server_address = (\<lambda>(m, st).
     (umap_mod [] server_address (\<lambda>updates. updates @ [replication_data key (rep_of st key)]) m, touch_rep key st))"

text \<open>One key of the first loop of \<open>change_replication_factor\<close>: remember the old factors, and store new ones that
  differ.\<close>

definition change_key :: "monitor_env \<Rightarrow> u64 \<Rightarrow> Key \<times> KeyReplication \<Rightarrow> (Key, KeyReplication) umap \<times> request_acc \<times> monitor_state \<Rightarrow>
    ((Key, KeyReplication) umap \<times> request_acc \<times> monitor_state) res" where
  "change_key me now = (\<lambda>(key, new_rep) (orig, acc, st).
     let orig1 = umap_put key (rep_of st key) orig; st1 = touch_rep key st
     in if KeyReplication_eq new_rep (rep_of st key) then Inr (orig1, acc, st1)
        else let st2 = touch_rings MEMORY (st1\<lparr>key_replication_map := umap_put key new_rep (key_replication_map st1)\<rparr>)
             in ebind (prepare_metadata_put_request (mn_rand me) (now div 1000) (mn_env me) (get_metadata_key key replication)
                         (enc (pb_rep (pb (mn_env me))) (replication_data key new_rep))
                         (global_ring st MEMORY) (local_ring st MEMORY) (mt_response_connect_address (mn_ip me)) acc)
                  (\<lambda>acc1. Inr (orig1, acc1, st2)))"

text \<open>Store the factors on the servers, synchronously. The keys whose request timed out or met a thread that is not
  responsible have failed.\<close>

definition put_replication :: "Address \<times> KeyRequest \<Rightarrow> Key uset \<times> monitor_state \<Rightarrow> Key uset \<times> monitor_state" where
  "put_replication = (\<lambda>(address, request) (failed, st).
     case mn_request request address st of
       (None, st1) \<Rightarrow> (fold (\<lambda>tuple. uset_insert (get_key_from_metadata (kt_key tuple))) (kr_tuples request) failed, st1)
     | (Some res, st1) \<Rightarrow>
         (fold (\<lambda>tuple. uset_insert (get_key_from_metadata (kt_key tuple)))
            (filter (\<lambda>tuple. kt_error tuple = WRONG_THREAD) (kp_tuples res)) failed, st1))"

definition announce_tier :: "monitor_env \<Rightarrow> (Key, KeyReplication) umap \<Rightarrow> Key \<Rightarrow> Tier \<Rightarrow>
    (Address, ReplicationFactorUpdate) umap \<times> monitor_state \<Rightarrow> ((Address, ReplicationFactorUpdate) umap \<times> monitor_state) res" where
  "announce_tier me orig key tier = (\<lambda>(m, st).
     let rep = max (global_rep st key tier) (umap_get 0 (global_replication (umap_get KeyReplication_default orig key)) tier);
         st1 = touch_global tier (touch_global_rep key tier st)
     in ebind (responsible_global (mn_env me) key rep (global_ring st tier)) (\<lambda>threads.
          Inr (fold (\<lambda>th. prepare_replication_factor_update key (replication_change_connect_address th)) threads (m, st1))))"

definition announce_key :: "monitor_env \<Rightarrow> (Key, KeyReplication) umap \<Rightarrow> Key uset \<Rightarrow> Key \<times> KeyReplication \<Rightarrow>
    (Address, ReplicationFactorUpdate) umap \<times> monitor_state \<Rightarrow> ((Address, ReplicationFactorUpdate) umap \<times> monitor_state) res" where
  "announce_key me orig failed = (\<lambda>(key, new_rep) (m, st).
     if key \<in> set failed then Inr (m, st)
     else ebind (efold (announce_tier me orig key) kAllTiers (m, st)) (\<lambda>(m1, st1).
       Inr (fold (\<lambda>address. prepare_replication_factor_update key (rt_replication_change_connect_address (mk_RoutingThread address 0)))
              (mn_routing_ips st) (m1, st1))))"

definition restore_key :: "(Key, KeyReplication) umap \<Rightarrow> Key \<Rightarrow> monitor_state \<Rightarrow> monitor_state" where
  "restore_key orig key st =
     st\<lparr>key_replication_map := umap_put key (umap_get KeyReplication_default orig key) (key_replication_map st)\<rparr>"

definition change_replication_factor :: "monitor_env \<Rightarrow> u64 \<Rightarrow> rep_requests \<Rightarrow> monitor_state \<Rightarrow> monitor_state res" where
  "change_replication_factor me now requests st =
     ebind (efold (change_key me now) requests
              ([], \<lparr>addr_request_map = [], rid = mn_rid st, rand_state = mn_rand_state st\<rparr>, st)) (\<lambda>(orig, acc, st1).
       let (failed, st2) = fold put_replication (addr_request_map acc)
             ([], st1\<lparr>mn_rid := rid acc, mn_rand_state := rand_state acc\<rparr>)
       in ebind (efold (announce_key me orig failed) requests ([], st2)) (\<lambda>(m, st3).
            let st4 = fold (\<lambda>(address, updates). send address (RepUpdate updates)) m st3
            in Inr (fold (restore_key orig) failed st4)))"

section \<open>Policies\<close>

definition storage_policy :: "monitor_env \<Rightarrow> u64 \<Rightarrow> monitor_state \<Rightarrow> monitor_state res" where
  "storage_policy me now st =
     (if \<not> kEnableElasticity me then Inr st
      else let s = ss st;
               st1 = (if new_memory_count st = 0 \<and> required_memory_node s > memory_node_count st \<and> grace_over now st
                      then add_node me ''memory'' kNodeAdditionBatchSize set_new_memory st else st);
               st2 = (if kEnableTiering me \<and> new_ebs_count st = 0 \<and> required_ebs_node s > ebs_node_count st \<and> grace_over now st
                      then add_node me ''ebs'' kNodeAdditionBatchSize set_new_ebs st1 else st1)
           in if kEnableTiering me \<and> avg_ebs_consumption_percentage s < kMinEbsNodeConsumption \<and> \<not> removing_ebs_node st \<and>
                 ebs_node_count st > max (required_ebs_node s) kMinEbsTierSize \<and> grace_over now st
              then let ring = nodes (global_ring st DISK); (r, rs) = mn_rand me (mn_rand_state st2)
                   in if ring = [] then Inl Div_by_zero
                      else Inr (remove_node me (snd (ring ! (unat r mod length ring))) (\<lambda>st. st\<lparr>removing_ebs_node := True\<rparr>)
                                  (touch_global DISK (st2\<lparr>mn_rand_state := rs\<rparr>)))
              else Inr st2)"

definition free_storage :: "double \<Rightarrow> u64 \<Rightarrow> u32 \<Rightarrow> u64 \<Rightarrow> u64 res" where
  "free_storage fraction capacity count consumption =
     to_unsigned (fraction * to_double capacity * to_double count - to_double consumption)"

text \<open>Reading all four factors of a key through \<open>operator[]\<close>.\<close>

definition touch_factors :: "Key \<Rightarrow> 'a ring_ctx_scheme \<Rightarrow> 'a ring_ctx_scheme" where
  "touch_factors key c = touch_local_rep key DISK (touch_local_rep key MEMORY (touch_global_rep key DISK (touch_global_rep key MEMORY c)))"

type_synonym selection = "rep_requests \<times> u64 \<times> bool \<times> monitor_state"

definition promote_key :: "u64 \<Rightarrow> Key \<times> u32 \<Rightarrow> selection \<Rightarrow> selection" where
  "promote_key free = (\<lambda>(key, n) (requests, required, overflow, st).
     if is_metadata key \<or> \<not> n > kKeyPromotionThreshold then (requests, required, overflow, st)
     else if global_rep st key MEMORY = 0 \<and> umap_has (key_sizes st) key
     then let required1 = required + ucast (umap_get 0 (key_sizes st) key)
          in if required1 > free then (requests, required1, True, touch_global_rep key MEMORY st)
             else (umap_put key (create_new_replication_vector (global_rep st key MEMORY + 1) (global_rep st key DISK - 1)
                     (local_rep st key MEMORY) (local_rep st key DISK)) requests, required1, overflow, touch_factors key st)
     else (requests, required, overflow, touch_global_rep key MEMORY st))"

definition demote_key :: "monitor_env \<Rightarrow> u64 \<Rightarrow> Key \<times> u32 \<Rightarrow> selection \<Rightarrow> selection" where
  "demote_key me free = (\<lambda>(key, n) (requests, required, overflow, st).
     if is_metadata key \<or> \<not> n < kKeyDemotionThreshold then (requests, required, overflow, st)
     else let st1 = touch_global_rep key MEMORY st
          in if global_rep st key MEMORY > 0 \<and> umap_has (key_sizes st) key
             then let required1 = required + ucast (umap_get 0 (key_sizes st) key)
                  in if required1 > free then (requests, required1, True, st1)
                     else (umap_put key (create_new_replication_vector 0 (kMinimumReplicaNumber (mn_cfg me)) 1 1) requests,
                           required1, overflow, st1)
             else (requests, required, overflow, st1))"

definition promote_keys :: "monitor_env \<Rightarrow> u64 \<Rightarrow> monitor_state \<Rightarrow> monitor_state res" where
  "promote_keys me now st =
     (let cap = node_capacity (tier_metadata (mn_cfg me) MEMORY); total = total_memory_consumption (ss st)
      in ebind (free_storage kMaxMemoryNodeConsumption cap (memory_node_count st) total) (\<lambda>free.
         let (requests, required, overflow, st1) = fold (promote_key free) (key_access_summary st) ([], 0, False, st)
         in ebind (change_replication_factor me now requests st1) (\<lambda>st2.
              if kEnableElasticity me \<and> overflow \<and> new_memory_count st2 = 0 \<and> grace_over_int now st2
              then ebind (nodes_needed (total + required) kMaxMemoryNodeConsumption cap) (\<lambda>needed.
                     Inr (if needed > memory_node_count st2
                          then add_node me ''memory'' (needed - memory_node_count st2) set_new_memory st2 else st2))
              else Inr st2)))"

definition demote_keys :: "monitor_env \<Rightarrow> u64 \<Rightarrow> monitor_state \<Rightarrow> monitor_state res" where
  "demote_keys me now st =
     (let cap = node_capacity (tier_metadata (mn_cfg me) DISK); total = total_ebs_consumption (ss st)
      in ebind (free_storage kMaxEbsNodeConsumption cap (ebs_node_count st) total) (\<lambda>free.
         let (requests, required, overflow, st1) = fold (demote_key me free) (key_access_summary st) ([], 0, False, st)
         in ebind (change_replication_factor me now requests st1) (\<lambda>st2.
              if kEnableElasticity me \<and> overflow \<and> new_ebs_count st2 = 0 \<and> grace_over_int now st2
              then ebind (nodes_needed (total + required) kMaxEbsNodeConsumption cap) (\<lambda>needed.
                     Inr (if needed > ebs_node_count st2
                          then add_node me ''ebs'' (needed - ebs_node_count st2) set_new_ebs st2 else st2))
              else Inr st2)))"

definition cool_key :: "monitor_env \<Rightarrow> Key \<times> u32 \<Rightarrow> rep_requests \<times> monitor_state \<Rightarrow> rep_requests \<times> monitor_state" where
  "cool_key me = (\<lambda>(key, n) (requests, st).
     let minimum_rep = create_new_replication_vector 1 (kMinimumReplicaNumber (mn_cfg me) - 1) 1 1
     in if is_metadata key \<or> \<not> to_double n \<le> key_access_mean (ss st) then (requests, st)
        else if KeyReplication_eq (rep_of st key) minimum_rep then (requests, touch_rep key st)
        else (umap_put key minimum_rep requests, touch_global_rep key DISK (touch_global_rep key MEMORY st)))"

definition movement_policy :: "monitor_env \<Rightarrow> u64 \<Rightarrow> monitor_state \<Rightarrow> monitor_state res" where
  "movement_policy me now st =
     ebind (if kEnableTiering me then ebind (promote_keys me now st) (demote_keys me now) else Inr st) (\<lambda>st1.
       if kEnableSelectiveRep me
       then let (requests, st2) = fold (cool_key me) (key_access_summary st1) ([], st1)
            in change_replication_factor me now requests st2
       else Inr st1)"

text \<open>\<open>std::max(kMinimumReplicaNumber - new_mem_rep, (unsigned)0)\<close>.\<close>

definition ebs_rep_for :: "monitor_env \<Rightarrow> u32 \<Rightarrow> u32" where
  "ebs_rep_for me new_mem_rep = max (kMinimumReplicaNumber (mn_cfg me) - new_mem_rep) 0"

definition hot_key :: "monitor_env \<Rightarrow> Key \<times> u32 \<Rightarrow> rep_requests \<times> monitor_state \<Rightarrow> (rep_requests \<times> monitor_state) res" where
  "hot_key me = (\<lambda>(key, n) (requests, st).
     let s = ss st
     in if is_metadata key \<or> \<not> nless (nadd (Some (key_access_mean s)) (key_access_std s)) (Some (to_double n)) then Inr (requests, st)
        else case map_of (latency_miss_ratio_map st) key of
          None \<Rightarrow> Inr (requests, st)
        | Some (ratio, cnt) \<Rightarrow>
            let current_mem_rep = global_rep st key MEMORY; st1 = touch_global_rep key MEMORY st
            in ebind (to_unsigned (to_double current_mem_rep * ratio)) (\<lambda>target.
                 let target_rep_factor = (if target = current_mem_rep then target + 1 else target)
                 in if target_rep_factor > current_mem_rep \<and> current_mem_rep < memory_node_count st
                    then let new_mem_rep = min (memory_node_count st) target_rep_factor
                         in Inr (umap_put key (create_new_replication_vector new_mem_rep (ebs_rep_for me new_mem_rep)
                                   (local_rep st key MEMORY) (local_rep st key DISK)) requests,
                                 touch_local_rep key DISK (touch_local_rep key MEMORY st1))
                    else if kMemoryThreadCount (mn_cfg me) > local_rep st key MEMORY
                    then Inr (umap_put key (create_new_replication_vector current_mem_rep (global_rep st key DISK)
                                (kMemoryThreadCount (mn_cfg me)) (local_rep st key DISK)) requests, touch_factors key st1)
                    else Inr (requests, touch_local_rep key MEMORY st1)))"

definition shrink_key :: "monitor_env \<Rightarrow> Key \<times> u32 \<Rightarrow> rep_requests \<times> monitor_state \<Rightarrow> rep_requests \<times> monitor_state" where
  "shrink_key me = (\<lambda>(key, n) (requests, st).
     if is_metadata key then (requests, st)
     else if unat (global_rep st key MEMORY) = length (nodes (global_ring st MEMORY)) div unat (kVirtualThreadNum (mn_cfg me))
     then let new_mem_rep = global_rep st key MEMORY - 1
          in (umap_put key (create_new_replication_vector new_mem_rep (ebs_rep_for me new_mem_rep)
                (local_rep st key MEMORY) (local_rep st key DISK)) requests, touch_factors key (touch_global MEMORY st))
     else (requests, touch_global MEMORY (touch_global_rep key MEMORY st)))"

definition slo_policy :: "monitor_env \<Rightarrow> u64 \<Rightarrow> monitor_state \<Rightarrow> monitor_state res" where
  "slo_policy me now st =
     (let s = ss st
      in if avg_latency s > to_double kSloWorst \<and> new_memory_count st = 0
         then if kEnableElasticity me \<and> min_memory_occupancy s > 15 / 100
              then ebind (ceil_unsigned ((avg_latency s / to_double kSloWorst - 1) * to_double (memory_node_count st))) (\<lambda>node_to_add.
                     Inr (if grace_over now st then add_node me ''memory'' node_to_add set_new_memory st else st))
              else if kEnableSelectiveRep me
              then ebind (efold (hot_key me) (key_access_summary st) ([], st)) (\<lambda>(requests, st1).
                     change_replication_factor me now requests st1)
              else Inr st
         else if kEnableElasticity me \<and> \<not> removing_memory_node st \<and> min_memory_occupancy s < 5 / 100 \<and>
           memory_node_count st > max (required_memory_node s) kMinMemoryTierSize \<and> grace_over now st
         then let (requests, st1) = fold (shrink_key me) (key_access_summary st) ([], st)
              in ebind (change_replication_factor me now requests st1) (\<lambda>st2.
                   Inr (remove_node me (mk_ServerThread3 (min_occupancy_memory_public_ip s) (min_occupancy_memory_private_ip s) 0)
                          (\<lambda>st. st\<lparr>removing_memory_node := True\<rparr>) st2))
         else Inr st)"

section \<open>The loop\<close>

definition node_count :: "monitor_env \<Rightarrow> Tier \<Rightarrow> monitor_state \<Rightarrow> u32" where
  "node_count me tier st = of_nat (length (nodes (global_ring st tier)) div unat (kVirtualThreadNum (mn_cfg me)))"

definition clear_stats :: "monitor_env \<Rightarrow> monitor_state \<Rightarrow> monitor_state" where
  "clear_stats me st = (touch_global DISK (touch_global MEMORY st))
     \<lparr>server_monitoring_epoch := server_monitoring_epoch st + 1,
      memory_node_count := node_count me MEMORY st, ebs_node_count := node_count me DISK st,
      key_access_frequency := [], key_access_summary := [], memory_storage := [], ebs_storage := [],
      memory_occupancy := [], ebs_occupancy := [], ss := SummaryStats_clear,
      user_latency := [], user_throughput := [], latency_miss_ratio_map := []\<rparr>"

definition init_new_keys :: "monitor_env \<Rightarrow> monitor_state \<Rightarrow> monitor_state" where
  "init_new_keys me st =
     st\<lparr>key_replication_map := fold (\<lambda>(key, n) m. if \<not> is_metadata key \<and> \<not> umap_has m key then init_replication (mn_cfg me) key m else m)
          (key_access_summary st) (key_replication_map st)\<rparr>"

definition monitoring_round :: "monitor_env \<Rightarrow> u64 \<Rightarrow> monitor_state \<Rightarrow> monitor_state res" where
  "monitoring_round me now st =
     ebind (collect_internal_stats me (clear_stats me st)) (\<lambda>st1.
     ebind (compute_summary_stats me st1) (\<lambda>st2.
     ebind (storage_policy me now (init_new_keys me (collect_external_stats st2))) (\<lambda>st3.
     ebind (movement_policy me now st3) (\<lambda>st4.
     ebind (slo_policy me now st4) (\<lambda>st5. Inr (st5\<lparr>mn_report_start := now\<rparr>))))))"

record monitor_inbox =
  mn_notify_in :: "string option"
  depart_done_in :: "string option"
  feedback_in :: "UserFeedback option"
  mn_clock :: u64

definition monitoring_iteration :: "monitor_env \<Rightarrow> monitor_inbox \<Rightarrow> monitor_state \<Rightarrow> monitor_state res" where
  "monitoring_iteration me ib st =
     ebind (on_message (mn_notify_in ib) (monitor_membership_handler me (mn_clock ib)) st) (\<lambda>st1.
     ebind (on_message (depart_done_in ib) (depart_done_handler me (mn_clock ib)) st1) (\<lambda>st2.
     ebind (on_message (feedback_in ib) (\<lambda>fb st. Inr (feedback_handler fb st)) st2) (\<lambda>st3.
       if seconds_since (mn_clock ib) (mn_report_start st3) \<ge> uint kMonitoringThreshold
       then monitoring_round me (mn_clock ib) st3 else Inr st3)))"

inductive monitoring :: "monitor_env \<Rightarrow> monitor_state \<Rightarrow> monitor_state \<Rightarrow> bool" for me where
  start: "monitoring me st st"
| again: "monitoring me st st1 \<Longrightarrow> monitoring_iteration me ib st1 = Inr st2 \<Longrightarrow> monitoring me st st2"

end
