(* ===== verification/Monitor_Changes.thy ===== *)
theory Monitor_Changes
  imports Monitor
begin

text \<open>
  A change of replication factors by the monitoring node is all or nothing for each key
  (\<open>change_replication_factor\<close>).
\<close>

section \<open>Factors that agree\<close>

definition agrees :: "KeyReplication \<Rightarrow> KeyReplication \<Rightarrow> bool" where
  "agrees new r \<longleftrightarrow> map_of (global_replication new) \<subseteq>\<^sub>m map_of (global_replication r) \<and>
     map_of (local_replication new) \<subseteq>\<^sub>m map_of (local_replication r)"

text \<open>What the reads through \<open>operator[]\<close> leave: zeros for absent factors.\<close>

definition rep_ext :: "KeyReplication \<Rightarrow> KeyReplication \<Rightarrow> bool" where
  "rep_ext r r' \<longleftrightarrow> agrees r r' \<and> umap_get 0 (global_replication r') = umap_get 0 (global_replication r)"

lemma agrees_refl [simp]: "agrees r r"
  by (simp add: agrees_def)

lemma agrees_trans: "agrees a b \<Longrightarrow> agrees b c \<Longrightarrow> agrees a c"
  unfolding agrees_def by (blast intro: map_le_trans)

lemma KeyReplication_eq_agrees: "KeyReplication_eq new r \<Longrightarrow> agrees new r"
proof -
  have "map_of xs \<subseteq>\<^sub>m f" if "list_all (\<lambda>(t, n). f t = Some n) xs" for xs :: "(Tier \<times> u32) list" and f
    unfolding map_le_def
  proof
    fix a assume "a \<in> dom (map_of xs)"
    then obtain y where y: "map_of xs a = Some y" by blast
    from that map_of_SomeD [OF y] have "f a = Some y" unfolding list_all_iff by fastforce
    with y show "map_of xs a = f a" by simp
  qed
  then show "KeyReplication_eq new r \<Longrightarrow> agrees new r" by (simp add: KeyReplication_eq_def agrees_def)
qed

lemma rep_ext_refl [simp]: "rep_ext r r"
  by (simp add: rep_ext_def)

lemma rep_ext_trans: "rep_ext a b \<Longrightarrow> rep_ext b c \<Longrightarrow> rep_ext a c"
  unfolding rep_ext_def by (auto intro: agrees_trans)

section \<open>Steps that change nothing visible\<close>

definition same_view :: "monitor_state \<Rightarrow> monitor_state \<Rightarrow> bool" where
  "same_view st st' \<longleftrightarrow> global_ring st' = global_ring st \<and> sent st' = sent st \<and> mn_routing_ips st' = mn_routing_ips st \<and>
     mn_responses st' = mn_responses st \<and> (\<forall>key. rep_ext (rep_of st key) (rep_of st' key))"

lemma same_view_refl [simp]: "same_view st st"
  by (simp add: same_view_def)

lemma same_view_trans: "same_view a b \<Longrightarrow> same_view b c \<Longrightarrow> same_view a c"
  unfolding same_view_def by (auto intro: rep_ext_trans)

lemma global_rep_rep_of: "global_rep st key = umap_get 0 (global_replication (rep_of st key))"
  by (simp add: global_rep_def rep_of_def fun_eq_iff)

lemma same_view_rep:
  assumes "same_view st st'"
  shows "global_rep st' = global_rep st" and "agrees r (rep_of st key) \<Longrightarrow> agrees r (rep_of st' key)"
  using assms unfolding same_view_def rep_ext_def by (auto simp: global_rep_rep_of fun_eq_iff intro: agrees_trans)

lemma rep_ext_touch: "rep_ext r (r\<lparr>global_replication := umap_put t (umap_get 0 (global_replication r) t) (global_replication r)\<rparr>)"
  by (auto simp: rep_ext_def agrees_def map_le_def umap_get_def fun_eq_iff split: option.splits)

lemma same_view_touch:
  "same_view st (touch_rep key st)" "same_view st (touch_global t st)" "same_view st (touch_rings t st)"
  "same_view st (touch_global_rep key t st)"
proof -
  show "same_view st (touch_rep key st)"
    by (auto simp: same_view_def touch_rep_def rep_of_def global_ring_def umap_get_def fun_eq_iff)
  show "same_view st (touch_global t st)" "same_view st (touch_rings t st)"
    by (auto simp: same_view_def touch_rings_def touch_global_def touch_local_def rep_of_def global_ring_def umap_get_def fun_eq_iff
        split: option.splits)
  have "rep_ext (rep_of st k) (rep_of (touch_global_rep key t st) k)" for k
    using rep_ext_touch [of "rep_of st k" t]
    by (auto simp: rep_of_def touch_global_rep_def set_global_def global_rep_def umap_get_def)
  then show "same_view st (touch_global_rep key t st)"
    by (auto simp: same_view_def touch_global_rep_def global_ring_def fun_eq_iff)
qed

section \<open>Announcements\<close>

type_synonym updates = "(Address, ReplicationFactorUpdate) umap"

definition carries :: "Key \<Rightarrow> KeyReplication \<Rightarrow> ReplicationFactor \<Rightarrow> bool" where
  "carries key new u \<longleftrightarrow> rf_key u = key \<and> map_of (global_replication new) \<subseteq>\<^sub>m map_of (rf_global u) \<and>
     map_of (local_replication new) \<subseteq>\<^sub>m map_of (rf_local u)"

definition addressed :: "updates \<Rightarrow> Address \<Rightarrow> Key \<Rightarrow> KeyReplication \<Rightarrow> bool" where
  "addressed m a key new \<longleftrightarrow> (\<exists>us u. map_of m a = Some us \<and> u \<in> set us \<and> carries key new u)"

definition update_keys :: "updates \<Rightarrow> Key set" where
  "update_keys m = {rf_key u | a us u. (a, us) \<in> set m \<and> u \<in> set us}"

text \<open>More updates, all for the key.\<close>

definition extends :: "Key \<Rightarrow> updates \<times> monitor_state \<Rightarrow> updates \<times> monitor_state \<Rightarrow> bool" where
  "extends key p q \<longleftrightarrow> same_view (snd p) (snd q) \<and> (\<forall>a k new. addressed (fst p) a k new \<longrightarrow> addressed (fst q) a k new) \<and>
     update_keys (fst q) \<subseteq> insert key (update_keys (fst p))"

lemma extends_refl [simp]: "extends key p p"
  by (auto simp: extends_def)

lemma extends_trans: "extends key p q \<Longrightarrow> extends key q r \<Longrightarrow> extends key p r"
  unfolding extends_def by (blast intro: same_view_trans)

lemma prepare_extends:
  assumes "agrees new (rep_of (snd p) key)"
  shows "extends key p (prepare_replication_factor_update key a p)"
    and "addressed (fst (prepare_replication_factor_update key a p)) a key new"
proof -
  obtain m st where p: "p = (m, st)" by fastforce
  let ?u = "replication_data key (rep_of st key)"
  have m: "map_of (fst (prepare_replication_factor_update key a p)) = (map_of m)(a \<mapsto> umap_get [] m a @ [?u])"
    by (simp add: prepare_replication_factor_update_def p)
  have "carries key new ?u" using assms by (simp add: carries_def replication_data_def agrees_def p)
  then show "addressed (fst (prepare_replication_factor_update key a p)) a key new"
    unfolding addressed_def m by (intro exI [of _ "umap_get [] m a @ [?u]"] exI [of _ ?u]) simp
  have "addressed m b k n \<Longrightarrow> addressed (fst (prepare_replication_factor_update key a p)) b k n" for b k n
    unfolding addressed_def m by (cases "b = a") (auto simp: umap_get_def)
  moreover have "update_keys (fst (prepare_replication_factor_update key a p)) \<subseteq> insert key (update_keys m)"
  proof -
    have "set (fst (prepare_replication_factor_update key a p)) \<subseteq> insert (a, umap_get [] m a @ [?u]) (set m)"
      by (simp add: prepare_replication_factor_update_def p umap_mod_def umap_put_subset)
    moreover have "umap_get [] m a = [] \<or> (a, umap_get [] m a) \<in> set m"
      by (auto simp: umap_get_def dest: map_of_SomeD split: option.splits)
    moreover have "rf_key ?u = key" by (simp add: replication_data_def)
    ultimately show ?thesis unfolding update_keys_def by fastforce
  qed
  ultimately show "extends key p (prepare_replication_factor_update key a p)"
    unfolding extends_def by (simp add: p prepare_replication_factor_update_def same_view_touch)
qed

lemma prepare_all_extends:
  assumes "agrees new (rep_of (snd p) key)"
  shows "extends key p (fold (\<lambda>x. prepare_replication_factor_update key (f x)) xs p) \<and>
    (\<forall>x\<in>set xs. addressed (fst (fold (\<lambda>x. prepare_replication_factor_update key (f x)) xs p)) (f x) key new)"
  using assms
proof (induction xs arbitrary: p)
  case (Cons x xs)
  let ?q = "prepare_replication_factor_update key (f x) p"
  note step = prepare_extends [OF Cons.prems, of "f x"]
  have "agrees new (rep_of (snd ?q) key)"
    using step(1) Cons.prems unfolding extends_def by (blast intro: same_view_rep(2))
  from Cons.IH [OF this] have IH: "extends key ?q (fold (\<lambda>x. prepare_replication_factor_update key (f x)) xs ?q)"
    "\<forall>y\<in>set xs. addressed (fst (fold (\<lambda>x. prepare_replication_factor_update key (f x)) xs ?q)) (f y) key new" by simp_all
  moreover have "addressed (fst (fold (\<lambda>x. prepare_replication_factor_update key (f x)) xs ?q)) (f x) key new"
    using IH(1) step(2) unfolding extends_def by blast
  ultimately show ?case using extends_trans [OF step(1) IH(1)] by simp
qed simp

lemma announce_tier_extends:
  assumes "announce_tier me orig key tier p = Inr q" and "agrees new (rep_of (snd p) key)"
  shows "extends key p q" and "\<exists>ths. responsible_global (mn_env me) key
      (max (global_rep (snd p) key tier) (umap_get 0 (global_replication (umap_get KeyReplication_default orig key)) tier))
      (global_ring (snd p) tier) = Inr ths \<and> (\<forall>th\<in>set ths. addressed (fst q) (replication_change_connect_address th) key new)"
proof -
  obtain m st where p: "p = (m, st)" by fastforce
  let ?st = "touch_global tier (touch_global_rep key tier st)"
  from assms(1) obtain ths where ths: "responsible_global (mn_env me) key
      (max (global_rep st key tier) (umap_get 0 (global_replication (umap_get KeyReplication_default orig key)) tier)) (global_ring st tier) = Inr ths"
    and q: "q = fold (\<lambda>th. prepare_replication_factor_update key (replication_change_connect_address th)) ths (m, ?st)"
    by (auto simp: announce_tier_def Let_def ebind_Inr_iff p)
  have view: "same_view st ?st" by (rule same_view_trans [OF same_view_touch(4) same_view_touch(2)])
  then have "agrees new (rep_of (snd (m, ?st)) key)" using assms(2) by (simp add: p same_view_rep(2))
  note all = prepare_all_extends [OF this, of replication_change_connect_address ths, folded q]
  moreover have "extends key p (m, ?st)" using view by (auto simp: extends_def p)
  ultimately show "extends key p q" by (blast intro: extends_trans)
  show "\<exists>ths. responsible_global (mn_env me) key
      (max (global_rep (snd p) key tier) (umap_get 0 (global_replication (umap_get KeyReplication_default orig key)) tier))
      (global_ring (snd p) tier) = Inr ths \<and> (\<forall>th\<in>set ths. addressed (fst q) (replication_change_connect_address th) key new)"
    using ths all by (simp add: p)
qed

text \<open>All that have to know the factors of a key: the owners under the old and the new factor, and the routing nodes.\<close>

definition informed :: "monitor_env \<Rightarrow> (Tier \<Rightarrow> u32) \<Rightarrow> monitor_state \<Rightarrow> Key \<Rightarrow> Address set" where
  "informed me old st key =
     {replication_change_connect_address th | tier ths th. tier \<in> set kAllTiers \<and>
        responsible_global (mn_env me) key (max (global_rep st key tier) (old tier)) (global_ring st tier) = Inr ths \<and> th \<in> set ths} \<union>
     {rt_replication_change_connect_address (mk_RoutingThread ip 0) | ip. ip \<in> set (mn_routing_ips st)}"

lemma informed_same: "same_view st st' \<Longrightarrow> informed me old st' key = informed me old st key"
  unfolding informed_def by (simp add: same_view_rep(1)) (simp add: same_view_def)

lemma announce_tiers_extends:
  assumes "efold (announce_tier me orig key) tiers p = Inr q" and "agrees new (rep_of (snd p) key)"
  shows "extends key p q" and "\<forall>tier\<in>set tiers. \<exists>ths. responsible_global (mn_env me) key
      (max (global_rep (snd p) key tier) (umap_get 0 (global_replication (umap_get KeyReplication_default orig key)) tier))
      (global_ring (snd p) tier) = Inr ths \<and> (\<forall>th\<in>set ths. addressed (fst q) (replication_change_connect_address th) key new)"
  using assms
proof (induction tiers arbitrary: p)
  case (Cons tier tiers)
  {
    case 1
    then obtain r where r: "announce_tier me orig key tier p = Inr r" "efold (announce_tier me orig key) tiers r = Inr q"
      by (auto simp: ebind_Inr_iff)
    note step = announce_tier_extends(1) [OF r(1) 1(2)]
    then have "agrees new (rep_of (snd r) key)" using 1(2) unfolding extends_def by (blast intro: same_view_rep(2))
    from Cons.IH(1) [OF r(2) this] step show ?case by (blast intro: extends_trans)
  next
    case 2
    then obtain r where r: "announce_tier me orig key tier p = Inr r" "efold (announce_tier me orig key) tiers r = Inr q"
      by (auto simp: ebind_Inr_iff)
    note step = announce_tier_extends [OF r(1) 2(2)]
    then have ag: "agrees new (rep_of (snd r) key)" and view: "same_view (snd p) (snd r)"
      using 2(2) unfolding extends_def by (blast intro: same_view_rep(2))+
    from Cons.IH(1) [OF r(2) ag] have "addressed (fst r) a key new \<Longrightarrow> addressed (fst q) a key new" for a
      unfolding extends_def by blast
    with step(2) Cons.IH(2) [OF r(2) ag] view show ?case
      unfolding same_view_rep(1) [OF view] by (simp add: same_view_def) blast
  }
qed simp_all

lemma announce_key_extends:
  assumes "announce_key me orig failed (key, new) p = Inr q" and "agrees new (rep_of (snd p) key)" and "key \<notin> set failed"
  shows "extends key p q" and "\<forall>a\<in>informed me (umap_get 0 (global_replication (umap_get KeyReplication_default orig key))) (snd p) key. addressed (fst q) a key new"
proof -
  let ?f = "\<lambda>address. rt_replication_change_connect_address (mk_RoutingThread address 0)"
  from assms(1,3) obtain r where r: "efold (announce_tier me orig key) kAllTiers p = Inr r"
    and q: "q = fold (\<lambda>address. prepare_replication_factor_update key (?f address)) (mn_routing_ips (snd p)) r"
    by (cases p) (auto simp: announce_key_def ebind_Inr_iff split: prod.splits)
  note tiers = announce_tiers_extends [OF r assms(2)]
  then have "agrees new (rep_of (snd r) key)" using assms(2) unfolding extends_def by (blast intro: same_view_rep(2))
  note ips = prepare_all_extends [OF this, of ?f "mn_routing_ips (snd p)", folded q]
  then have "addressed (fst r) a key new \<Longrightarrow> addressed (fst q) a key new" for a unfolding extends_def by blast
  with tiers(2) ips show "\<forall>a\<in>informed me (umap_get 0 (global_replication (umap_get KeyReplication_default orig key))) (snd p) key. addressed (fst q) a key new"
    unfolding informed_def by fastforce
  show "extends key p q" using tiers(1) ips by (blast intro: extends_trans)
qed

section \<open>The phases of a change\<close>

text \<open>First loop: the old factors are remembered, the new ones are in the map, nothing is sent.\<close>

lemma change_key_step:
  assumes "change_key me now (key, new) (orig, acc, st) = Inr (orig', acc', st')"
  shows "orig' = umap_put key (rep_of st key) orig" and "agrees new (rep_of st' key)"
    and "\<And>k. k \<noteq> key \<Longrightarrow> rep_of st' k = rep_of st k"
    and "global_ring st' = global_ring st" and "sent st' = sent st" and "mn_routing_ips st' = mn_routing_ips st \<and> mn_responses st' = mn_responses st"
proof -
  let ?st2 = "touch_rings MEMORY ((touch_rep key st)\<lparr>key_replication_map := umap_put key new (key_replication_map (touch_rep key st))\<rparr>)"
  have touch: "rep_of (touch_rep key st) k = rep_of st k" "global_ring (touch_rep key st) = global_ring st" for k
    by (auto simp: touch_rep_def rep_of_def global_ring_def umap_get_def fun_eq_iff)
  have st2: "rep_of ?st2 k = (if k = key then new else rep_of st k)" "global_ring ?st2 = global_ring st" for k
    by (auto simp: touch_rings_def touch_rep_def touch_local_def touch_global_def rep_of_def global_ring_def umap_get_def fun_eq_iff
        split: option.splits)
  from assms have cases: "orig' = umap_put key (rep_of st key) orig"
    "KeyReplication_eq new (rep_of st key) \<and> st' = touch_rep key st \<or> st' = ?st2"
    by (auto simp: change_key_def Let_def ebind_Inr_iff split: if_splits)
  show "orig' = umap_put key (rep_of st key) orig" by (rule cases)
  from cases(2) show "agrees new (rep_of st' key)"
  proof
    assume "KeyReplication_eq new (rep_of st key) \<and> st' = touch_rep key st"
    then show ?thesis by (simp add: touch KeyReplication_eq_agrees)
  qed (simp add: st2)
  show "rep_of st' k = rep_of st k" if "k \<noteq> key" for k using cases(2) that st2(1) touch(1) by auto
  show "global_ring st' = global_ring st" using cases(2) st2(2) touch(2) by auto
  show "sent st' = sent st" "mn_routing_ips st' = mn_routing_ips st \<and> mn_responses st' = mn_responses st"
    using cases(2) by (auto simp: touch_rep_def touch_rings_def touch_global_def touch_local_def)
qed

lemma change_keys:
  assumes "efold (change_key me now) requests (orig, acc, st) = Inr (orig', acc', st')" and "umap_wf requests"
  shows "\<forall>(key, new)\<in>set requests. umap_get KeyReplication_default orig' key = rep_of st key \<and> agrees new (rep_of st' key)"
    and "\<forall>key. key \<notin> fst ` set requests \<longrightarrow> rep_of st' key = rep_of st key \<and> map_of orig' key = map_of orig key"
    and "global_ring st' = global_ring st \<and> sent st' = sent st \<and> mn_routing_ips st' = mn_routing_ips st \<and> mn_responses st' = mn_responses st"
  using assms
proof (induction requests arbitrary: orig acc st)
  case (Cons r requests)
  obtain key new where r: "r = (key, new)" by fastforce
  have wf: "umap_wf requests" "key \<notin> fst ` set requests"
    if "umap_wf (r # requests)" using that by (auto simp: r)
  {
    case 1
    then obtain o1 a1 s1 where s: "change_key me now (key, new) (orig, acc, st) = Inr (o1, a1, s1)"
      "efold (change_key me now) requests (o1, a1, s1) = Inr (orig', acc', st')" by (auto simp: r ebind_Inr_iff)
    note step = change_key_step [OF s(1)] and IH = Cons.IH [OF s(2) wf(1) [OF 1(2)]]
    have "umap_get KeyReplication_default orig' key = rep_of st key \<and> agrees new (rep_of st' key)"
      using IH(2) wf(2) [OF 1(2)] step(1,2) by (simp add: umap_get_def)
    moreover have "umap_get KeyReplication_default orig' k = rep_of st k \<and> agrees n (rep_of st' k)" if kn: "(k, n) \<in> set requests" for k n
    proof -
      have "k \<noteq> key" using kn wf(2) [OF 1(2)] by force
      with bspec [OF IH(1) kn] show ?thesis by (simp add: step(3))
    qed
    ultimately show ?case by (auto simp: r)
  next
    case 2
    then obtain o1 a1 s1 where s: "change_key me now (key, new) (orig, acc, st) = Inr (o1, a1, s1)"
      "efold (change_key me now) requests (o1, a1, s1) = Inr (orig', acc', st')" by (auto simp: r ebind_Inr_iff)
    show ?case using Cons.IH(2) [OF s(2) wf(1) [OF 2(2)]] change_key_step(1,3) [OF s(1)] by (simp add: r)
  next
    case 3
    then obtain o1 a1 s1 where s: "change_key me now (key, new) (orig, acc, st) = Inr (o1, a1, s1)"
      "efold (change_key me now) requests (o1, a1, s1) = Inr (orig', acc', st')" by (auto simp: r ebind_Inr_iff)
    show ?case using Cons.IH(3) [OF s(2) wf(1) [OF 3(2)]] change_key_step(4,5,6) [OF s(1)] by simp
  }
qed simp_all

text \<open>Second loop: only requests are sent.\<close>

definition only_requests :: "sends \<Rightarrow> bool" where
  "only_requests fs \<longleftrightarrow> (\<forall>f\<in>set fs. \<exists>a r. f = (a, Request r))"

text \<open>A key may only fail when a wait timed out or a server refused the key.\<close>

definition refused :: "KeyResponse option list \<Rightarrow> KeyResponse option list \<Rightarrow> Key \<Rightarrow> bool" where
  "refused events rest key \<longleftrightarrow> None \<in> set events \<or> rest = [] \<or>
     (\<exists>res tuple. Some res \<in> set events \<and> tuple \<in> set (kp_tuples res) \<and> kt_error tuple = WRONG_THREAD \<and>
        get_key_from_metadata (kt_key tuple) = key)"

lemma refused_append: "refused mid rest key \<Longrightarrow> refused (used @ mid) rest key" "refused (used @ mid @ rest) (mid @ rest) key \<Longrightarrow> refused (used @ mid @ rest) rest key"
  by (auto simp: refused_def)

lemma mn_request_eq:
  assumes "mn_request request address st = (res, st')"
  shows "\<exists>used rest. mn_responses st = used @ rest \<and> st' = st\<lparr>sent := sent st @ [(address, Request request)], mn_responses := rest\<rparr> \<and>
    (res = None \<longrightarrow> None \<in> set used \<or> rest = []) \<and> (\<forall>r. res = Some r \<longrightarrow> Some r \<in> set used)"
proof -
  obtain rest st1 where m: "make_request request address (mn_responses st) st = (res, rest, st1)" "st' = st1\<lparr>mn_responses := rest\<rparr>"
    using assms by (auto simp: mn_request_def split: prod.splits)
  from make_request_used [OF m(1)] m(2) show ?thesis by (auto simp: send_def)
qed

lemma fold_insert_tuples:
  "set (fold (\<lambda>tuple. uset_insert (f tuple)) ts failed) = set failed \<union> f ` set ts"
  by (induction ts arbitrary: failed) (auto simp: uset_insert_def)

lemma put_replications:
  assumes "fold put_replication ps (failed, st) = (failed', st')"
  shows "\<exists>fs used rest. only_requests fs \<and> mn_responses st = used @ rest \<and> st' = st\<lparr>sent := sent st @ fs, mn_responses := rest\<rparr> \<and>
    (\<forall>key\<in>set failed'. key \<in> set failed \<or> refused (mn_responses st) rest key)"
  using assms
proof (induction ps arbitrary: failed st)
  case Nil
  then show ?case by (intro exI [of _ "[]"] exI [of _ "mn_responses st"]) (simp add: only_requests_def)
next
  case (Cons p ps)
  obtain a r where p: "p = (a, r)" by fastforce
  obtain f1 s1 where s1: "put_replication p (failed, st) = (f1, s1)" by fastforce
  obtain res s1' where mr: "mn_request r a st = (res, s1')" by fastforce
  with s1 have [simp]: "s1' = s1" by (auto simp: put_replication_def p split: prod.splits option.splits)
  from mn_request_eq [OF mr] obtain used rest where u: "mn_responses st = used @ rest"
    and s: "s1 = st\<lparr>sent := sent st @ [(a, Request r)], mn_responses := rest\<rparr>"
    and res: "res = None \<longrightarrow> None \<in> set used \<or> rest = []" "\<forall>x. res = Some x \<longrightarrow> Some x \<in> set used" by auto
  have f1: "key \<in> set failed \<or> refused (used @ rest) rest key" if "key \<in> set f1" for key
  proof (cases res)
    case None
    with res(1) show ?thesis by (auto simp: refused_def)
  next
    case (Some x)
    with s1 mr that have "key \<in> set failed \<or> key \<in> (\<lambda>t. get_key_from_metadata (kt_key t)) ` {t \<in> set (kp_tuples x). kt_error t = WRONG_THREAD}"
      by (auto simp: put_replication_def p fold_insert_tuples)
    with Some res(2) show ?thesis by (auto simp: refused_def)
  qed
  from Cons.IH [of f1 s1] Cons.prems s1 obtain fs used2 rest2 where IH: "only_requests fs" "rest = used2 @ rest2"
    "st' = s1\<lparr>sent := sent s1 @ fs, mn_responses := rest2\<rparr>" "\<forall>key\<in>set failed'. key \<in> set f1 \<or> refused rest rest2 key" by (auto simp: s)
  have "key \<in> set failed \<or> refused (mn_responses st) rest2 key" if "key \<in> set failed'" for key
    using IH(2,4) f1 [of key] that refused_append(1) [of rest rest2 key used] refused_append(2) [of used used2 rest2 key] by (auto simp: u)
  then show ?case
    by (intro exI [of _ "(a, Request r) # fs"] exI [of _ "used @ used2"] exI [of _ rest2]) (use IH u s in \<open>simp add: only_requests_def\<close>)
qed

text \<open>Third loop: every key that did not fail is announced, no other key is.\<close>

lemma announce_keys:
  assumes "efold (announce_key me orig failed) requests p = Inr q" and "\<forall>(key, new)\<in>set requests. agrees new (rep_of (snd p) key)"
  shows "same_view (snd p) (snd q) \<and> (\<forall>a k new. addressed (fst p) a k new \<longrightarrow> addressed (fst q) a k new) \<and>
    update_keys (fst q) \<subseteq> update_keys (fst p) \<union> (fst ` set requests - set failed) \<and>
    (\<forall>(key, new)\<in>set requests. key \<notin> set failed \<longrightarrow>
       (\<forall>a\<in>informed me (umap_get 0 (global_replication (umap_get KeyReplication_default orig key))) (snd p) key. addressed (fst q) a key new))"
  using assms
proof (induction requests arbitrary: p)
  case (Cons r requests)
  obtain key new where r: "r = (key, new)" by fastforce
  from Cons.prems(1) obtain p1 where p1: "announce_key me orig failed (key, new) p = Inr p1" "efold (announce_key me orig failed) requests p1 = Inr q"
    by (auto simp: r ebind_Inr_iff)
  have ag: "agrees new (rep_of (snd p) key)" using Cons.prems(2) by (simp add: r)
  have step: "same_view (snd p) (snd p1) \<and> (\<forall>a k n. addressed (fst p) a k n \<longrightarrow> addressed (fst p1) a k n) \<and>
      update_keys (fst p1) \<subseteq> update_keys (fst p) \<union> ({key} - set failed) \<and>
      (key \<notin> set failed \<longrightarrow> (\<forall>a\<in>informed me (umap_get 0 (global_replication (umap_get KeyReplication_default orig key))) (snd p) key. addressed (fst p1) a key new))"
  proof (cases "key \<in> set failed")
    case True
    with p1(1) have "p1 = p" by (simp add: announce_key_def split: prod.splits)
    with True show ?thesis by simp
  next
    case False
    from announce_key_extends [OF p1(1) ag False] False show ?thesis unfolding extends_def by auto
  qed
  then have "\<forall>(k, n)\<in>set requests. agrees n (rep_of (snd p1) k)"
    using Cons.prems(2) same_view_rep(2) [of "snd p" "snd p1"] by fastforce
  note IH = Cons.IH [OF p1(2) this, unfolded informed_same [OF conjunct1 [OF step]]]
  have "same_view (snd p) (snd q)" using step IH by (blast intro: same_view_trans)
  moreover have "\<forall>a k n. addressed (fst p) a k n \<longrightarrow> addressed (fst q) a k n" using step IH by blast
  moreover have "update_keys (fst q) \<subseteq> update_keys (fst p) \<union> (fst ` set (r # requests) - set failed)"
    using step IH by (auto simp: r)
  moreover have "key \<notin> set failed \<Longrightarrow> a \<in> informed me (umap_get 0 (global_replication (umap_get KeyReplication_default orig key))) (snd p) key \<Longrightarrow> addressed (fst q) a key new" for a
    using step IH by blast
  ultimately show ?case using IH by (simp add: r)
qed simp

lemma restore_keys:
  "rep_of (fold (restore_key orig) failed st) key = (if key \<in> set failed then umap_get KeyReplication_default orig key else rep_of st key)"
  "sent (fold (restore_key orig) failed st) = sent st" "global_ring (fold (restore_key orig) failed st) = global_ring st"
  "mn_routing_ips (fold (restore_key orig) failed st) = mn_routing_ips st" "mn_responses (fold (restore_key orig) failed st) = mn_responses st"
  by (induction failed arbitrary: st) (auto simp: restore_key_def rep_of_def umap_get_def global_ring_def fun_eq_iff)

lemma fold_send_updates:
  "fold (\<lambda>(address, updates). send address (RepUpdate updates)) m st = st\<lparr>sent := sent st @ map (\<lambda>(a, us). (a, RepUpdate us)) m\<rparr>"
  by (induction m arbitrary: st) (auto simp: send_def)

text \<open>The keys in the replication factor updates among some frames.\<close>

definition announced_keys :: "sends \<Rightarrow> Key set" where
  "announced_keys fs = {rf_key u | a us u. (a, RepUpdate us) \<in> set fs \<and> u \<in> set us}"

lemma announced_keys_eq: "only_requests fs \<Longrightarrow> announced_keys (fs @ map (\<lambda>(a, us). (a, RepUpdate us)) m) = update_keys m"
proof -
  assume "only_requests fs"
  then have "(a, RepUpdate us) \<in> set (fs @ map (\<lambda>(a, us). (a, RepUpdate us)) m) \<longleftrightarrow> (a, us) \<in> set m" for a us
    unfolding only_requests_def by force
  then show ?thesis unfolding announced_keys_def update_keys_def by simp
qed

section \<open>The change as a whole\<close>

lemma change_steps:
  assumes "change_replication_factor me now requests st = Inr st'"
  obtains orig acc st1 failed st2 m st3 where
    "efold (change_key me now) requests ([], \<lparr>addr_request_map = [], rid = mn_rid st, rand_state = mn_rand_state st\<rparr>, st) = Inr (orig, acc, st1)"
    and "fold put_replication (addr_request_map acc) ([], st1\<lparr>mn_rid := rid acc, mn_rand_state := rand_state acc\<rparr>) = (failed, st2)"
    and "efold (announce_key me orig failed) requests ([], st2) = Inr (m, st3)"
    and "st' = fold (restore_key orig) failed (st3\<lparr>sent := sent st3 @ map (\<lambda>(a, us). (a, RepUpdate us)) m\<rparr>)"
proof -
  let ?acc = "\<lparr>addr_request_map = [], rid = mn_rid st, rand_state = mn_rand_state st\<rparr>"
  from assms obtain p where p: "efold (change_key me now) requests ([], ?acc, st) = Inr p"
    unfolding change_replication_factor_def ebind_Inr_iff by blast
  obtain orig acc st1 where pp: "p = (orig, acc, st1)" by (cases p)
  obtain failed st2 where f: "fold put_replication (addr_request_map acc) ([], st1\<lparr>mn_rid := rid acc, mn_rand_state := rand_state acc\<rparr>) = (failed, st2)"
    by fastforce
  from assms obtain q where q: "efold (announce_key me orig failed) requests ([], st2) = Inr q"
    unfolding change_replication_factor_def p pp ebind_simps split_conv f Let_def ebind_Inr_iff by blast
  obtain m st3 where qq: "q = (m, st3)" by (cases q)
  have "st' = fold (restore_key orig) failed (st3\<lparr>sent := sent st3 @ map (\<lambda>(a, us). (a, RepUpdate us)) m\<rparr>)"
    using assms unfolding change_replication_factor_def p pp ebind_simps split_conv f Let_def q qq fold_send_updates by simp
  with p [unfolded pp] f q [unfolded qq] show thesis by (rule that)
qed

lemma change_phases:
  assumes "change_replication_factor me now requests st = Inr st'" and "umap_wf requests"
  shows "\<exists>orig failed fs m st2 st3. only_requests fs \<and>
    (\<forall>(key, new)\<in>set requests. umap_get KeyReplication_default orig key = rep_of st key \<and> agrees new (rep_of st2 key)) \<and>
    global_ring st2 = global_ring st \<and> mn_routing_ips st2 = mn_routing_ips st \<and> sent st2 = sent st @ fs \<and>
    (\<forall>key\<in>set failed. refused (mn_responses st) (mn_responses st2) key) \<and>
    efold (announce_key me orig failed) requests ([], st2) = Inr (m, st3) \<and>
    st' = fold (restore_key orig) failed (st3\<lparr>sent := sent st3 @ map (\<lambda>(a, us). (a, RepUpdate us)) m\<rparr>)"
proof -
  from assms(1) obtain orig acc st1 failed st2 m st3 where
    p: "efold (change_key me now) requests ([], \<lparr>addr_request_map = [], rid = mn_rid st, rand_state = mn_rand_state st\<rparr>, st) = Inr (orig, acc, st1)"
    and f: "fold put_replication (addr_request_map acc) ([], st1\<lparr>mn_rid := rid acc, mn_rand_state := rand_state acc\<rparr>) = (failed, st2)"
    and q: "efold (announce_key me orig failed) requests ([], st2) = Inr (m, st3)"
    and st': "st' = fold (restore_key orig) failed (st3\<lparr>sent := sent st3 @ map (\<lambda>(a, us). (a, RepUpdate us)) m\<rparr>)"
    by (rule change_steps)
  let ?st1 = "st1\<lparr>mn_rid := rid acc, mn_rand_state := rand_state acc\<rparr>"
  note keys = change_keys [OF p assms(2)]
  from put_replications [OF f] obtain fs rest where fs: "only_requests fs" "st2 = ?st1\<lparr>sent := sent ?st1 @ fs, mn_responses := rest\<rparr>"
    "\<forall>key\<in>set failed. refused (mn_responses st1) rest key" by auto
  have "rep_of st2 = rep_of st1" "global_ring st2 = global_ring st1" by (auto simp: fs(2) rep_of_def global_ring_def fun_eq_iff)
  with keys fs show ?thesis
    by (intro exI [of _ orig] exI [of _ failed] exI [of _ fs] exI [of _ m] exI [of _ st2] exI [of _ st3] conjI q st') simp_all
qed

text \<open>C35: \<open>change_replication_factor\<close> is all or nothing for every key of the request. Either the key keeps its old factors and
  nobody is told anything about it, which only happens when a response was waited for in vain or a server refused the
  key; or the monitor has the new factors and they were sent to every server responsible under the old or the new
  factor, in either tier, and to every routing node.\<close>

theorem change_all_or_nothing:
  assumes "change_replication_factor me now requests st = Inr st'" and "umap_wf requests"
  shows "\<exists>fs. sent st' = sent st @ fs \<and> (\<forall>(key, new)\<in>set requests.
    rep_of st' key = rep_of st key \<and> key \<notin> announced_keys fs \<and> refused (mn_responses st) (mn_responses st') key \<or>
    agrees new (rep_of st' key) \<and>
      (\<forall>a\<in>informed me (global_rep st key) st' key. \<exists>us u. (a, RepUpdate us) \<in> set fs \<and> u \<in> set us \<and> carries key new u))"
proof -
  from change_phases [OF assms] obtain orig failed fs m st2 st3 where fs: "only_requests fs"
    and keys: "\<forall>(key, new)\<in>set requests. umap_get KeyReplication_default orig key = rep_of st key \<and> agrees new (rep_of st2 key)"
    and st2: "global_ring st2 = global_ring st" "mn_routing_ips st2 = mn_routing_ips st" "sent st2 = sent st @ fs"
    and failed: "\<forall>key\<in>set failed. refused (mn_responses st) (mn_responses st2) key"
    and ann: "efold (announce_key me orig failed) requests ([], st2) = Inr (m, st3)"
    and st': "st' = fold (restore_key orig) failed (st3\<lparr>sent := sent st3 @ map (\<lambda>(a, us). (a, RepUpdate us)) m\<rparr>)"
    by (elim exE conjE) (rule that)
  from keys have "\<forall>(key, new)\<in>set requests. agrees new (rep_of (snd ([], st2)) key)" by auto
  note A = announce_keys [OF ann this, unfolded fst_conv snd_conv]
  then have view: "same_view st2 st3" and upd: "update_keys m \<subseteq> fst ` set requests - set failed" by (auto simp: update_keys_def)
  let ?fs = "fs @ map (\<lambda>(a, us). (a, RepUpdate us)) m"
  have sent': "sent st' = sent st @ ?fs" using view st2(3) by (simp add: st' restore_keys same_view_def)
  have resp: "mn_responses st' = mn_responses st2" using view by (simp add: st' restore_keys same_view_def)
  have rep': "rep_of st' key = (if key \<in> set failed then umap_get KeyReplication_default orig key else rep_of st3 key)" for key
    unfolding st' restore_keys by (simp add: rep_of_def)
  have key: "rep_of st' key = rep_of st key \<and> key \<notin> announced_keys ?fs \<and> refused (mn_responses st) (mn_responses st') key \<or>
      agrees new (rep_of st' key) \<and>
      (\<forall>a\<in>informed me (global_rep st key) st' key. \<exists>us u. (a, RepUpdate us) \<in> set ?fs \<and> u \<in> set us \<and> carries key new u)"
    if kn: "(key, new) \<in> set requests" for key new
  proof (cases "key \<in> set failed")
    case True
    with upd have "key \<notin> announced_keys ?fs" unfolding announced_keys_eq [OF fs] by blast
    with True failed bspec [OF keys kn] show ?thesis by (simp add: rep' resp)
  next
    case False
    have "informed me (global_rep st key) st' key = informed me (global_rep st key) st2 key"
      using view False unfolding informed_def global_rep_rep_of rep' by (simp add: st' restore_keys same_view_def rep_ext_def global_ring_def)
    moreover have "umap_get 0 (global_replication (umap_get KeyReplication_default orig key)) = global_rep st key"
      using bspec [OF keys kn] by (simp add: global_rep_rep_of)
    ultimately have "\<forall>a\<in>informed me (global_rep st key) st' key. addressed m a key new" using A kn False by fastforce
    moreover have "\<exists>us u. (a, RepUpdate us) \<in> set ?fs \<and> u \<in> set us \<and> carries key new u" if "addressed m a key new" for a
      using that unfolding addressed_def by (force dest: map_of_SomeD)
    moreover have "agrees new (rep_of st' key)" using False bspec [OF keys kn] same_view_rep(2) [OF view] by (simp add: rep')
    ultimately show ?thesis by blast
  qed
  show ?thesis by (rule exI [of _ ?fs], rule conjI [OF sent']) (use key in blast)
qed

definition example_answer :: KeyResponse where
  "example_answer = KeyResponse_default\<lparr>kp_response_id := ''tcp://M:6650:0'',
     kp_tuples := [KeyTuple_default\<lparr>kt_key := get_metadata_key ''k'' replication\<rparr>]\<rparr>"

definition example_factors :: monitor_state where
  "example_factors = (monitor_init example_monitor_env 0 0 [])
     \<lparr>global_hash_rings := [(MEMORY, snd (global_insert example_env ''A'' ''a'' 0 0 HashRing_empty))],
      key_replication_map := init_replication example_config ''k'' [], mn_routing_ips := [''R''],
      mn_responses := [Some example_answer, Some example_answer]\<rparr>"

definition example_change :: rep_requests where
  "example_change = [(''k'', create_new_replication_vector 1 0 2 1)]"

theorem change_all_or_nothing_witness:
  "\<exists>st' us u. change_replication_factor example_monitor_env 0 example_change example_factors = Inr st' \<and>
     agrees (create_new_replication_vector 1 0 2 1) (rep_of st' ''k'') \<and>
     (''tcp://R:6550'', RepUpdate us) \<in> set (sent st') \<and> u \<in> set us \<and> carries ''k'' (create_new_replication_vector 1 0 2 1) u"
proof -
  let ?r = "change_replication_factor example_monitor_env 0 example_change example_factors"
  have "\<not> isl ?r" by code_simp
  then have r: "?r = Inr (projr ?r)" by (cases ?r) auto
  have wf: "umap_wf example_change" by (simp add: example_change_def)
  have ev: "mn_responses (projr ?r) \<noteq> []" "mn_routing_ips (projr ?r) = [''R'']" by code_simp+
  have addr: "rt_replication_change_connect_address (mk_RoutingThread ''R'' 0) = ''tcp://R:6550''" by code_simp
  have "mn_responses example_factors = [Some example_answer, Some example_answer]"
    by (simp add: example_factors_def)
  then have "\<not> refused (mn_responses example_factors) (mn_responses (projr ?r)) ''k''"
    using ev(1) by (simp add: refused_def example_answer_def KeyTuple_default_def)
  with change_all_or_nothing [OF r wf] obtain fs where fs: "sent (projr ?r) = sent example_factors @ fs"
    "agrees (create_new_replication_vector 1 0 2 1) (rep_of (projr ?r) ''k'')"
    "\<forall>a\<in>informed example_monitor_env (global_rep example_factors ''k'') (projr ?r) ''k''. \<exists>us u. (a, RepUpdate us) \<in> set fs \<and> u \<in> set us \<and> carries ''k'' (create_new_replication_vector 1 0 2 1) u"
    by (auto simp: example_change_def)
  moreover have "''tcp://R:6550'' \<in> informed example_monitor_env (global_rep example_factors ''k'') (projr ?r) ''k''"
    unfolding informed_def addr [symmetric] using ev(2) by auto
  ultimately obtain us u where "(''tcp://R:6550'', RepUpdate us) \<in> set fs" "u \<in> set us" "carries ''k'' (create_new_replication_vector 1 0 2 1) u" by blast
  with r fs show ?thesis by (intro exI [of _ "projr ?r"] exI [of _ us] exI [of _ u]) simp
qed

end
