(* ===== verification/Monitor_Safety.thy ===== *)
theory Monitor_Safety
  imports Monitor_Changes Cluster
begin

text \<open>
  What the policies of the monitoring node never do, and where their arithmetic goes wrong.
\<close>

section \<open>Steps that give no command\<close>

text \<open>The monitor's commands to the management node and to servers are its only text messages.\<close>

definition commands :: "sends \<Rightarrow> sends" where
  "commands fs = filter (\<lambda>(a, f). case f of Text m \<Rightarrow> True | _ \<Rightarrow> False) fs"

definition calm :: "monitor_state \<Rightarrow> monitor_state \<Rightarrow> bool" where
  "calm st st' \<longleftrightarrow> grace_start st' = grace_start st \<and> (\<exists>fs. sent st' = sent st @ fs \<and> commands fs = [])"

lemma calm_same: "grace_start st' = grace_start st \<Longrightarrow> sent st' = sent st \<Longrightarrow> calm st st'"
  by (simp add: calm_def commands_def)

lemma calm_refl [simp]: "calm st st"
  by (simp add: calm_same)

lemma calm_trans [trans]: "calm a b \<Longrightarrow> calm b c \<Longrightarrow> calm a c"
  unfolding calm_def by (auto simp: commands_def)

lemma touch_frames [simp]:
  fixes st :: monitor_state
  shows "sent (touch_rep key st) = sent st" "sent (touch_global t st) = sent st" "sent (touch_local t st) = sent st" "sent (touch_rings t st) = sent st"
    "sent (touch_global_rep key t st) = sent st" "sent (touch_local_rep key t st) = sent st" "sent (touch_factors key st) = sent st"
    "grace_start (touch_rep key st) = grace_start st" "grace_start (touch_global t st) = grace_start st"
    "grace_start (touch_local t st) = grace_start st" "grace_start (touch_rings t st) = grace_start st"
    "grace_start (touch_global_rep key t st) = grace_start st" "grace_start (touch_local_rep key t st) = grace_start st"
    "grace_start (touch_factors key st) = grace_start st"
  by (simp_all add: touch_rep_def touch_rings_def touch_global_def touch_local_def touch_global_rep_def touch_local_rep_def touch_factors_def)

lemma calm_touch:
  "calm st (touch_rep key st)" "calm st (touch_global t st)" "calm st (touch_local t st)" "calm st (touch_rings t st)"
  "calm st (touch_global_rep key t st)" "calm st (touch_local_rep key t st)" "calm st (touch_factors key st)"
  by (rule calm_same; simp)+

lemma calm_efold:
  assumes "efold f xs (p, st) = Inr (q, st')" and "\<And>x a s b s'. x \<in> set xs \<Longrightarrow> f x (a, s) = Inr (b, s') \<Longrightarrow> calm s s'"
  shows "calm st st'"
proof -
  have "calm st (snd (q, st'))"
    by (rule efold_invariant [OF assms(1), where P = "\<lambda>r. calm st (snd r)"]) (auto elim!: calm_trans intro: assms(2))
  then show ?thesis by simp
qed

lemma calm_fold:
  assumes "\<And>x a s. x \<in> set xs \<Longrightarrow> calm s (snd (f x (a, s)))"
  shows "calm st (snd (fold f xs (p, st)))"
  by (rule fold_invariant_list [where P = "\<lambda>r. calm st (snd r)"]) (auto intro: calm_trans assms)

lemma calm_mn_request: "mn_request request address st = (res, st') \<Longrightarrow> calm st st'"
  by (drule mn_request_eq) (auto simp: calm_def commands_def)

section \<open>A change of replication factors gives no command\<close>

lemma calm_change_key: "change_key me now r (orig, acc, st) = Inr (orig', acc', st') \<Longrightarrow> calm st st'"
  by (rule calm_same) (auto simp: change_key_def Let_def ebind_Inr_iff touch_rep_def touch_rings_def touch_global_def touch_local_def
      split: prod.splits if_splits)

lemma calm_put_replications: "calm st (snd (fold put_replication ps (failed, st)))"
  by (rule calm_fold) (auto simp: put_replication_def dest: calm_mn_request split: prod.splits option.splits)

lemma calm_prepare: "calm st (snd (fold (\<lambda>x. prepare_replication_factor_update key (f x)) xs (m, st)))"
  by (rule calm_fold) (simp add: prepare_replication_factor_update_def calm_touch)

lemma calm_announce_tier: "announce_tier me orig key tier (m, st) = Inr (m', st') \<Longrightarrow> calm st st'"
proof -
  assume a: "announce_tier me orig key tier (m, st) = Inr (m', st')"
  let ?st = "touch_global tier (touch_global_rep key tier st)"
  from a obtain ths where "fold (\<lambda>th. prepare_replication_factor_update key (replication_change_connect_address th)) ths (m, ?st) = (m', st')"
    by (auto simp: announce_tier_def Let_def ebind_Inr_iff)
  then have "calm ?st st'" using calm_prepare [of ?st key replication_change_connect_address ths m] by (metis snd_conv)
  then show "calm st st'" by (blast intro: calm_trans calm_touch)
qed

lemma calm_announce_key:
  assumes "announce_key me orig failed r (m, st) = Inr (m', st')"
  shows "calm st st'"
proof (cases "fst r \<in> set failed")
  case True
  with assms show ?thesis by (simp add: announce_key_def split: prod.splits)
next
  case False
  let ?f = "\<lambda>address. rt_replication_change_connect_address (mk_RoutingThread address 0)"
  from assms False obtain m1 st1 where s: "efold (announce_tier me orig (fst r)) kAllTiers (m, st) = Inr (m1, st1)"
    "(m', st') = fold (\<lambda>address. prepare_replication_factor_update (fst r) (?f address)) (mn_routing_ips st) (m1, st1)"
    by (auto simp: announce_key_def ebind_Inr_iff split: prod.splits)
  have "calm st st1" using s(1) by (rule calm_efold) (rule calm_announce_tier)
  moreover have "calm st1 st'" using calm_prepare [of st1 "fst r" ?f "mn_routing_ips st" m1] s(2) by (metis snd_conv)
  ultimately show ?thesis by (rule calm_trans)
qed

lemma calm_change:
  assumes "change_replication_factor me now requests st = Inr st'"
  shows "calm st st'"
proof -
  from assms obtain orig acc st1 failed st2 m st3 where
    p: "efold (change_key me now) requests ([], \<lparr>addr_request_map = [], rid = mn_rid st, rand_state = mn_rand_state st\<rparr>, st) = Inr (orig, acc, st1)"
    and f: "fold put_replication (addr_request_map acc) ([], st1\<lparr>mn_rid := rid acc, mn_rand_state := rand_state acc\<rparr>) = (failed, st2)"
    and q: "efold (announce_key me orig failed) requests ([], st2) = Inr (m, st3)"
    and st': "st' = fold (restore_key orig) failed (st3\<lparr>sent := sent st3 @ map (\<lambda>(a, us). (a, RepUpdate us)) m\<rparr>)"
    by (rule change_steps)
  let ?st1 = "st1\<lparr>mn_rid := rid acc, mn_rand_state := rand_state acc\<rparr>"
  have "calm st (snd (snd (orig, acc, st1)))"
    by (rule efold_invariant [OF p, where P = "\<lambda>r. calm st (snd (snd r))"]) (auto elim!: calm_trans intro: calm_change_key)
  then have "calm st st1" by simp
  also have "calm st1 ?st1" by (rule calm_same) simp_all
  also have "calm ?st1 st2" using calm_put_replications [of ?st1 "addr_request_map acc" "[]"] f by simp
  also have "calm st2 st3" using q by (rule calm_efold) (rule calm_announce_key)
  also have "calm st3 (st3\<lparr>sent := sent st3 @ map (\<lambda>(a, us). (a, RepUpdate us)) m\<rparr>)"
    by (auto simp: calm_def commands_def filter_empty_conv)
  also have "calm \<dots> st'" unfolding st'
    by (rule fold_invariant_list [where P = "calm (st3\<lparr>sent := sent st3 @ map (\<lambda>(a, us). (a, RepUpdate us)) m\<rparr>)"])
      (auto simp: restore_key_def elim!: calm_trans intro: calm_same)
  finally show ?thesis .
qed

section \<open>A round within the grace period\<close>

lemma calm_stat_value: "calm st (stat_value c ty tier ip t val st)"
  by (rule calm_same) (simp_all add: stat_value_def record_stat_def)

lemma calm_stat_tuple: "stat_tuple me tuple st = Inr st' \<Longrightarrow> calm st st'"
  unfolding stat_tuple_def Let_def ebind_Inr_iff by (auto split: if_splits simp: calm_stat_value ebind_Inr_iff)

lemma calm_stat_request: "stat_request me r st = Inr st' \<Longrightarrow> calm st st'"
proof -
  assume a: "stat_request me r st = Inr st'"
  obtain res st1 where m: "mn_request (snd r) (fst r) st = (res, st1)" by fastforce
  have "calm st1 st'"
  proof (cases res)
    case None
    with a m show ?thesis by (simp add: stat_request_def split: prod.splits)
  next
    case (Some x)
    with a m have "efold (stat_tuple me) (kp_tuples x) st1 = Inr st'" by (simp add: stat_request_def split: prod.splits)
    then show ?thesis by (rule efold_invariant) (auto elim!: calm_trans intro: calm_stat_tuple)
  qed
  with calm_mn_request [OF m] show "calm st st'" by (rule calm_trans)
qed

lemma calm_collect: "collect_internal_stats me st = Inr st' \<Longrightarrow> calm st st'"
proof -
  assume a: "collect_internal_stats me st = Inr st'"
  let ?st1 = "fold touch_global kAllTiers st"
  let ?st2 = "if stats_keys me st = [] then ?st1 else touch_local MEMORY ?st1"
  from a obtain acc :: request_acc where "efold (stat_request me) (addr_request_map acc) (?st2\<lparr>mn_rid := rid acc, mn_rand_state := rand_state acc\<rparr>) = Inr st'"
    unfolding collect_internal_stats_def Let_def ebind_Inr_iff by (elim exE conjE) (rule that)
  then have "calm (?st2\<lparr>mn_rid := rid acc, mn_rand_state := rand_state acc\<rparr>) st'"
    by (rule efold_invariant [where P = "calm (?st2\<lparr>mn_rid := rid acc, mn_rand_state := rand_state acc\<rparr>)"])
      (auto elim!: calm_trans intro: calm_stat_request)
  note rest = this
  have "calm st ?st1" by (simp add: kAllTiers_def calm_trans [OF calm_touch(2) calm_touch(2)])
  also have "calm ?st1 ?st2" by (simp add: calm_touch)
  also have "calm ?st2 (?st2\<lparr>mn_rid := rid acc, mn_rand_state := rand_state acc\<rparr>)" by (rule calm_same) simp_all
  also note rest
  finally show "calm st st'" .
qed

lemma calm_summary: "compute_summary_stats me st = Inr st' \<Longrightarrow> calm st st'"
proof -
  assume a: "compute_summary_stats me st = Inr st'"
  then obtain st1 where s: "summarize_storage me (summarize_access me st) = Inr st1" "summarize_occupancy st1 = Inr st'"
    unfolding compute_summary_stats_def ebind_Inr_iff by blast
  have "calm st (summarize_access me st)" by (rule calm_same) (simp_all add: summarize_access_def Let_def split: prod.splits)
  also have "calm (summarize_access me st) st1" using summarize_storage_eq(4) [OF s(1)] by (auto intro: calm_same)
  also have "calm st1 st'" using summarize_occupancy_eq(2) [OF s(2)] by (auto intro: calm_same)
  finally show "calm st st'" .
qed

text \<open>Within the grace period neither form of the time test holds.\<close>

definition in_grace :: "u64 \<Rightarrow> monitor_state \<Rightarrow> bool" where
  "in_grace now st \<longleftrightarrow> 0 \<le> seconds_since now (grace_start st) \<and> seconds_since now (grace_start st) \<le> uint kGracePeriod"

lemma in_grace_tests:
  assumes "in_grace now st"
  shows "\<not> grace_over now st" and "\<not> grace_over_int now st"
proof -
  let ?t = "seconds_since now (grace_start st)"
  have t: "0 \<le> ?t" "?t \<le> 120" using assms by (simp_all add: in_grace_def kGracePeriod_def)
  then have "uint (of_int ?t :: u32) = ?t" by (simp add: uint_word_of_int take_bit_int_eq_self)
  with t show "\<not> grace_over_int now st" by (simp add: grace_over_int_def word_less_def kGracePeriod_def)
  show "\<not> grace_over now st" using t by (simp add: grace_over_def kGracePeriod_def)
qed

lemma in_grace_calm: "in_grace now st \<Longrightarrow> calm st st' \<Longrightarrow> in_grace now st'"
  by (simp add: in_grace_def calm_def)

lemma calm_storage: "storage_policy me now st = Inr st' \<Longrightarrow> in_grace now st \<Longrightarrow> calm st st'"
  by (drule in_grace_tests(1)) (simp add: storage_policy_def Let_def split: if_splits)

lemma calm_select:
  "calm st (snd (snd (snd (fold (promote_key free) xs (r, n, b, st)))))"
  "calm st (snd (snd (snd (fold (demote_key me free) xs (r, n, b, st)))))"
  by (rule fold_invariant_list [where P = "\<lambda>r. calm st (snd (snd (snd r)))"];
      auto simp: promote_key_def demote_key_def Let_def calm_touch elim: calm_trans)+

lemma calm_promote: "promote_keys me now st = Inr st' \<Longrightarrow> in_grace now st \<Longrightarrow> calm st st'"
proof -
  assume a: "promote_keys me now st = Inr st'" and g: "in_grace now st"
  then obtain free where free: "free_storage kMaxMemoryNodeConsumption (node_capacity (tier_metadata (mn_cfg me) MEMORY))
      (memory_node_count st) (total_memory_consumption (ss st)) = Inr free"
    unfolding promote_keys_def Let_def ebind_Inr_iff by blast
  obtain requests n b st1 where p: "fold (promote_key free) (key_access_summary st) ([], 0, False, st) = (requests, n, b, st1)"
    by (cases "fold (promote_key free) (key_access_summary st) ([], 0, False, st)")
  from a obtain st2 where s: "change_replication_factor me now requests st1 = Inr st2"
    unfolding promote_keys_def Let_def free ebind_simps p split_conv ebind_Inr_iff by blast
  have c: "calm st st2" using calm_select(1) [of st free "key_access_summary st" "[]" 0 False] calm_change [OF s] p
    by (auto intro: calm_trans)
  have "st' = st2"
    using a in_grace_tests(2) [OF in_grace_calm [OF g c]] unfolding promote_keys_def Let_def free ebind_simps p split_conv s by simp
  with c show "calm st st'" by simp
qed

lemma calm_demote: "demote_keys me now st = Inr st' \<Longrightarrow> in_grace now st \<Longrightarrow> calm st st'"
proof -
  assume a: "demote_keys me now st = Inr st'" and g: "in_grace now st"
  then obtain free where free: "free_storage kMaxEbsNodeConsumption (node_capacity (tier_metadata (mn_cfg me) DISK))
      (ebs_node_count st) (total_ebs_consumption (ss st)) = Inr free"
    unfolding demote_keys_def Let_def ebind_Inr_iff by blast
  obtain requests n b st1 where p: "fold (demote_key me free) (key_access_summary st) ([], 0, False, st) = (requests, n, b, st1)"
    by (cases "fold (demote_key me free) (key_access_summary st) ([], 0, False, st)")
  from a obtain st2 where s: "change_replication_factor me now requests st1 = Inr st2"
    unfolding demote_keys_def Let_def free ebind_simps p split_conv ebind_Inr_iff by blast
  have c: "calm st st2" using calm_select(2) [of st me free "key_access_summary st" "[]" 0 False] calm_change [OF s] p
    by (auto intro: calm_trans)
  have "st' = st2"
    using a in_grace_tests(2) [OF in_grace_calm [OF g c]] unfolding demote_keys_def Let_def free ebind_simps p split_conv s by simp
  with c show "calm st st'" by simp
qed

lemma calm_cool: "calm st (snd (fold (cool_key me) xs (r, st)))"
  by (rule calm_fold) (auto simp: cool_key_def Let_def calm_touch calm_trans [OF calm_touch(5) calm_touch(5)] split: prod.splits)

lemma calm_movement: "movement_policy me now st = Inr st' \<Longrightarrow> in_grace now st \<Longrightarrow> calm st st'"
proof -
  assume a: "movement_policy me now st = Inr st'" and g: "in_grace now st"
  from a obtain st1 where st1: "(if kEnableTiering me then ebind (promote_keys me now st) (demote_keys me now) else Inr st) = Inr st1"
    unfolding movement_policy_def ebind_Inr_iff by blast
  have "calm st st1"
  proof (cases "kEnableTiering me")
    case True
    with st1 obtain st0 where "promote_keys me now st = Inr st0" "demote_keys me now st0 = Inr st1" by (auto simp: ebind_Inr_iff)
    with g show ?thesis by (blast intro: calm_trans calm_promote calm_demote in_grace_calm)
  qed (use st1 in simp)
  also have "calm st1 st'"
  proof (cases "kEnableSelectiveRep me")
    case True
    obtain requests st2 where f: "fold (cool_key me) (key_access_summary st1) ([], st1) = (requests, st2)" by fastforce
    with a st1 True have "change_replication_factor me now requests st2 = Inr st'" by (simp add: movement_policy_def)
    moreover have "calm st1 st2" using calm_cool [of st1 me "key_access_summary st1" "[]"] f by simp
    ultimately show ?thesis by (blast intro: calm_trans calm_change)
  qed (use a st1 in \<open>simp add: movement_policy_def\<close>)
  finally show "calm st st'" .
qed

lemma calm_hot_key: "hot_key me kn (r, st) = Inr (r', st') \<Longrightarrow> calm st st'"
  by (rule calm_same) (auto simp: hot_key_def Let_def ebind_Inr_iff split: prod.splits option.splits if_splits)

lemma calm_slo: "slo_policy me now st = Inr st' \<Longrightarrow> in_grace now st \<Longrightarrow> calm st st'"
proof -
  assume a: "slo_policy me now st = Inr st'" and g: "in_grace now st"
  note ng = in_grace_tests(1) [OF g]
  show "calm st st'"
  proof (cases "avg_latency (ss st) > to_double kSloWorst \<and> new_memory_count st = 0 \<and>
      \<not> (kEnableElasticity me \<and> min_memory_occupancy (ss st) > 15 / 100) \<and> kEnableSelectiveRep me")
    case True
    with a obtain r where r: "efold (hot_key me) (key_access_summary st) ([], st) = Inr r"
      "change_replication_factor me now (fst r) (snd r) = Inr st'"
      by (auto simp: slo_policy_def Let_def ebind_Inr_iff split: if_splits)
    then have "calm st (snd r)" by (cases r) (auto elim!: calm_efold intro: calm_hot_key)
    with r(2) show ?thesis by (blast intro: calm_trans calm_change)
  next
    case False
    with a ng have "st' = st" by (auto simp: slo_policy_def Let_def ebind_Inr_iff split: if_splits)
    then show ?thesis by simp
  qed
qed

lemma calm_round:
  assumes "monitoring_round me now st = Inr st'" and "in_grace now st"
  shows "calm st st'"
proof -
  from assms(1) obtain st1 st2 st3 st4 st5 where
    s: "collect_internal_stats me (clear_stats me st) = Inr st1" "compute_summary_stats me st1 = Inr st2"
      "storage_policy me now (init_new_keys me (collect_external_stats st2)) = Inr st3" "movement_policy me now st3 = Inr st4"
      "slo_policy me now st4 = Inr st5" "st' = st5\<lparr>mn_report_start := now\<rparr>"
    unfolding monitoring_round_def ebind_Inr_iff by blast
  have "calm st (clear_stats me st)"
    by (rule calm_same) (simp_all add: clear_stats_def touch_global_def)
  also note calm_collect [OF s(1)]
  also note calm_summary [OF s(2)]
  also have "calm st2 (init_new_keys me (collect_external_stats st2))"
    by (rule calm_same) (simp_all add: init_new_keys_def collect_external_stats_def Let_def)
  finally have c: "calm st (init_new_keys me (collect_external_stats st2))" .
  also note calm_storage [OF s(3) in_grace_calm [OF assms(2) c]]
  finally have c3: "calm st st3" .
  also note calm_movement [OF s(4) in_grace_calm [OF assms(2) c3]]
  finally have c4: "calm st st4" .
  also note calm_slo [OF s(5) in_grace_calm [OF assms(2) c4]]
  also have "calm st5 st'" unfolding s(6) by (rule calm_same) simp_all
  finally show ?thesis .
qed

section \<open>Properties\<close>

definition example_quiet :: monitor_state where
  "example_quiet = (monitor_init example_monitor_env 0 0 [])
     \<lparr>global_hash_rings := [(MEMORY, snd (global_insert example_env ''A'' ''a'' 0 0 HashRing_empty))]\<rparr>"

text \<open>C31: within the grace period after a node joined or left, a monitoring round gives no command: it neither asks
  the management node for machines nor tells a server to leave, whatever the statistics say. All it sends are requests
  for statistics, replication factors to store and replication factor updates.\<close>

theorem no_command_in_grace_period:
  assumes "monitoring_round me now st = Inr st'" and "0 \<le> seconds_since now (grace_start st)"
    and "seconds_since now (grace_start st) \<le> uint kGracePeriod"
  shows "\<exists>fs. sent st' = sent st @ fs \<and> commands fs = []"
  using calm_round [OF assms(1)] assms(2,3) by (simp add: in_grace_def calm_def)

theorem no_command_in_grace_period_witness:
  "\<exists>st' fs. monitoring_round example_monitor_env 30000000 example_quiet = Inr st' \<and> sent st' = sent example_quiet @ fs \<and> commands fs = []"
proof -
  let ?r = "monitoring_round example_monitor_env 30000000 example_quiet"
  have "\<not> isl ?r" by code_simp
  then have r: "?r = Inr (projr ?r)" by (cases ?r) auto
  have "0 \<le> seconds_since 30000000 (grace_start example_quiet) \<and> seconds_since 30000000 (grace_start example_quiet) \<le> uint kGracePeriod"
    by code_simp
  with no_command_in_grace_period [OF r] r show ?thesis by blast
qed

text \<open>C36: user feedback has no influence on the policies: a monitoring round does the same whether or not a feedback message
  arrived before it, because it clears the reported latencies, throughputs and miss ratios right before it evaluates
  them.\<close>

theorem feedback_has_no_effect:
  "monitoring_round me now (feedback_handler fb st) = monitoring_round me now st"
proof -
  have "clear_stats me (feedback_handler fb st) = clear_stats me st"
    by (simp add: clear_stats_def feedback_handler_def touch_global_def node_count_def global_ring_def)
  then show ?thesis by (simp add: monitoring_round_def)
qed

text \<open>as soon as the stored data exceed the target of 60\<open>%\<close> of the memory tier by a byte, the movement policy converts a negative
  number to an unsigned one, which is undefined, instead of moving keys out of memory.\<close>

theorem overfull_memory_undefined:
  assumes "kEnableTiering me"
    and "to_double (total_memory_consumption (ss st)) \<ge>
      kMaxMemoryNodeConsumption * to_double (node_capacity (tier_metadata (mn_cfg me) MEMORY)) * to_double (memory_node_count st) + 1"
  shows "movement_policy me now st = Inl Bad_conversion"
  using assms by (simp add: movement_policy_def promote_keys_def free_storage_def to_unsigned_def)

theorem overfull_memory_undefined_witness:
  "movement_policy example_monitor_env 0 (example_quiet\<lparr>memory_node_count := 1, ss := SummaryStats_clear\<lparr>total_memory_consumption := 601\<rparr>\<rparr>) = Inl Bad_conversion"
  by (rule overfull_memory_undefined; code_simp)

text \<open>C37: the report of a departing server is never understood by the monitoring node: the server names its tier, the
  monitor reads the field as a number and ends with an exception, so the node is never reported as removed and the
  flag that blocks further removals stays set.\<close>

theorem departure_report_not_understood:
  assumes "self_depart_handler ke serialized st = Inr st'" and "CHR ''_'' \<notin> set (public_ip (wt ke) @ private_ip (wt ke))"
  shows "\<exists>report. last (sent st') = (serialized, Text report) \<and> (\<forall>me now ms. depart_done_handler me now report ms = Inl Invalid_argument)"
proof -
  let ?pub = "public_ip (wt ke)" and ?priv = "private_ip (wt ke)" and ?tier = "Tier_Name (kSelfTier (kv_cfg ke))"
  let ?report = "?pub @ ''_'' @ ?priv @ ''_'' @ ?tier"
  from assms(1) obtain st4 where "st' = send serialized (Text ?report) st4"
    by (auto simp: self_depart_handler_def Let_def ebind_Inr_iff split: prod.splits)
  then have "last (sent st') = (serialized, Text ?report)" by (simp add: send_def)
  moreover have split: "split_string ?report (CHR ''_'') = ?pub # ?priv # split_string ?tier (CHR ''_'')"
    using assms(2) split_string_piece [of "CHR ''_''" ?pub "?priv @ ''_'' @ ?tier"] split_string_piece [of "CHR ''_''" ?priv ?tier] by simp
  have "\<exists>t r. split_string ?tier (CHR ''_'') = t # r \<and> stoi t = Inl Invalid_argument"
  proof (cases "kSelfTier (kv_cfg ke)")
    case TIER_UNSPECIFIED
    have "split_string ''TIER_UNSPECIFIED'' (CHR ''_'') = [''TIER'', ''UNSPECIFIED''] \<and> stoi ''TIER'' = Inl Invalid_argument" by code_simp
    then show ?thesis by (simp add: TIER_UNSPECIFIED Tier_Name_def)
  next
    case MEMORY
    have "split_string ''MEMORY'' (CHR ''_'') = [''MEMORY''] \<and> stoi ''MEMORY'' = Inl Invalid_argument" by code_simp
    then show ?thesis by (simp add: MEMORY Tier_Name_def)
  next
    case DISK
    have "split_string ''DISK'' (CHR ''_'') = [''DISK''] \<and> stoi ''DISK'' = Inl Invalid_argument" by code_simp
    then show ?thesis by (simp add: DISK Tier_Name_def)
  next
    case ROUTING
    have "split_string ''ROUTING'' (CHR ''_'') = [''ROUTING''] \<and> stoi ''ROUTING'' = Inl Invalid_argument" by code_simp
    then show ?thesis by (simp add: ROUTING Tier_Name_def)
  qed
  then have "depart_done_handler me now ?report ms = Inl Invalid_argument" for me now ms
    unfolding depart_done_handler_def split by (auto simp: vec_at_def)
  ultimately show ?thesis by blast
qed

theorem departure_report_not_understood_witness:
  "\<exists>st' report. self_depart_handler example_kvs_env ''tcp://M:6700'' example_single = Inr st' \<and> last (sent st') = (''tcp://M:6700'', Text report) \<and>
     depart_done_handler example_monitor_env 0 report example_quiet = Inl Invalid_argument"
proof -
  let ?r = "self_depart_handler example_kvs_env ''tcp://M:6700'' example_single"
  have "\<not> isl ?r" by code_simp
  then have r: "?r = Inr (projr ?r)" by (cases ?r) auto
  have u: "CHR ''_'' \<notin> set (public_ip (wt example_kvs_env) @ private_ip (wt example_kvs_env))" by code_simp
  from departure_report_not_understood [OF r u] r show ?thesis by blast
qed

lemma length_firsts: "length (firsts eq xs) \<le> length xs"
proof -
  have "length (fold (visit eq) xs acc) \<le> length acc + length xs" for acc
  proof (induction xs arbitrary: acc)
    case (Cons x xs)
    have "length (visit eq x acc) \<le> Suc (length acc)" by (simp add: visit_def)
    with Cons.IH [of "visit eq x acc"] show ?case by simp
  qed simp
  from this [of "[]"] show ?thesis by (simp add: firsts_def)
qed

lemma responsible_global_too_many:
  assumes "ring_sorted (nodes ring)" and "nodes ring \<noteq> []" and "length (nodes ring) < unat rep"
  shows "responsible_global en key rep ring = Inl Diverges"
proof -
  have "length (clockwise h ns) = length ns" for h :: u32 and ns
    using sum_length_filter_compl [of "\<lambda>p. h \<le> fst p" ns] by (simp add: clockwise_def not_le)
  with length_firsts [of st_eq "clockwise (GlobalHasher_key en key) (nodes ring)"] assms(3)
  have "\<not> unat rep \<le> length (firsts st_eq (clockwise (GlobalHasher_key en key) (nodes ring)))" by simp
  with assms(2) show ?thesis unfolding responsible_global_eq [OF assms(1)] by simp
qed


definition example_shrink_env :: monitor_env where
  "example_shrink_env = example_monitor_env\<lparr>mn_env := spread_env\<lparr>cfg := (cfg spread_env)\<lparr>kMinimumReplicaNumber := 1\<rparr>\<rparr>\<rparr>"

definition example_shrink :: monitor_state where
  "example_shrink = (monitor_init example_shrink_env 0 0 [])
     \<lparr>global_hash_rings := [(MEMORY, \<lparr>nodes = [(1, mk_ServerThread ''A'' ''a'' 0 0), (2, mk_ServerThread ''B'' ''b'' 0 0), (3, mk_ServerThread ''C'' ''c'' 0 0)],
          unique_servers = [mk_ServerThread ''A'' ''a'' 0 0, mk_ServerThread ''B'' ''b'' 0 0, mk_ServerThread ''C'' ''c'' 0 0], server_join_count = []\<rparr>)],
      key_replication_map := [(''k'', create_new_replication_vector 3 0 1 1)]\<rparr>"


end
