(* ===== verification/Client.thy ===== *)
theory Client
  imports Cluster
begin

text \<open>
  The asynchronous client: \<open>common/include/client/kvs_client.hpp\<close>. Its state is what the class keeps between calls, and
  the frames it has sent. A call of \<open>receive_async\<close> takes at most one message from each of its two sockets; both
  messages and the clock (microseconds, read once per call) are its argument. A request passed by reference comes
  back with the result.
\<close>

section \<open>State\<close>

record UserRoutingThread =
  urt_ip :: Address
  urt_tid :: u32

definition urt_key_address_connect_address :: "UserRoutingThread \<Rightarrow> Address" where
  "urt_key_address_connect_address th = tcp_base (urt_ip th) @ to_string (urt_tid th + kKeyAddressPort)"

record client_pending =
  tp :: u64
  worker_addr :: Address
  pending_request :: KeyRequest

record client_env =
  cl_env :: env
  routing_threads_of :: "UserRoutingThread list"
  cl_ut :: UserThread
  cl_timeout :: u32

record client_state =
  cl_rid :: u32
  cl_seed :: u32
  key_address_cache :: "(Key, Address uset) umap"
  pending_request_map :: "(Key, u64 \<times> KeyRequest list) umap"
  pending_get_response_map :: "(Key, client_pending) umap"
  pending_put_response_map :: "(Key, (string, client_pending) umap) umap"
  cl_sent :: sends

definition client_init :: "client_env \<Rightarrow> u32 \<Rightarrow> client_state" where
  "client_init ce time =
     \<lparr>cl_rid = 0, cl_seed = time + ucast (std_hash (cl_env ce) (ut_ip (cl_ut ce))) + ut_tid (cl_ut ce),
      key_address_cache = [], pending_request_map = [], pending_get_response_map = [], pending_put_response_map = [], cl_sent = []\<rparr>"

definition clear_cache :: "client_state \<Rightarrow> client_state" where
  "clear_cache st = st\<lparr>key_address_cache := []\<rparr>"

definition cl_send :: "Address \<Rightarrow> frame \<Rightarrow> client_state \<Rightarrow> client_state" where
  "cl_send a f st = st\<lparr>cl_sent := cl_sent st @ [(a, f)]\<rparr>"

section \<open>Requests\<close>

definition get_request_id :: "client_env \<Rightarrow> client_state \<Rightarrow> string \<times> client_state" where
  "get_request_id ce st =
     (let r = cl_rid st + 1; r1 = (if r mod 10000 = 0 then 0 else r)
      in (ut_ip (cl_ut ce) @ '':'' @ to_string (ut_tid (cl_ut ce)) @ ''_'' @ to_string r1, st\<lparr>cl_rid := r1 + 1\<rparr>))"

definition draw :: "client_env \<Rightarrow> nat \<Rightarrow> client_state \<Rightarrow> (nat \<times> client_state) res" where
  "draw ce n st =
     (if n = 0 then Inl Div_by_zero
      else let (r, seed1) = rand_r (cl_env ce) (cl_seed st) in Inr (unat r mod n, st\<lparr>cl_seed := seed1\<rparr>))"

definition get_routing_thread :: "client_env \<Rightarrow> client_state \<Rightarrow> (Address \<times> client_state) res" where
  "get_routing_thread ce st =
     ebind (draw ce (length (routing_threads_of ce)) st) (\<lambda>(i, st1). Inr (urt_key_address_connect_address (routing_threads_of ce ! i), st1))"

definition query_routing_async :: "client_env \<Rightarrow> Key \<Rightarrow> client_state \<Rightarrow> client_state res" where
  "query_routing_async ce key st =
     (let (i, st1) = get_request_id ce st;
          request = \<lparr>kar_response_address = ut_key_address_connect_address (cl_ut ce), kar_keys = [key], kar_request_id = i\<rparr>
      in ebind (get_routing_thread ce st1) (\<lambda>(rt_thread, st2). Inr (cl_send rt_thread (AddressRequest request) st2)))"

definition get_all_worker_threads :: "client_env \<Rightarrow> Key \<Rightarrow> client_state \<Rightarrow> (Address uset \<times> client_state) res" where
  "get_all_worker_threads ce key st =
     (if umap_get [] (key_address_cache st) key = []
      then if \<not> umap_has (pending_request_map st) key
           then ebind (query_routing_async ce key st) (\<lambda>st1. Inr ([], st1))
           else Inr ([], st)
      else Inr (umap_get [] (key_address_cache st) key, st))"

definition get_worker_thread :: "client_env \<Rightarrow> Key \<Rightarrow> client_state \<Rightarrow> (Address \<times> client_state) res" where
  "get_worker_thread ce key st =
     ebind (get_all_worker_threads ce key st) (\<lambda>(local_cache, st1).
       if local_cache = [] then Inr ([], st1)
       else ebind (draw ce (length local_cache) st1) (\<lambda>(i, st2). Inr (local_cache ! i, st2)))"

definition prepare_data_request :: "client_env \<Rightarrow> Key \<Rightarrow> client_state \<Rightarrow> KeyRequest \<times> client_state" where
  "prepare_data_request ce key st =
     (let (i, st1) = get_request_id ce st
      in (KeyRequest_default\<lparr>kr_request_id := i, kr_response_address := ut_response_connect_address (cl_ut ce),
            kr_tuples := [KeyTuple_default\<lparr>kt_key := key\<rparr>]\<rparr>, st1))"

definition client_pending_default :: client_pending where
  "client_pending_default = \<lparr>tp = 0, worker_addr = [], pending_request = KeyRequest_default\<rparr>"

text \<open>What \<open>try_request\<close> writes down about a request it has sent.\<close>

definition note_sent :: "u64 \<Rightarrow> Address \<Rightarrow> KeyRequest \<Rightarrow> client_pending option \<Rightarrow> client_pending" where
  "note_sent now worker request entry =
     (case entry of
        None \<Rightarrow> \<lparr>tp = now, worker_addr = worker, pending_request = request\<rparr>
      | Some p \<Rightarrow> p\<lparr>worker_addr := worker\<rparr>)"

definition try_request :: "client_env \<Rightarrow> u64 \<Rightarrow> KeyRequest \<Rightarrow> client_state \<Rightarrow> (KeyRequest \<times> client_state) res" where
  "try_request ce now request st =
     ebind (vec_at (kr_tuples request) 0) (\<lambda>tuple.
       let key = kt_key tuple
       in ebind (get_worker_thread ce key st) (\<lambda>(worker, st1).
            if worker = []
            then Inr (request, st1\<lparr>pending_request_map := umap_mod (now, []) key (\<lambda>(t, reqs). (t, reqs @ [request])) (pending_request_map st1)\<rparr>)
            else let request1 = request\<lparr>kr_tuples := (kr_tuples request)[0 := tuple\<lparr>kt_address_cache_size :=
                                  of_nat (length (umap_get [] (key_address_cache st1) key))\<rparr>]\<rparr>;
                     st2 = cl_send worker (Request request1) (st1\<lparr>key_address_cache := umap_mod [] key id (key_address_cache st1)\<rparr>)
                 in Inr (request1,
                      if kr_type request1 = GET
                      then st2\<lparr>pending_get_response_map := umap_put key
                             (note_sent now worker request1 (map_of (pending_get_response_map st2) key)) (pending_get_response_map st2)\<rparr>
                      else st2\<lparr>pending_put_response_map := umap_mod [] key
                             (\<lambda>m. umap_put (kr_request_id request1) (note_sent now worker request1 (map_of m (kr_request_id request1))) m)
                             (pending_put_response_map st2)\<rparr>)))"

definition put_async :: "client_env \<Rightarrow> u64 \<Rightarrow> Key \<Rightarrow> string \<Rightarrow> LatticeType \<Rightarrow> client_state \<Rightarrow> (string \<times> client_state) res" where
  "put_async ce now key payload lattice_type st =
     (let (request, st1) = prepare_data_request ce key st;
          request1 = request\<lparr>kr_type := PUT, kr_tuples := map (\<lambda>t. t\<lparr>kt_lattice_type := lattice_type, kt_payload := payload\<rparr>) (kr_tuples request)\<rparr>
      in ebind (try_request ce now request1 st1) (\<lambda>(request2, st2). Inr (kr_request_id request2, st2)))"

definition get_async :: "client_env \<Rightarrow> u64 \<Rightarrow> Key \<Rightarrow> client_state \<Rightarrow> client_state res" where
  "get_async ce now key st =
     (if umap_has (pending_get_response_map st) key then Inr st
      else let (request, st1) = prepare_data_request ce key st
           in ebind (try_request ce now (request\<lparr>kr_type := GET\<rparr>) st1) (\<lambda>(request1, st2). Inr st2))"

section \<open>Answers\<close>

definition invalidate_cache_for_key :: "Key \<Rightarrow> client_state \<Rightarrow> client_state" where
  "invalidate_cache_for_key key st = st\<lparr>key_address_cache := umap_erase key (key_address_cache st)\<rparr>"

definition check_tuple :: "KeyTuple \<Rightarrow> client_state \<Rightarrow> bool \<times> client_state" where
  "check_tuple tuple st =
     (if kt_error tuple = WRONG_THREAD then (True, invalidate_cache_for_key (kt_key tuple) st)
      else (False, if kt_invalidate tuple then invalidate_cache_for_key (kt_key tuple) st else st))"

definition address_signature :: "Address \<Rightarrow> string res" where
  "address_signature address = vec_at (split_string address (CHR '':'')) 1"

definition mentions_worker :: "string \<Rightarrow> Address \<Rightarrow> bool \<Rightarrow> bool res" where
  "mentions_worker signature address found = ebind (address_signature address) (\<lambda>s. Inr (found \<or> s = signature))"

definition invalidate_cache_for_worker :: "Address \<Rightarrow> client_state \<Rightarrow> client_state res" where
  "invalidate_cache_for_worker worker st =
     ebind (address_signature worker) (\<lambda>signature.
       ebind (efold (\<lambda>(key, addresses) remove_set.
                 ebind (efold (mentions_worker signature) addresses False) (\<lambda>found. Inr (if found then uset_insert key remove_set else remove_set)))
               (key_address_cache st) []) (\<lambda>remove_set.
         Inr (st\<lparr>key_address_cache := fold umap_erase remove_set (key_address_cache st)\<rparr>)))"

definition generate_bad_response :: "KeyRequest \<Rightarrow> KeyResponse res" where
  "generate_bad_response req =
     ebind (vec_at (kr_tuples req) 0) (\<lambda>tuple.
       Inr (KeyResponse_default\<lparr>kp_type := kr_type req, kp_response_id := kr_request_id req, kp_error := TIMEOUT,
              kp_tuples := [if kr_type req = PUT
                            then KeyTuple_default\<lparr>kt_key := kt_key tuple, kt_lattice_type := kt_lattice_type tuple, kt_payload := kt_payload tuple\<rparr>
                            else KeyTuple_default\<lparr>kt_key := kt_key tuple\<rparr>]\<rparr>))"

text \<open>The loop over the waiting requests of a key sends each of them. When \<open>try_request\<close> finds no address it appends to the
  vector the loop runs over, which invalidates the loop's iterators.\<close>

definition retry_waiting :: "client_env \<Rightarrow> u64 \<Rightarrow> KeyRequest \<Rightarrow> client_state \<Rightarrow> client_state res" where
  "retry_waiting ce now req st =
     ebind (try_request ce now req st) (\<lambda>(req1, st1).
       if pending_request_map st1 \<noteq> pending_request_map st then Inl Invalid_iterator else Inr st1)"

definition handle_address :: "client_env \<Rightarrow> u64 \<Rightarrow> KeyAddressResponse \<Rightarrow> client_state \<Rightarrow> client_state res" where
  "handle_address ce now response st =
     ebind (vec_at (kap_addresses response) 0) (\<lambda>(key, ips).
       case map_of (pending_request_map st) key of
         None \<Rightarrow> Inr st
       | Some (t, reqs) \<Rightarrow>
           if kap_error response = NO_SERVERS
           then query_routing_async ce key (st\<lparr>pending_request_map := umap_put key (now, reqs) (pending_request_map st)\<rparr>)
           else let st1 = st\<lparr>key_address_cache := fold (\<lambda>ip. umap_mod [] key (uset_insert ip)) ips (key_address_cache st)\<rparr>
                in ebind (efold (retry_waiting ce now) reqs st1) (\<lambda>st2.
                     Inr (st2\<lparr>pending_request_map := umap_erase key (pending_request_map st2)\<rparr>)))"

definition handle_get_response :: "client_env \<Rightarrow> u64 \<Rightarrow> KeyResponse \<Rightarrow> KeyTuple \<Rightarrow> client_state \<Rightarrow> (KeyResponse list \<times> client_state) res" where
  "handle_get_response ce now response tuple st =
     (let key = kt_key tuple
      in case map_of (pending_get_response_map st) key of
           None \<Rightarrow> Inr ([], st)
         | Some p \<Rightarrow>
             let (retry, st1) = check_tuple tuple st
             in if retry
                then ebind (try_request ce now (pending_request p)
                             (st1\<lparr>pending_get_response_map := umap_put key (p\<lparr>tp := now\<rparr>) (pending_get_response_map st1)\<rparr>)) (\<lambda>(request, st2).
                       Inr ([], st2\<lparr>pending_get_response_map := umap_mod client_pending_default key (\<lambda>q. q\<lparr>pending_request := request\<rparr>)
                                  (pending_get_response_map st2)\<rparr>))
                else Inr ([response], st1\<lparr>pending_get_response_map := umap_erase key (pending_get_response_map st1)\<rparr>))"

definition handle_put_response :: "client_env \<Rightarrow> u64 \<Rightarrow> KeyResponse \<Rightarrow> KeyTuple \<Rightarrow> client_state \<Rightarrow> (KeyResponse list \<times> client_state) res" where
  "handle_put_response ce now response tuple st =
     (let key = kt_key tuple; i = kp_response_id response
      in case map_of (umap_get [] (pending_put_response_map st) key) i of
           None \<Rightarrow> Inr ([], st)
         | Some p \<Rightarrow>
             let (retry, st1) = check_tuple tuple st
             in if retry
                then ebind (try_request ce now (pending_request p)
                             (st1\<lparr>pending_put_response_map := umap_mod [] key (umap_put i (p\<lparr>tp := now\<rparr>)) (pending_put_response_map st1)\<rparr>)) (\<lambda>(request, st2).
                       Inr ([], st2\<lparr>pending_put_response_map := umap_mod [] key (umap_mod client_pending_default i (\<lambda>q. q\<lparr>pending_request := request\<rparr>))
                                  (pending_put_response_map st2)\<rparr>))
                else let m = umap_erase i (umap_get [] (pending_put_response_map st1) key)
                     in Inr ([response], st1\<lparr>pending_put_response_map :=
                          if m = [] then umap_erase key (pending_put_response_map st1) else umap_put key m (pending_put_response_map st1)\<rparr>))"

definition handle_response :: "client_env \<Rightarrow> u64 \<Rightarrow> KeyResponse \<Rightarrow> client_state \<Rightarrow> (KeyResponse list \<times> client_state) res" where
  "handle_response ce now response st =
     ebind (vec_at (kp_tuples response) 0) (\<lambda>tuple.
       if kp_type response = GET then handle_get_response ce now response tuple st else handle_put_response ce now response tuple st)"

section \<open>Timeouts\<close>

text \<open>\<open>duration_cast<milliseconds>\<close> truncates towards zero.\<close>

definition expired :: "client_env \<Rightarrow> u64 \<Rightarrow> u64 \<Rightarrow> bool" where
  "expired ce now start =
     (let d = uint now - uint start in (if d < 0 then - (- d div 1000) else d div 1000) > uint (cl_timeout ce))"

definition gc_requests :: "client_env \<Rightarrow> u64 \<Rightarrow> client_state \<Rightarrow> (KeyResponse list \<times> client_state) res" where
  "gc_requests ce now st =
     ebind (efold (\<lambda>(key, t, reqs) result.
               if expired ce now t then efold (\<lambda>req result. ebind (generate_bad_response req) (\<lambda>r. Inr (result @ [r]))) reqs result else Inr result)
             (pending_request_map st) []) (\<lambda>result.
       Inr (result, st\<lparr>pending_request_map := filter (\<lambda>(key, t, reqs). \<not> expired ce now t) (pending_request_map st)\<rparr>))"

definition gc_entry :: "client_env \<Rightarrow> u64 \<Rightarrow> client_pending \<Rightarrow> KeyResponse list \<times> client_state \<Rightarrow> (KeyResponse list \<times> client_state) res" where
  "gc_entry ce now p = (\<lambda>(result, st).
     if expired ce now (tp p)
     then ebind (generate_bad_response (pending_request p)) (\<lambda>r.
          ebind (invalidate_cache_for_worker (worker_addr p) st) (\<lambda>st1. Inr (result @ [r], st1)))
     else Inr (result, st))"

definition gc_gets :: "client_env \<Rightarrow> u64 \<Rightarrow> KeyResponse list \<times> client_state \<Rightarrow> (KeyResponse list \<times> client_state) res" where
  "gc_gets ce now = (\<lambda>(result, st).
     ebind (efold (\<lambda>(key, p). gc_entry ce now p) (pending_get_response_map st) (result, st)) (\<lambda>(result1, st1).
       Inr (result1, st1\<lparr>pending_get_response_map := filter (\<lambda>(key, p). \<not> expired ce now (tp p)) (pending_get_response_map st)\<rparr>)))"

definition gc_puts :: "client_env \<Rightarrow> u64 \<Rightarrow> KeyResponse list \<times> client_state \<Rightarrow> (KeyResponse list \<times> client_state) res" where
  "gc_puts ce now = (\<lambda>(result, st).
     ebind (efold (\<lambda>(key, m). efold (\<lambda>(i, p). gc_entry ce now p) m) (pending_put_response_map st) (result, st)) (\<lambda>(result1, st1).
       Inr (result1, st1\<lparr>pending_put_response_map :=
              map (\<lambda>(key, m). (key, filter (\<lambda>(i, p). \<not> expired ce now (tp p)) m)) (pending_put_response_map st)\<rparr>)))"

section \<open>\<open>receive_async\<close>\<close>

record client_inbox =
  cl_address_in :: "KeyAddressResponse option"
  cl_response_in :: "KeyResponse option"
  cl_clock :: u64

definition receive_async :: "client_env \<Rightarrow> client_inbox \<Rightarrow> client_state \<Rightarrow> (KeyResponse list \<times> client_state) res" where
  "receive_async ce ib st =
     ebind (on_message (cl_address_in ib) (handle_address ce (cl_clock ib)) st) (\<lambda>st1.
     ebind (case cl_response_in ib of None \<Rightarrow> Inr ([], st1) | Some response \<Rightarrow> handle_response ce (cl_clock ib) response st1) (\<lambda>(result, st2).
     ebind (gc_requests ce (cl_clock ib) st2) (\<lambda>(late, st3).
     ebind (gc_gets ce (cl_clock ib) (result @ late, st3)) (gc_puts ce (cl_clock ib)))))"

text \<open>A use of the client: any sequence of calls, with the results they returned.\<close>

inductive client :: "client_env \<Rightarrow> client_state \<Rightarrow> KeyResponse list \<Rightarrow> client_state \<Rightarrow> bool" for ce where
  start: "client ce st [] st"
| put: "client ce st rs st1 \<Longrightarrow> put_async ce now key payload ty st1 = Inr (i, st2) \<Longrightarrow> client ce st rs st2"
| get: "client ce st rs st1 \<Longrightarrow> get_async ce now key st1 = Inr st2 \<Longrightarrow> client ce st rs st2"
| receive: "client ce st rs st1 \<Longrightarrow> receive_async ce ib st1 = Inr (result, st2) \<Longrightarrow> client ce st (rs @ result) st2"
| clear: "client ce st rs st1 \<Longrightarrow> client ce st rs (clear_cache st1)"

end
