(* ===== verification/Client_Proofs.thy ===== *)
theory Client_Proofs
  imports Client
begin

text \<open>
  What the client of \<open>kvs_client.hpp\<close> guarantees to its caller: the invariant of its pending maps under every call, that no
  write is lost, that no pending request outlives its deadline, how long request identifiers stay distinct, and
  the answer it cannot handle.
\<close>

section \<open>The invariant\<close>

definition for_key :: "Key \<Rightarrow> KeyRequest \<Rightarrow> bool" where
  "for_key key r \<longleftrightarrow> map kt_key (kr_tuples r) = [key] \<and> (kr_type r = GET \<or> kr_type r = PUT)"

definition waiting_ok :: "Key \<Rightarrow> u64 \<times> KeyRequest list \<Rightarrow> bool" where
  "waiting_ok key v \<longleftrightarrow> snd v \<noteq> [] \<and> list_all (for_key key) (snd v)"

definition get_ok :: "Key \<Rightarrow> client_pending \<Rightarrow> bool" where
  "get_ok key p \<longleftrightarrow> for_key key (pending_request p) \<and> kr_type (pending_request p) = GET"

definition put_ok :: "Key \<Rightarrow> string \<Rightarrow> client_pending \<Rightarrow> bool" where
  "put_ok key i p \<longleftrightarrow> for_key key (pending_request p) \<and> kr_type (pending_request p) = PUT \<and> kr_request_id (pending_request p) = i"

definition puts_ok :: "Key \<Rightarrow> (string, client_pending) umap \<Rightarrow> bool" where
  "puts_ok key m \<longleftrightarrow> entries (put_ok key) m \<and> umap_wf m"

definition client_inv :: "client_state \<Rightarrow> bool" where
  "client_inv st \<longleftrightarrow> entries waiting_ok (pending_request_map st) \<and> umap_wf (pending_request_map st) \<and>
     entries get_ok (pending_get_response_map st) \<and> umap_wf (pending_get_response_map st) \<and>
     entries puts_ok (pending_put_response_map st) \<and> umap_wf (pending_put_response_map st) \<and>
     entries (\<lambda>key. distinct) (key_address_cache st) \<and> umap_wf (key_address_cache st)"

text \<open>Steps that leave the pending requests alone.\<close>

definition same_pending :: "client_state \<Rightarrow> client_state \<Rightarrow> bool" where
  "same_pending st st' \<longleftrightarrow> pending_request_map st' = pending_request_map st \<and>
     pending_get_response_map st' = pending_get_response_map st \<and> pending_put_response_map st' = pending_put_response_map st"

lemma same_pending_refl [simp]: "same_pending st st"
  by (simp add: same_pending_def)

lemma same_pending_trans: "same_pending a b \<Longrightarrow> same_pending b c \<Longrightarrow> same_pending a c"
  by (simp add: same_pending_def)

lemma get_request_id_same:
  assumes "get_request_id ce st = (i, st1)"
  shows "same_pending st st1" and "key_address_cache st1 = key_address_cache st"
  using assms by (auto simp: get_request_id_def Let_def same_pending_def)

lemma draw_same:
  assumes "draw ce n st = Inr (i, st1)"
  shows "same_pending st st1" and "key_address_cache st1 = key_address_cache st" and "i < n"
  using assms by (auto simp: draw_def same_pending_def Let_def split: if_splits prod.splits)

lemma query_routing_same:
  assumes "query_routing_async ce key st = Inr st1"
  shows "same_pending st st1" and "key_address_cache st1 = key_address_cache st"
proof -
  obtain i st0 where g: "get_request_id ce st = (i, st0)" by fastforce
  from assms obtain n st2 a r where d: "draw ce (length (routing_threads_of ce)) st0 = Inr (n, st2)" and st1: "st1 = cl_send a r st2"
    by (auto simp: query_routing_async_def g Let_def get_routing_thread_def ebind_Inr_iff)
  show "same_pending st st1" "key_address_cache st1 = key_address_cache st"
    using get_request_id_same [OF g] draw_same(1,2) [OF d] by (simp_all add: st1 cl_send_def same_pending_def)
qed

lemma get_worker_thread_same:
  assumes "get_worker_thread ce key st = Inr (worker, st1)"
  shows "same_pending st st1" and "key_address_cache st1 = key_address_cache st"
    and "umap_get [] (key_address_cache st) key = [] \<Longrightarrow> worker = []"
    and "umap_get [] (key_address_cache st) key \<noteq> [] \<Longrightarrow> worker \<in> set (umap_get [] (key_address_cache st) key)"
  using assms
  by (auto simp: get_worker_thread_def get_all_worker_threads_def ebind_Inr_iff dest: query_routing_same draw_same split: if_splits)

section \<open>Sending a request\<close>

text \<open>The two outcomes of \<open>try_request\<close>: the request waits for addresses, or it is sent and noted.\<close>

lemma try_request_cases:
  assumes "try_request ce now r st = Inr (r', st')" and "for_key key r"
  obtains (wait) st1 where "same_pending st st1" "key_address_cache st1 = key_address_cache st" "r' = r"
      "st' = st1\<lparr>pending_request_map := umap_mod (now, []) key (\<lambda>(t, reqs). (t, reqs @ [r])) (pending_request_map st1)\<rparr>"
  | (sent) st1 worker where "same_pending st st1" "worker \<in> set (umap_get [] (key_address_cache st) key)"
      "umap_wf (key_address_cache st) \<Longrightarrow> entries (\<lambda>key. distinct) (key_address_cache st) \<Longrightarrow>
        umap_wf (key_address_cache st1) \<and> entries (\<lambda>key. distinct) (key_address_cache st1)"
      "for_key key r'" "kr_type r' = kr_type r" "kr_request_id r' = kr_request_id r"
      "st' = (if kr_type r = GET
        then st1\<lparr>pending_get_response_map := umap_put key (note_sent now worker r' (map_of (pending_get_response_map st1) key)) (pending_get_response_map st1)\<rparr>
        else st1\<lparr>pending_put_response_map := umap_mod [] key
          (\<lambda>m. umap_put (kr_request_id r) (note_sent now worker r' (map_of m (kr_request_id r))) m) (pending_put_response_map st1)\<rparr>)"
proof -
  from assms(2) obtain tuple where tuple: "kr_tuples r = [tuple]" "kt_key tuple = key" by (auto simp: for_key_def)
  from assms(1) obtain worker st1 where g: "get_worker_thread ce key st = Inr (worker, st1)"
    by (auto simp: try_request_def tuple vec_at_def Let_def ebind_Inr_iff)
  note same = get_worker_thread_same [OF g]
  show thesis
  proof (cases "worker = []")
    case True
    with assms(1) g same(1,2) show thesis by (intro wait [of st1]) (auto simp: try_request_def tuple vec_at_def)
  next
    case False
    let ?r = "r\<lparr>kr_tuples := [tuple\<lparr>kt_address_cache_size := of_nat (length (umap_get [] (key_address_cache st1) key))\<rparr>]\<rparr>"
    let ?st2 = "cl_send worker (Request ?r) (st1\<lparr>key_address_cache := umap_mod [] key id (key_address_cache st1)\<rparr>)"
    have w: "worker \<in> set (umap_get [] (key_address_cache st) key)" using False same(3,4) by blast
    have r': "r' = ?r" and st': "st' = (if kr_type r = GET
        then ?st2\<lparr>pending_get_response_map := umap_put key (note_sent now worker ?r (map_of (pending_get_response_map ?st2) key)) (pending_get_response_map ?st2)\<rparr>
        else ?st2\<lparr>pending_put_response_map := umap_mod [] key
          (\<lambda>m. umap_put (kr_request_id r) (note_sent now worker ?r (map_of m (kr_request_id r))) m) (pending_put_response_map ?st2)\<rparr>)"
      using assms(1) g False by (auto simp: try_request_def tuple vec_at_def Let_def)
    show thesis
    proof (rule sent [of ?st2 worker])
      show "same_pending st ?st2" using same(1) by (simp add: cl_send_def same_pending_def)
      show "for_key key r'" using assms(2) tuple by (simp add: r' for_key_def)
      show "umap_wf (key_address_cache ?st2) \<and> entries (\<lambda>key. distinct) (key_address_cache ?st2)"
        if "umap_wf (key_address_cache st)" "entries (\<lambda>key. distinct) (key_address_cache st)"
        using that same(2) by (auto simp: cl_send_def intro!: wf_intros entries_mod)
    qed (use w st' in \<open>simp_all add: r'\<close>)
  qed
qed

lemma note_sent_ok:
  assumes "for_key key r'" and "kr_type r' = GET" and "\<And>p. old = Some p \<Longrightarrow> get_ok key p"
  shows "get_ok key (note_sent now worker r' old)"
  using assms by (auto simp: note_sent_def get_ok_def split: option.splits)

lemma note_sent_put_ok:
  assumes "for_key key r'" and "kr_type r' = PUT" and "kr_request_id r' = i" and "\<And>p. old = Some p \<Longrightarrow> put_ok key i p"
  shows "put_ok key i (note_sent now worker r' old)"
  using assms by (auto simp: note_sent_def put_ok_def split: option.splits)

lemma try_request_inv:
  assumes "try_request ce now r st = Inr (r', st')" and "for_key key r" and "client_inv st"
  shows "client_inv st'" and "for_key key r' \<and> kr_type r' = kr_type r \<and> kr_request_id r' = kr_request_id r"
proof -
  show "for_key key r' \<and> kr_type r' = kr_type r \<and> kr_request_id r' = kr_request_id r"
    using assms(1,2) by (rule try_request_cases) (use assms(2) in simp_all)
  show "client_inv st'"
    using assms(1,2)
  proof (cases rule: try_request_cases)
    case (wait st1)
    have "entries waiting_ok (umap_mod (now, []) key (\<lambda>(t, reqs). (t, reqs @ [r])) (pending_request_map st1))"
      using assms(2,3) wait(1) by (intro entries_mod) (auto simp: client_inv_def same_pending_def waiting_ok_def)
    with assms(3) wait(1,2) show ?thesis by (simp add: client_inv_def same_pending_def wait(4) wf_intros)
  next
    case (sent st1 worker)
    have inv1: "client_inv st1" using assms(3) sent(1,3) by (simp add: client_inv_def same_pending_def)
    show ?thesis
    proof (cases "kr_type r = GET")
      case True
      have "get_ok key (note_sent now worker r' (map_of (pending_get_response_map st1) key))"
        using inv1 True sent(4,5) by (intro note_sent_ok) (auto simp: client_inv_def dest: entries_get)
      with inv1 True show ?thesis by (simp add: client_inv_def sent(7) entries_put wf_intros)
    next
      case False
      with assms(2) sent(5) have put: "kr_type r' = PUT" by (auto simp: for_key_def)
      have "entries puts_ok (umap_mod [] key
          (\<lambda>m. umap_put (kr_request_id r) (note_sent now worker r' (map_of m (kr_request_id r))) m) (pending_put_response_map st1))"
        using inv1 put sent(4,6)
        by (intro entries_mod) (auto simp: client_inv_def puts_ok_def intro!: entries_put wf_intros note_sent_put_ok dest: entries_get)
      with inv1 False show ?thesis by (simp add: client_inv_def sent(7) wf_intros)
    qed
  qed
qed

section \<open>The calls keep the invariant\<close>

lemma same_pending_inv: "same_pending st st1 \<Longrightarrow> key_address_cache st1 = key_address_cache st \<Longrightarrow> client_inv st1 = client_inv st"
  by (simp add: same_pending_def client_inv_def)

lemma prepared_request:
  assumes "prepare_data_request ce key st = (r, st1)"
  shows "same_pending st st1" and "key_address_cache st1 = key_address_cache st"
    and "r = KeyRequest_default\<lparr>kr_request_id := fst (get_request_id ce st), kr_response_address := ut_response_connect_address (cl_ut ce),
      kr_tuples := [KeyTuple_default\<lparr>kt_key := key\<rparr>]\<rparr>"
  using assms get_request_id_same [of ce st] by (auto simp: prepare_data_request_def Let_def split: prod.splits)

lemma put_async_steps:
  assumes "put_async ce now key payload ty st = Inr (i, st')"
  obtains r st1 r2 where "same_pending st st1" "key_address_cache st1 = key_address_cache st" "for_key key r" "kr_type r = PUT"
    "try_request ce now r st1 = Inr (r2, st')" "i = kr_request_id r2"
proof -
  obtain r st1 where p: "prepare_data_request ce key st = (r, st1)" by fastforce
  let ?r = "r\<lparr>kr_type := PUT, kr_tuples := map (\<lambda>t. t\<lparr>kt_lattice_type := ty, kt_payload := payload\<rparr>) (kr_tuples r)\<rparr>"
  from assms obtain r2 where t: "try_request ce now ?r st1 = Inr (r2, st')" "i = kr_request_id r2"
    by (auto simp: put_async_def p Let_def ebind_Inr_iff)
  have "for_key key ?r" by (simp add: prepared_request(3) [OF p] for_key_def KeyTuple_default_def)
  with t prepared_request(1,2) [OF p] that [of st1 ?r r2] show thesis by simp
qed

lemma get_async_steps:
  assumes "get_async ce now key st = Inr st'"
  obtains (pending) "st' = st" | (request) r st1 r2 where "same_pending st st1" "key_address_cache st1 = key_address_cache st" "for_key key r"
    "try_request ce now r st1 = Inr (r2, st')"
proof (cases "umap_has (pending_get_response_map st) key")
  case False
  obtain r st1 where p: "prepare_data_request ce key st = (r, st1)" by fastforce
  from assms False obtain r2 where t: "try_request ce now (r\<lparr>kr_type := GET\<rparr>) st1 = Inr (r2, st')"
    by (auto simp: get_async_def p Let_def ebind_Inr_iff)
  have "for_key key (r\<lparr>kr_type := GET\<rparr>)" by (simp add: prepared_request(3) [OF p] for_key_def KeyTuple_default_def)
  with t prepared_request(1,2) [OF p] request show thesis by blast
qed (use assms pending in \<open>simp add: get_async_def\<close>)

lemma put_async_inv:
  assumes "put_async ce now key payload ty st = Inr (i, st')" and "client_inv st"
  shows "client_inv st'"
  using assms(1) by (rule put_async_steps) (use assms(2) in \<open>blast intro: try_request_inv(1) dest: same_pending_inv\<close>)

lemma get_async_inv:
  assumes "get_async ce now key st = Inr st'" and "client_inv st"
  shows "client_inv st'"
  using assms(1) by (cases rule: get_async_steps) (use assms(2) in \<open>auto intro: try_request_inv(1) dest: same_pending_inv\<close>)

lemma retry_all_inv:
  assumes "efold (retry_waiting ce now) reqs st = Inr st'"
    and "client_inv st" and "list_all (for_key key) reqs"
  shows "client_inv st'"
  by (rule efold_invariant [where P = client_inv, OF assms(1,2)])
    (use assms(3) in \<open>auto simp: retry_waiting_def ebind_Inr_iff list_all_iff dest: try_request_inv(1) split: if_splits\<close>)

lemma cache_addresses:
  assumes "umap_wf m" and "entries (\<lambda>key. distinct) m"
  shows "umap_wf (fold (\<lambda>ip. umap_mod [] key (uset_insert ip)) ips m) \<and> entries (\<lambda>key. distinct) (fold (\<lambda>ip. umap_mod [] key (uset_insert ip)) ips m)"
  by (rule fold_invariant_list) (use assms in \<open>auto intro!: wf_intros entries_mod\<close>)

lemma handle_address_inv:
  assumes "handle_address ce now response st = Inr st'" and "client_inv st"
  shows "client_inv st'"
proof -
  from assms(1) obtain key ips where a: "vec_at (kap_addresses response) 0 = Inr (key, ips)" by (auto simp: handle_address_def ebind_Inr_iff)
  show ?thesis
  proof (cases "map_of (pending_request_map st) key")
    case None
    with assms a show ?thesis by (simp add: handle_address_def)
  next
    case (Some v)
    obtain t reqs where v: "v = (t, reqs)" by fastforce
    have ok: "waiting_ok key (t, reqs)" using assms(2) Some v by (auto simp: client_inv_def dest: entries_get)
    show ?thesis
    proof (cases "kap_error response = NO_SERVERS")
      case True
      let ?st = "st\<lparr>pending_request_map := umap_put key (now, reqs) (pending_request_map st)\<rparr>"
      have "client_inv ?st" using assms(2) ok by (simp add: client_inv_def wf_intros entries_put waiting_ok_def)
      moreover have "query_routing_async ce key ?st = Inr st'" using assms(1) a Some v True by (simp add: handle_address_def)
      ultimately show ?thesis using query_routing_same same_pending_inv by blast
    next
      case False
      let ?st = "st\<lparr>key_address_cache := fold (\<lambda>ip. umap_mod [] key (uset_insert ip)) ips (key_address_cache st)\<rparr>"
      from assms(1) a Some v False obtain st2 where
        e: "efold (retry_waiting ce now) reqs ?st = Inr st2"
        and st': "st' = st2\<lparr>pending_request_map := umap_erase key (pending_request_map st2)\<rparr>"
        by (auto simp: handle_address_def Let_def ebind_Inr_iff split: if_splits)
      have "client_inv ?st" using assms(2) cache_addresses [of "key_address_cache st" key ips] by (simp add: client_inv_def)
      with e ok have "client_inv st2" by (auto intro: retry_all_inv simp: waiting_ok_def)
      then show ?thesis by (simp add: st' client_inv_def wf_intros entries_erase)
    qed
  qed
qed

lemma check_tuple_inv:
  assumes "check_tuple tuple st = (retry, st1)"
  shows "same_pending st st1" and "client_inv st \<Longrightarrow> client_inv st1"
  using assms by (auto simp: check_tuple_def invalidate_cache_for_key_def same_pending_def client_inv_def
      intro: wf_intros entries_erase split: if_splits)

lemma handle_get_response_inv:
  assumes "handle_get_response ce now response tuple st = Inr (result, st')" and "client_inv st"
  shows "client_inv st'"
proof (cases "map_of (pending_get_response_map st) (kt_key tuple)")
  case None
  with assms show ?thesis by (simp add: handle_get_response_def)
next
  case (Some p)
  let ?key = "kt_key tuple"
  obtain retry st1 where c: "check_tuple tuple st = (retry, st1)" by fastforce
  note c1 = check_tuple_inv [OF c]
  have ok: "get_ok ?key p" using assms(2) Some by (auto simp: client_inv_def dest: entries_get)
  show ?thesis
  proof (cases retry)
    case True
    let ?st = "st1\<lparr>pending_get_response_map := umap_put ?key (p\<lparr>tp := now\<rparr>) (pending_get_response_map st1)\<rparr>"
    from assms(1) Some c True obtain r st2 where t: "try_request ce now (pending_request p) ?st = Inr (r, st2)"
      and st': "st' = st2\<lparr>pending_get_response_map := umap_mod client_pending_default ?key (\<lambda>q. q\<lparr>pending_request := r\<rparr>) (pending_get_response_map st2)\<rparr>"
      by (auto simp: handle_get_response_def Let_def ebind_Inr_iff)
    have "client_inv ?st" using c1(2) [OF assms(2)] ok by (simp add: client_inv_def wf_intros entries_put get_ok_def)
    with t ok have "client_inv st2" "get_ok ?key (q\<lparr>pending_request := r\<rparr>)" for q
      using try_request_inv [of ce now "pending_request p" ?st r st2 ?key] by (auto simp: get_ok_def)
    then show ?thesis by (auto simp: st' client_inv_def intro!: wf_intros entries_mod)
  next
    case False
    with assms(1) Some c have "st' = st1\<lparr>pending_get_response_map := umap_erase ?key (pending_get_response_map st1)\<rparr>"
      by (simp add: handle_get_response_def)
    with c1(2) [OF assms(2)] show ?thesis by (simp add: client_inv_def wf_intros entries_erase)
  qed
qed

lemma handle_put_response_inv:
  assumes "handle_put_response ce now response tuple st = Inr (result, st')" and "client_inv st"
  shows "client_inv st'"
proof (cases "map_of (umap_get [] (pending_put_response_map st) (kt_key tuple)) (kp_response_id response)")
  case None
  with assms show ?thesis by (simp add: handle_put_response_def)
next
  case (Some p)
  let ?key = "kt_key tuple" and ?i = "kp_response_id response"
  obtain retry st1 where c: "check_tuple tuple st = (retry, st1)" by fastforce
  note c1 = check_tuple_inv [OF c]
  have puts: "puts_ok ?key (umap_get [] (pending_put_response_map st) ?key)"
    using assms(2) by (auto simp: client_inv_def umap_get_def puts_ok_def dest: entries_get split: option.splits)
  with Some have ok: "put_ok ?key ?i p" by (auto simp: puts_ok_def dest: entries_get)
  show ?thesis
  proof (cases retry)
    case True
    let ?st = "st1\<lparr>pending_put_response_map := umap_mod [] ?key (umap_put ?i (p\<lparr>tp := now\<rparr>)) (pending_put_response_map st1)\<rparr>"
    from assms(1) Some c True obtain r st2 where t: "try_request ce now (pending_request p) ?st = Inr (r, st2)"
      and st': "st' = st2\<lparr>pending_put_response_map := umap_mod [] ?key (umap_mod client_pending_default ?i (\<lambda>q. q\<lparr>pending_request := r\<rparr>)) (pending_put_response_map st2)\<rparr>"
      by (auto simp: handle_put_response_def Let_def ebind_Inr_iff)
    have "client_inv ?st" using c1(2) [OF assms(2)] ok
      by (auto simp: client_inv_def puts_ok_def put_ok_def intro!: wf_intros entries_mod entries_put)
    with t ok have "client_inv st2" "put_ok ?key ?i (q\<lparr>pending_request := r\<rparr>)" for q
      using try_request_inv [of ce now "pending_request p" ?st r st2 ?key] by (auto simp: put_ok_def)
    then show ?thesis by (auto simp: st' client_inv_def puts_ok_def intro!: wf_intros entries_mod)
  next
    case False
    let ?m = "umap_erase ?i (umap_get [] (pending_put_response_map st1) ?key)"
    from assms(1) Some c False have st': "st' = st1\<lparr>pending_put_response_map :=
        if ?m = [] then umap_erase ?key (pending_put_response_map st1) else umap_put ?key ?m (pending_put_response_map st1)\<rparr>"
      by (simp add: handle_put_response_def Let_def)
    have "puts_ok ?key ?m" using puts c1(1) by (simp add: same_pending_def puts_ok_def wf_intros entries_erase)
    with c1(2) [OF assms(2)] show ?thesis by (simp add: st' client_inv_def wf_intros entries_erase entries_put)
  qed
qed

lemma invalidate_worker_inv:
  assumes "invalidate_cache_for_worker worker st = Inr st'"
  shows "same_pending st st'" and "client_inv st \<Longrightarrow> client_inv st'"
proof -
  from assms obtain ks where st': "st' = st\<lparr>key_address_cache := fold umap_erase ks (key_address_cache st)\<rparr>"
    by (auto simp: invalidate_cache_for_worker_def ebind_Inr_iff)
  then show "same_pending st st'" by (simp add: same_pending_def)
  have "umap_wf (fold umap_erase ks m) \<and> entries (\<lambda>key. distinct) (fold umap_erase ks m)"
    if "umap_wf m" "entries (\<lambda>key. distinct) m" for m :: "(Key, Address uset) umap"
    by (rule fold_invariant_list) (use that in \<open>auto intro: wf_intros entries_erase\<close>)
  then show "client_inv st \<Longrightarrow> client_inv st'" by (simp add: st' client_inv_def)
qed

lemma gc_entry_inv:
  assumes "gc_entry ce now p (result, st) = Inr (result', st')"
  shows "same_pending st st'" and "client_inv st \<Longrightarrow> client_inv st'"
  using assms by (auto simp: gc_entry_def ebind_Inr_iff dest: invalidate_worker_inv split: if_splits)

lemma gc_requests_inv:
  assumes "gc_requests ce now st = Inr (result, st')" and "client_inv st"
  shows "client_inv st'"
  using assms by (auto simp: gc_requests_def ebind_Inr_iff client_inv_def intro: entries_filter distinct_map_filter)

lemma gc_gets_same:
  assumes "efold (\<lambda>(key, p). gc_entry ce now p) m (result, st) = Inr (result', st')"
  shows "same_pending st st' \<and> (client_inv st \<longrightarrow> client_inv st')"
proof -
  have "same_pending st (snd (result', st')) \<and> (client_inv st \<longrightarrow> client_inv (snd (result', st')))"
    by (rule efold_invariant [OF assms, where P = "\<lambda>q. same_pending st (snd q) \<and> (client_inv st \<longrightarrow> client_inv (snd q))"])
      (auto dest: gc_entry_inv(2) elim!: same_pending_trans intro: gc_entry_inv(1))
  then show ?thesis by simp
qed

lemma gc_gets_inv:
  assumes "gc_gets ce now (result, st) = Inr (result', st')" and "client_inv st"
  shows "client_inv st'"
proof -
  from assms(1) obtain st1 where s: "efold (\<lambda>(key, p). gc_entry ce now p) (pending_get_response_map st) (result, st) = Inr (result', st1)"
    "st' = st1\<lparr>pending_get_response_map := filter (\<lambda>(key, p). \<not> expired ce now (tp p)) (pending_get_response_map st)\<rparr>"
    by (auto simp: gc_gets_def ebind_Inr_iff)
  with gc_gets_same [OF s(1)] assms(2) show ?thesis by (auto simp: client_inv_def intro: entries_filter distinct_map_filter)
qed

lemma gc_puts_same:
  assumes "efold (\<lambda>(key, m). efold (\<lambda>(i, p). gc_entry ce now p) m) ms (result, st) = Inr (result', st')"
  shows "same_pending st st' \<and> (client_inv st \<longrightarrow> client_inv st')"
proof -
  have "same_pending st (snd (result', st')) \<and> (client_inv st \<longrightarrow> client_inv (snd (result', st')))"
    by (rule efold_invariant [OF assms, where P = "\<lambda>q. same_pending st (snd q) \<and> (client_inv st \<longrightarrow> client_inv (snd q))"])
      (auto dest!: gc_gets_same elim!: same_pending_trans)
  then show ?thesis by simp
qed

lemma gc_puts_inv:
  assumes "gc_puts ce now (result, st) = Inr (result', st')" and "client_inv st"
  shows "client_inv st'"
proof -
  let ?f = "map (\<lambda>(key, m). (key, filter (\<lambda>(i, p). \<not> expired ce now (tp p)) m)) (pending_put_response_map st)"
  from assms(1) obtain st1 where s: "efold (\<lambda>(key, m). efold (\<lambda>(i, p). gc_entry ce now p) m) (pending_put_response_map st) (result, st) = Inr (result', st1)"
    "st' = st1\<lparr>pending_put_response_map := ?f\<rparr>"
    by (auto simp: gc_puts_def ebind_Inr_iff)
  have "map fst ?f = map fst (pending_put_response_map st)" by auto
  then have "umap_wf ?f" using assms(2) by (simp only: client_inv_def)
  moreover have "entries puts_ok ?f"
    using assms(2) by (intro entries_map [of puts_ok]) (auto simp: client_inv_def puts_ok_def intro: entries_filter distinct_map_filter)
  ultimately show ?thesis using gc_puts_same [OF s(1)] assms(2) by (simp add: s(2) client_inv_def)
qed

text \<open>The parts of a call of \<open>receive_async\<close>.\<close>

lemma receive_async_steps:
  assumes "receive_async ce ib st = Inr (result', st')"
  obtains st1 result st2 late st3 more st4 where
    "on_message (cl_address_in ib) (handle_address ce (cl_clock ib)) st = Inr st1"
    "(case cl_response_in ib of None \<Rightarrow> Inr ([], st1) | Some response \<Rightarrow> handle_response ce (cl_clock ib) response st1) = Inr (result, st2)"
    "gc_requests ce (cl_clock ib) st2 = Inr (late, st3)" "gc_gets ce (cl_clock ib) (result @ late, st3) = Inr (more, st4)"
    "gc_puts ce (cl_clock ib) (more, st4) = Inr (result', st')"
  using assms by (auto simp: receive_async_def ebind_Inr_iff)

lemma on_address_inv:
  "on_message m (handle_address ce now) st = Inr st1 \<Longrightarrow> client_inv st \<Longrightarrow> client_inv st1"
  by (auto simp: on_message_def dest: handle_address_inv split: option.splits)

lemma handle_response_inv:
  "handle_response ce now response st = Inr (result, st1) \<Longrightarrow> client_inv st \<Longrightarrow> client_inv st1"
  by (auto simp: handle_response_def ebind_Inr_iff dest: handle_get_response_inv handle_put_response_inv split: if_splits)

lemma receive_async_inv:
  assumes "receive_async ce ib st = Inr (result', st')" and "client_inv st"
  shows "client_inv st'"
  using assms(1)
proof (rule receive_async_steps)
  fix st1 result st2 late st3 more st4
  assume s: "on_message (cl_address_in ib) (handle_address ce (cl_clock ib)) st = Inr st1"
    "(case cl_response_in ib of None \<Rightarrow> Inr ([], st1) | Some response \<Rightarrow> handle_response ce (cl_clock ib) response st1) = Inr (result, st2)"
    "gc_requests ce (cl_clock ib) st2 = Inr (late, st3)" "gc_gets ce (cl_clock ib) (result @ late, st3) = Inr (more, st4)"
    "gc_puts ce (cl_clock ib) (more, st4) = Inr (result', st')"
  have "client_inv st1" using s(1) assms(2) by (rule on_address_inv)
  then have "client_inv st2" using s(2) by (auto split: option.splits intro: handle_response_inv)
  then have "client_inv st3" using s(3) by (blast intro: gc_requests_inv)
  then have "client_inv st4" using s(4) by (blast intro: gc_gets_inv)
  then show "client_inv st'" using s(5) by (blast intro: gc_puts_inv)
qed

lemma clear_cache_inv: "client_inv st \<Longrightarrow> client_inv (clear_cache st)"
  by (simp add: client_inv_def clear_cache_def)

lemma client_keeps_inv:
  assumes "client ce st rs st'" and "client_inv st"
  shows "client_inv st'"
  using assms
  by induction (auto intro: put_async_inv get_async_inv receive_async_inv clear_cache_inv)

lemma client_init_inv: "client_inv (client_init ce time)"
  by (simp add: client_inv_def client_init_def)

section \<open>No write is lost\<close>

text \<open>A write that the caller has not been told about is waiting for addresses or in flight.\<close>

definition waits :: "client_state \<Rightarrow> string \<Rightarrow> bool" where
  "waits st i \<longleftrightarrow> (\<exists>key t reqs r. map_of (pending_request_map st) key = Some (t, reqs) \<and> r \<in> set reqs \<and> kr_type r = PUT \<and> kr_request_id r = i)"

definition in_flight :: "client_state \<Rightarrow> string \<Rightarrow> bool" where
  "in_flight st i \<longleftrightarrow> (\<exists>key m p. map_of (pending_put_response_map st) key = Some m \<and> map_of m i = Some p)"

definition outstanding :: "client_state \<Rightarrow> string \<Rightarrow> bool" where
  "outstanding st i \<longleftrightarrow> waits st i \<or> in_flight st i"

definition reported :: "string \<Rightarrow> KeyResponse list \<Rightarrow> bool" where
  "reported i rs \<longleftrightarrow> (\<exists>r\<in>set rs. kp_response_id r = i)"

lemma waitsI: "map_of (pending_request_map st) key = Some (t, reqs) \<Longrightarrow> r \<in> set reqs \<Longrightarrow> kr_type r = PUT \<Longrightarrow> waits st (kr_request_id r)"
  unfolding waits_def by blast

lemma in_flight_get: "in_flight st i \<longleftrightarrow> (\<exists>key. map_of (umap_get [] (pending_put_response_map st) key) i \<noteq> None)"
  by (auto simp: in_flight_def umap_get_def split: option.splits; blast)

lemma outstanding_mono:
  assumes "outstanding st i" and "waits st i \<Longrightarrow> waits st' i"
    and "\<And>k. map_of (umap_get [] (pending_put_response_map st) k) i \<noteq> None \<Longrightarrow> map_of (umap_get [] (pending_put_response_map st') k) i \<noteq> None"
  shows "outstanding st' i"
  using assms unfolding outstanding_def in_flight_get by blast

lemma outstanding_same: "same_pending st st1 \<Longrightarrow> waits st1 = waits st" "same_pending st st1 \<Longrightarrow> in_flight st1 = in_flight st"
  "same_pending st st1 \<Longrightarrow> outstanding st1 = outstanding st"
  by (simp_all add: same_pending_def waits_def in_flight_def outstanding_def fun_eq_iff)

text \<open>\<open>try_request\<close> keeps every outstanding write outstanding and adds the one it is given.\<close>

lemma try_request_waits:
  assumes "try_request ce now r st = Inr (r', st')" and "for_key key r"
  shows "waits st i \<Longrightarrow> waits st' i" and "in_flight st i \<Longrightarrow> in_flight st' i"
    and "kr_type r = PUT \<Longrightarrow> umap_get [] (key_address_cache st) key = [] \<Longrightarrow> waits st' (kr_request_id r)"
    and "kr_type r = PUT \<Longrightarrow> outstanding st' (kr_request_id r)"
proof -
  have "(waits st i \<longrightarrow> waits st' i) \<and> (in_flight st i \<longrightarrow> in_flight st' i) \<and>
      (kr_type r = PUT \<longrightarrow> umap_get [] (key_address_cache st) key = [] \<longrightarrow> waits st' (kr_request_id r)) \<and>
      (kr_type r = PUT \<longrightarrow> outstanding st' (kr_request_id r))"
    using assms
  proof (cases rule: try_request_cases)
    case (wait st1)
    obtain t reqs where m: "umap_get (now, []) (pending_request_map st1) key = (t, reqs)" by fastforce
    have pm: "map_of (pending_request_map st') = (map_of (pending_request_map st1))(key \<mapsto> (t, reqs @ [r]))" by (simp add: wait(4) m)
    have "waits st' i" if "waits st i"
    proof -
      from that wait(1) obtain k t' rs' x where x: "map_of (pending_request_map st1) k = Some (t', rs')" "x \<in> set rs'" "kr_type x = PUT" "kr_request_id x = i"
        by (auto simp: waits_def same_pending_def)
      show ?thesis
      proof (cases "k = key")
        case True
        with x m show ?thesis unfolding waits_def pm by (intro exI [of _ key] exI [of _ t] exI [of _ "reqs @ [r]"] exI [of _ x]) (simp add: umap_get_def)
      next
        case False
        with x show ?thesis unfolding waits_def pm by (intro exI [of _ k] exI [of _ t'] exI [of _ rs'] exI [of _ x]) simp
      qed
    qed
    moreover have "waits st' (kr_request_id r)" if "kr_type r = PUT"
      using that unfolding waits_def pm by (intro exI [of _ key] exI [of _ t] exI [of _ "reqs @ [r]"] exI [of _ r]) simp
    moreover have "in_flight st' i = in_flight st i" using wait(1) by (simp add: wait(4) in_flight_def same_pending_def)
    ultimately show ?thesis by (simp add: outstanding_def)
  next
    case (sent st1 worker)
    have w: "waits st' = waits st" using sent(1) by (simp add: sent(7) waits_def same_pending_def fun_eq_iff)
    let ?p = "note_sent now worker r' (map_of (umap_get [] (pending_put_response_map st1) key) (kr_request_id r))"
    have pm: "map_of (pending_put_response_map st') = (map_of (pending_put_response_map st1))
        (key \<mapsto> umap_put (kr_request_id r) ?p (umap_get [] (pending_put_response_map st1) key))" if "kr_type r \<noteq> GET"
      using that by (simp add: sent(7))
    have "in_flight st' i" if "in_flight st i"
    proof (cases "kr_type r = GET")
      case True
      with that sent(1) show ?thesis by (simp add: sent(7) in_flight_def same_pending_def)
    next
      case False
      from that sent(1) obtain k m p where "map_of (pending_put_response_map st1) k = Some m" "map_of m i = Some p"
        by (auto simp: in_flight_def same_pending_def)
      then show ?thesis unfolding in_flight_def pm [OF False] by (cases "k = key") (auto simp: umap_get_def)
    qed
    moreover have "in_flight st' (kr_request_id r)" if "kr_type r = PUT"
      using that pm unfolding in_flight_def by (intro exI [of _ key]) simp
    moreover have "umap_get [] (key_address_cache st) key \<noteq> []" using sent(2) by auto
    ultimately show ?thesis by (simp add: w outstanding_def)
  qed
  then show "waits st i \<Longrightarrow> waits st' i" "in_flight st i \<Longrightarrow> in_flight st' i"
    "kr_type r = PUT \<Longrightarrow> umap_get [] (key_address_cache st) key = [] \<Longrightarrow> waits st' (kr_request_id r)"
    "kr_type r = PUT \<Longrightarrow> outstanding st' (kr_request_id r)" by blast+
qed

lemma retry_waiting_flies:
  assumes "retry_waiting ce now r st = Inr st'" and "for_key key r"
  shows "waits st' = waits st" and "in_flight st i \<Longrightarrow> in_flight st' i" and "kr_type r = PUT \<Longrightarrow> in_flight st' (kr_request_id r)"
    and "pending_request_map st' = pending_request_map st"
proof -
  from assms(1) obtain r' where t: "try_request ce now r st = Inr (r', st')" and same: "pending_request_map st' = pending_request_map st"
    by (auto simp: retry_waiting_def ebind_Inr_iff split: if_splits)
  show "pending_request_map st' = pending_request_map st" by (rule same)
  show "waits st' = waits st" by (simp add: waits_def same fun_eq_iff)
  show "in_flight st i \<Longrightarrow> in_flight st' i" by (rule try_request_waits(2) [OF t assms(2)])
  show "in_flight st' (kr_request_id r)" if put: "kr_type r = PUT"
    using t assms(2)
  proof (cases rule: try_request_cases)
    case (wait st1)
    obtain t0 reqs where m: "umap_get (now, []) (pending_request_map st) key = (t0, reqs)" by fastforce
    have "map_of (pending_request_map st') key = Some (t0, reqs @ [r])" using wait(1) m by (simp add: wait(4) same_pending_def)
    moreover have "map_of (pending_request_map st) key \<noteq> Some (t0, reqs @ [r])" using m by (auto simp: umap_get_def split: option.splits)
    ultimately show ?thesis using same by simp
  next
    case (sent st1 worker)
    with put show ?thesis unfolding in_flight_def by (intro exI [of _ key]) simp
  qed
qed

lemma retry_all_fly:
  assumes "efold (retry_waiting ce now) reqs st = Inr st'" and "list_all (for_key key) reqs"
  shows "pending_request_map st' = pending_request_map st \<and> (\<forall>i. in_flight st i \<longrightarrow> in_flight st' i) \<and>
    (\<forall>r\<in>set reqs. kr_type r = PUT \<longrightarrow> in_flight st' (kr_request_id r))"
  using assms
proof (induction reqs arbitrary: st)
  case (Cons r reqs)
  from Cons.prems obtain st1 where s: "retry_waiting ce now r st = Inr st1" "efold (retry_waiting ce now) reqs st1 = Inr st'"
    by (auto simp: ebind_Inr_iff)
  from Cons.prems have k: "for_key key r" "list_all (for_key key) reqs" by simp_all
  note step = retry_waiting_flies [OF s(1) k(1)] and IH = Cons.IH [OF s(2) k(2)]
  show ?case using IH step(2-4) by auto
qed simp_all

lemma waits_retimed:
  assumes "map_of (pending_request_map st) key = Some (t, reqs)" and "outstanding st i"
  shows "outstanding (st\<lparr>pending_request_map := umap_put key (now, reqs) (pending_request_map st)\<rparr>) i"
proof (cases "waits st i")
  case True
  then obtain k t' rs' x where w: "map_of (pending_request_map st) k = Some (t', rs')" "x \<in> set rs'" "kr_type x = PUT" "kr_request_id x = i"
    unfolding waits_def by blast
  have "map_of (umap_put key (now, reqs) (pending_request_map st)) k = Some (if k = key then now else t', rs')" using w(1) assms(1) by auto
  then show ?thesis using waitsI [of "st\<lparr>pending_request_map := umap_put key (now, reqs) (pending_request_map st)\<rparr>"] w(2-4)
    by (auto simp: outstanding_def)
next
  case False
  with assms(2) show ?thesis by (simp add: outstanding_def in_flight_def)
qed

lemma handle_address_keeps:
  assumes "handle_address ce now response st = Inr st'" and "client_inv st" and "outstanding st i"
  shows "outstanding st' i"
proof -
  from assms(1) obtain key ips where a: "vec_at (kap_addresses response) 0 = Inr (key, ips)" by (auto simp: handle_address_def ebind_Inr_iff)
  show ?thesis
  proof (cases "map_of (pending_request_map st) key")
    case None
    with assms a show ?thesis by (simp add: handle_address_def)
  next
    case (Some v)
    obtain t reqs where v: "v = (t, reqs)" by fastforce
    have ok: "list_all (for_key key) reqs" using assms(2) Some v by (auto simp: client_inv_def waiting_ok_def dest: entries_get)
    show ?thesis
    proof (cases "kap_error response = NO_SERVERS")
      case True
      let ?st = "st\<lparr>pending_request_map := umap_put key (now, reqs) (pending_request_map st)\<rparr>"
      have "outstanding ?st i" using waits_retimed Some assms(3) unfolding v .
      moreover have q: "query_routing_async ce key ?st = Inr st'" using assms(1) a Some v True by (simp add: handle_address_def)
      ultimately show ?thesis by (simp add: outstanding_same(3) [OF query_routing_same(1) [OF q]])
    next
      case False
      let ?st = "st\<lparr>key_address_cache := fold (\<lambda>ip. umap_mod [] key (uset_insert ip)) ips (key_address_cache st)\<rparr>"
      from assms(1) a Some v False obtain st2 where e: "efold (retry_waiting ce now) reqs ?st = Inr st2"
        and st': "st' = st2\<lparr>pending_request_map := umap_erase key (pending_request_map st2)\<rparr>"
        by (auto simp: handle_address_def Let_def ebind_Inr_iff)
      have fly: "pending_request_map st2 = pending_request_map st" "\<And>i. in_flight ?st i \<Longrightarrow> in_flight st2 i"
        "\<forall>r\<in>set reqs. kr_type r = PUT \<longrightarrow> in_flight st2 (kr_request_id r)" using retry_all_fly [OF e ok] by simp_all
      have fl: "in_flight st' = in_flight st2" by (simp add: st' in_flight_def fun_eq_iff)
      from assms(3) consider "in_flight st i" | k t' rs' x where "map_of (pending_request_map st) k = Some (t', rs')" "x \<in> set rs'" "kr_type x = PUT" "kr_request_id x = i"
        unfolding outstanding_def waits_def by blast
      then show ?thesis
      proof cases
        case 1
        then have "in_flight ?st i" by (simp add: in_flight_def)
        then show ?thesis using fly(2) by (simp add: outstanding_def fl)
      next
        case 2
        show ?thesis
        proof (cases "k = key")
          case True
          with 2 Some v fly(3) show ?thesis by (auto simp: outstanding_def fl)
        next
          case other: False
          with 2 fly(1) have "waits st' i" using waitsI [of st' k t' rs' x] by (simp add: st')
          then show ?thesis by (simp add: outstanding_def)
        qed
      qed
    qed
  qed
qed

lemma handle_get_response_keeps:
  assumes "handle_get_response ce now response tuple st = Inr (result, st')" and "client_inv st" and "outstanding st i"
  shows "outstanding st' i"
proof (cases "map_of (pending_get_response_map st) (kt_key tuple)")
  case None
  with assms show ?thesis by (simp add: handle_get_response_def)
next
  case (Some p)
  let ?key = "kt_key tuple"
  obtain retry st1 where c: "check_tuple tuple st = (retry, st1)" by fastforce
  have o1: "outstanding st1 i" using assms(3) outstanding_same(3) [OF check_tuple_inv(1) [OF c]] by simp
  show ?thesis
  proof (cases retry)
    case True
    let ?st = "st1\<lparr>pending_get_response_map := umap_put ?key (p\<lparr>tp := now\<rparr>) (pending_get_response_map st1)\<rparr>"
    from assms(1) Some c True obtain r st2 where t: "try_request ce now (pending_request p) ?st = Inr (r, st2)"
      and st': "st' = st2\<lparr>pending_get_response_map := umap_mod client_pending_default ?key (\<lambda>q. q\<lparr>pending_request := r\<rparr>) (pending_get_response_map st2)\<rparr>"
      by (auto simp: handle_get_response_def Let_def ebind_Inr_iff)
    have "for_key ?key (pending_request p)" using assms(2) Some by (auto simp: client_inv_def get_ok_def dest: entries_get)
    note keeps = try_request_waits(1,2) [OF t this, of i]
    have "outstanding ?st i" using o1 by (simp add: outstanding_def waits_def in_flight_def)
    then have "outstanding st2 i" using keeps by (auto simp: outstanding_def)
    then show ?thesis by (simp add: st' outstanding_def waits_def in_flight_def)
  next
    case False
    with assms(1) Some c have "st' = st1\<lparr>pending_get_response_map := umap_erase ?key (pending_get_response_map st1)\<rparr>"
      by (simp add: handle_get_response_def)
    with o1 show ?thesis by (simp add: outstanding_def waits_def in_flight_def)
  qed
qed

lemma handle_put_response_keeps:
  assumes "handle_put_response ce now response tuple st = Inr (result, st')" and "client_inv st" and "outstanding st i"
  shows "outstanding st' i \<or> reported i result"
proof (cases "map_of (umap_get [] (pending_put_response_map st) (kt_key tuple)) (kp_response_id response)")
  case None
  with assms show ?thesis by (simp add: handle_put_response_def)
next
  case (Some p)
  let ?key = "kt_key tuple" and ?i = "kp_response_id response"
  obtain retry st1 where c: "check_tuple tuple st = (retry, st1)" by fastforce
  have o1: "outstanding st1 i" using assms(3) outstanding_same(3) [OF check_tuple_inv(1) [OF c]] by simp
  show ?thesis
  proof (cases retry)
    case True
    let ?st = "st1\<lparr>pending_put_response_map := umap_mod [] ?key (umap_put ?i (p\<lparr>tp := now\<rparr>)) (pending_put_response_map st1)\<rparr>"
    from assms(1) Some c True obtain r st2 where t: "try_request ce now (pending_request p) ?st = Inr (r, st2)"
      and st': "st' = st2\<lparr>pending_put_response_map := umap_mod [] ?key (umap_mod client_pending_default ?i (\<lambda>q. q\<lparr>pending_request := r\<rparr>)) (pending_put_response_map st2)\<rparr>"
      by (auto simp: handle_put_response_def Let_def ebind_Inr_iff)
    have "puts_ok ?key (umap_get [] (pending_put_response_map st) ?key)"
      using assms(2) by (auto simp: client_inv_def umap_get_def puts_ok_def dest: entries_get split: option.splits)
    with Some have "for_key ?key (pending_request p)" by (auto simp: puts_ok_def put_ok_def dest: entries_get)
    note keeps = try_request_waits(1,2) [OF t this, of i]
    have "outstanding ?st i" using o1 by (rule outstanding_mono) (auto simp: waits_def)
    then have "outstanding st2 i" using keeps by (auto simp: outstanding_def)
    then show ?thesis by (intro disjI1, rule outstanding_mono) (auto simp: st' waits_def)
  next
    case False
    let ?m = "umap_erase ?i (umap_get [] (pending_put_response_map st1) ?key)"
    from assms(1) Some c False have st': "st' = st1\<lparr>pending_put_response_map :=
        if ?m = [] then umap_erase ?key (pending_put_response_map st1) else umap_put ?key ?m (pending_put_response_map st1)\<rparr>"
      and result: "result = [response]"
      by (simp_all add: handle_put_response_def Let_def)
    have get: "umap_get [] (pending_put_response_map st') k = (if k = ?key then ?m else umap_get [] (pending_put_response_map st1) k)" for k
      by (simp add: st')
    show ?thesis
    proof (cases "i = ?i")
      case True
      then show ?thesis by (simp add: result reported_def)
    next
      case other: False
      from o1 have "outstanding st' i" by (rule outstanding_mono) (simp add: st' waits_def, use other in \<open>simp only: get, auto\<close>)
      then show ?thesis ..
    qed
  qed
qed

lemma handle_response_keeps:
  assumes "handle_response ce now response st = Inr (result, st')" and "client_inv st" and "outstanding st i"
  shows "outstanding st' i \<or> reported i result"
  using assms by (auto simp: handle_response_def ebind_Inr_iff dest: handle_get_response_keeps handle_put_response_keeps split: if_splits)

section \<open>Timeouts\<close>

lemma bad_response_id: "generate_bad_response r = Inr x \<Longrightarrow> kp_response_id x = kr_request_id r"
  by (auto simp: generate_bad_response_def ebind_Inr_iff)

lemma reported_append [simp]: "reported i (xs @ ys) \<longleftrightarrow> reported i xs \<or> reported i ys"
  by (auto simp: reported_def)

abbreviation bad_responses :: "KeyRequest list \<Rightarrow> KeyResponse list \<Rightarrow> KeyResponse list res" where
  "bad_responses \<equiv> efold (\<lambda>req result. ebind (generate_bad_response req) (\<lambda>r. Inr (result @ [r])))"

lemma bad_responses_keep: "bad_responses reqs result = Inr result' \<Longrightarrow> reported i result \<Longrightarrow> reported i result'"
  by (erule efold_invariant) (auto simp: ebind_Inr_iff)

lemma bad_responses_report: "bad_responses reqs result = Inr result' \<Longrightarrow> r \<in> set reqs \<Longrightarrow> reported (kr_request_id r) result'"
  by (erule efold_reaches [where Q = "reported (kr_request_id r)"])
    (auto simp: ebind_Inr_iff reported_def dest: bad_response_id)

lemma gc_requests_report:
  assumes "gc_requests ce now st = Inr (result, st')" and "map_of (pending_request_map st) key = Some (t, reqs)" and "expired ce now t" and "r \<in> set reqs"
  shows "reported (kr_request_id r) result"
proof -
  from assms(1) have e: "efold (\<lambda>(key, t, reqs) result. if expired ce now t then bad_responses reqs result else Inr result) (pending_request_map st) [] = Inr result"
    by (auto simp: gc_requests_def ebind_Inr_iff)
  show ?thesis
    by (rule efold_reaches [OF e map_of_SomeD [OF assms(2)], where Q = "reported (kr_request_id r)"])
      (use assms(3,4) in \<open>auto intro: bad_responses_report bad_responses_keep split: if_splits\<close>)
qed

lemma gc_requests_keeps:
  assumes "gc_requests ce now st = Inr (result, st')" and "client_inv st" and "outstanding st i"
  shows "outstanding st' i \<or> reported i result"
proof (cases "waits st i")
  case True
  then obtain key t reqs r where w: "map_of (pending_request_map st) key = Some (t, reqs)" "r \<in> set reqs" "kr_type r = PUT" "kr_request_id r = i"
    unfolding waits_def by blast
  show ?thesis
  proof (cases "expired ce now t")
    case True
    with gc_requests_report [OF assms(1) w(1) _ w(2)] w(4) show ?thesis by simp
  next
    case False
    have m: "pending_request_map st' = filter (\<lambda>(key, t, reqs). \<not> expired ce now t) (pending_request_map st)"
      using assms(1) by (auto simp: gc_requests_def ebind_Inr_iff)
    have "map_of (pending_request_map st') key = Some (t, reqs)"
      unfolding m by (rule map_of_is_SomeI) (use assms(2) False map_of_SomeD [OF w(1)] in \<open>auto simp: client_inv_def intro: distinct_map_filter\<close>)
    with waitsI [OF this w(2,3)] w(4) show ?thesis by (simp add: outstanding_def)
  qed
next
  case False
  with assms(3) have "in_flight st i" by (simp add: outstanding_def)
  moreover have "pending_put_response_map st' = pending_put_response_map st" using assms(1) by (auto simp: gc_requests_def ebind_Inr_iff)
  ultimately show ?thesis by (simp add: outstanding_def in_flight_def)
qed

lemma gc_entry_reports:
  assumes "gc_entry ce now p q = Inr q'"
  shows "reported i (fst q) \<Longrightarrow> reported i (fst q')" and "expired ce now (tp p) \<Longrightarrow> reported (kr_request_id (pending_request p)) (fst q')"
  using assms by (auto simp: gc_entry_def ebind_Inr_iff reported_def dest: bad_response_id split: if_splits prod.splits)

lemma gc_entries_keep:
  "efold (\<lambda>(k, p). gc_entry ce now p) m q = Inr q' \<Longrightarrow> reported i (fst q) \<Longrightarrow> reported i (fst q')"
  by (erule efold_invariant [where P = "\<lambda>q. reported i (fst q)"]) (auto intro: gc_entry_reports(1))

lemma gc_gets_keeps:
  assumes "gc_gets ce now (result, st) = Inr (result', st')"
  shows "outstanding st' = outstanding st" and "reported i result \<Longrightarrow> reported i result'"
proof -
  from assms obtain st1 where s: "efold (\<lambda>(key, p). gc_entry ce now p) (pending_get_response_map st) (result, st) = Inr (result', st1)"
    "st' = st1\<lparr>pending_get_response_map := filter (\<lambda>(key, p). \<not> expired ce now (tp p)) (pending_get_response_map st)\<rparr>"
    by (auto simp: gc_gets_def ebind_Inr_iff)
  have "outstanding st1 = outstanding st" using gc_gets_same [OF s(1)] outstanding_same(3) by blast
  then show "outstanding st' = outstanding st" by (simp add: s(2) outstanding_def waits_def in_flight_def fun_eq_iff)
  show "reported i result \<Longrightarrow> reported i result'" using gc_entries_keep [OF s(1)] by simp
qed

lemma gc_puts_keeps:
  assumes "gc_puts ce now (result, st) = Inr (result', st')" and "client_inv st" and "outstanding st i"
  shows "outstanding st' i \<or> reported i result'"
proof -
  from assms(1) obtain st1 where s: "efold (\<lambda>(key, m). efold (\<lambda>(i, p). gc_entry ce now p) m) (pending_put_response_map st) (result, st) = Inr (result', st1)"
    and st': "st' = st1\<lparr>pending_put_response_map := map (\<lambda>(key, m). (key, filter (\<lambda>(i, p). \<not> expired ce now (tp p)) m)) (pending_put_response_map st)\<rparr>"
    by (auto simp: gc_puts_def ebind_Inr_iff)
  from gc_puts_same [OF s] have same: "same_pending st st1" by simp
  from assms(3) consider "waits st i" | key m p where "map_of (pending_put_response_map st) key = Some m" "map_of m i = Some p"
    unfolding outstanding_def in_flight_def by blast
  then show ?thesis
  proof cases
    case 1
    moreover have "pending_request_map st' = pending_request_map st" using same by (simp add: st' same_pending_def)
    ultimately show ?thesis by (simp add: outstanding_def waits_def)
  next
    case 2
    have ok: "puts_ok key m" using assms(2) 2(1) by (auto simp: client_inv_def dest: entries_get)
    then have id: "kr_request_id (pending_request p) = i" using 2(2) by (auto simp: puts_ok_def put_ok_def dest: entries_get)
    show ?thesis
    proof (cases "expired ce now (tp p)")
      case True
      have "reported i (fst (result', st1))"
      proof (rule efold_reaches [OF s map_of_SomeD [OF 2(1)], where Q = "\<lambda>q. reported i (fst q)"])
        fix q q'
        assume "(\<lambda>(key, m). efold (\<lambda>(i, p). gc_entry ce now p) m) (key, m) q = Inr q'"
        then have e: "efold (\<lambda>(i, p). gc_entry ce now p) m q = Inr q'" by simp
        show "reported i (fst q')"
          by (rule efold_reaches [OF e map_of_SomeD [OF 2(2)], where Q = "\<lambda>q. reported i (fst q)"])
            (use gc_entry_reports True id in \<open>auto split: prod.splits\<close>)
      qed (auto intro: gc_entries_keep)
      then show ?thesis by simp
    next
      case False
      have "map_of (filter (\<lambda>(i, p). \<not> expired ce now (tp p)) m) i = Some p"
        by (rule map_of_is_SomeI) (use ok False map_of_SomeD [OF 2(2)] in \<open>auto simp: puts_ok_def intro: distinct_map_filter\<close>)
      then have "in_flight st' i" unfolding in_flight_def by (intro exI [of _ key]) (simp add: st' map_of_map_snd 2(1))
      then show ?thesis by (simp add: outstanding_def)
    qed
  qed
qed

lemma gc_puts_reported:
  assumes "gc_puts ce now (result, st) = Inr (result', st')" and "reported i result"
  shows "reported i result'"
proof -
  from assms(1) obtain st1 where s: "efold (\<lambda>(key, m). efold (\<lambda>(i, p). gc_entry ce now p) m) (pending_put_response_map st) (result, st) = Inr (result', st1)"
    by (auto simp: gc_puts_def ebind_Inr_iff)
  have "reported i (fst (result', st1))"
    by (rule efold_invariant [OF s, where P = "\<lambda>q. reported i (fst q)"]) (use assms(2) in \<open>auto intro: gc_entries_keep\<close>)
  then show ?thesis by simp
qed

lemma on_address_keeps:
  "on_message m (handle_address ce now) st = Inr st1 \<Longrightarrow> client_inv st \<Longrightarrow> outstanding st i \<Longrightarrow> outstanding st1 i"
  by (auto simp: on_message_def dest: handle_address_keeps split: option.splits)

lemma receive_async_keeps:
  assumes "receive_async ce ib st = Inr (result', st')" and "client_inv st" and "outstanding st i"
  shows "outstanding st' i \<or> reported i result'"
  using assms(1)
proof (rule receive_async_steps)
  fix st1 result st2 late st3 more st4
  assume s: "on_message (cl_address_in ib) (handle_address ce (cl_clock ib)) st = Inr st1"
    "(case cl_response_in ib of None \<Rightarrow> Inr ([], st1) | Some response \<Rightarrow> handle_response ce (cl_clock ib) response st1) = Inr (result, st2)"
    "gc_requests ce (cl_clock ib) st2 = Inr (late, st3)" "gc_gets ce (cl_clock ib) (result @ late, st3) = Inr (more, st4)"
    "gc_puts ce (cl_clock ib) (more, st4) = Inr (result', st')"
  have i1: "client_inv st1" using s(1) assms(2) by (rule on_address_inv)
  have i2: "client_inv st2" using i1 s(2) by (auto split: option.splits intro: handle_response_inv)
  have i3: "client_inv st3" using s(3) i2 by (rule gc_requests_inv)
  have i4: "client_inv st4" using s(4) i3 by (rule gc_gets_inv)
  have "outstanding st1 i" using s(1) assms(2,3) by (rule on_address_keeps)
  then have "outstanding st2 i \<or> reported i result" using s(2) i1 by (auto split: option.splits dest: handle_response_keeps)
  then have "outstanding st3 i \<or> reported i (result @ late)" using gc_requests_keeps [OF s(3) i2] by auto
  then have "outstanding st4 i \<or> reported i more" using gc_gets_keeps [OF s(4)] by auto
  then show "outstanding st' i \<or> reported i result'" using gc_puts_keeps [OF s(5) i4] gc_puts_reported [OF s(5)] by blast
qed

lemma put_async_keeps:
  assumes "put_async ce now key payload ty st = Inr (i, st')"
  shows "outstanding st' i" and "outstanding st j \<Longrightarrow> outstanding st' j"
proof -
  from assms obtain r st1 r2 where s: "same_pending st st1" "for_key key r" "kr_type r = PUT"
    "try_request ce now r st1 = Inr (r2, st')" "i = kr_request_id r2"
    by (rule put_async_steps)
  note keeps = try_request_waits [OF s(4,2)]
  have "kr_request_id r2 = kr_request_id r" using s(4,2) by (rule try_request_cases) simp_all
  with keeps(4) s(3,5) show "outstanding st' i" by simp
  show "outstanding st j \<Longrightarrow> outstanding st' j" using keeps(1,2) outstanding_same(1,2) [OF s(1)] by (auto simp: outstanding_def)
qed

lemma get_async_keeps:
  assumes "get_async ce now key st = Inr st'" and "outstanding st i"
  shows "outstanding st' i"
  using assms(1)
proof (cases rule: get_async_steps)
  case (request r st1 r2)
  with try_request_waits(1,2) [OF request(4,3)] outstanding_same(1,2) [OF request(1)] assms(2) show ?thesis by (auto simp: outstanding_def)
qed (use assms in simp)

lemma client_keeps:
  assumes "client ce st rs st'" and "client_inv st" and "outstanding st i"
  shows "outstanding st' i \<or> reported i rs"
  using assms
proof induction
  case (receive st rs st1 ib result st2)
  have "client_inv st1" using receive.hyps(1) receive.prems(1) by (rule client_keeps_inv)
  with receive.IH receive.prems receive_async_keeps [OF receive.hyps(2)] show ?case by auto
next
  case (clear st rs st1)
  then show ?case by (simp add: clear_cache_def outstanding_def waits_def in_flight_def)
qed (auto dest: put_async_keeps(2) get_async_keeps)

lemma draw_total: "n \<noteq> 0 \<Longrightarrow> \<exists>j seed. j < n \<and> draw ce n st = Inr (j, st\<lparr>cl_seed := seed\<rparr>)"
  by (auto simp: draw_def Let_def split: prod.splits)

text \<open>A new client that puts asks a routing thread and keeps the request.\<close>

lemma first_put:
  assumes "routing_threads_of ce \<noteq> []"
  shows "\<exists>i q seed a. put_async ce now key payload ty (client_init ce time) =
    Inr (i, \<lparr>cl_rid = 4, cl_seed = seed, key_address_cache = [],
      pending_request_map = [(key, now, [put_request key ty payload (ut_response_connect_address (cl_ut ce)) i])],
      pending_get_response_map = [], pending_put_response_map = [],
      cl_sent = [(a, AddressRequest \<lparr>kar_response_address = ut_key_address_connect_address (cl_ut ce), kar_keys = [key], kar_request_id = q\<rparr>)]\<rparr>)"
proof -
  let ?n = "length (routing_threads_of ce)"
  from draw_total [of ?n ce] assms obtain j seed where d: "j < ?n" "draw ce ?n ((client_init ce time)\<lparr>cl_rid := 4\<rparr>) = Inr (j, (client_init ce time)\<lparr>cl_rid := 4, cl_seed := seed\<rparr>)"
    by fastforce
  have rid: "get_request_id ce (client_init ce time) = (ut_ip (cl_ut ce) @ '':'' @ to_string (ut_tid (cl_ut ce)) @ ''_'' @ to_string (1 :: u32), (client_init ce time)\<lparr>cl_rid := 2\<rparr>)"
    "get_request_id ce ((client_init ce time)\<lparr>cl_rid := 2\<rparr>) = (ut_ip (cl_ut ce) @ '':'' @ to_string (ut_tid (cl_ut ce)) @ ''_'' @ to_string (3 :: u32), (client_init ce time)\<lparr>cl_rid := 4\<rparr>)"
    by (simp_all add: get_request_id_def client_init_def)
  show ?thesis
    unfolding put_async_def prepare_data_request_def rid(1) Let_def split_conv try_request_def get_worker_thread_def get_all_worker_threads_def
      query_routing_async_def get_routing_thread_def
    using d(2) rid(2) by (auto simp: KeyRequest_default_def put_request_def vec_at_def client_init_def cl_send_def umap_mod_def umap_put_def umap_has_def umap_get_def)
qed

definition example_client_env :: client_env where
  "example_client_env = \<lparr>cl_env = example_env, routing_threads_of = [\<lparr>urt_ip = ''r'', urt_tid = 0\<rparr>],
     cl_ut = \<lparr>ut_ip = ''u'', ut_tid = 0\<rparr>, cl_timeout = 1\<rparr>"

lemma pending_example:
  "\<exists>i st. put_async example_client_env 1 ''k'' ''v'' LWW (client_init example_client_env 0) = Inr (i, st) \<and>
    pending_request_map st = [(''k'', 1, [put_request ''k'' LWW ''v'' (ut_response_connect_address (cl_ut example_client_env)) i])] \<and>
    key_address_cache st = [] \<and> pending_get_response_map st = [] \<and> pending_put_response_map st = []"
proof -
  have "routing_threads_of example_client_env \<noteq> []" by (simp add: example_client_env_def)
  from first_put [OF this, of 1 "''k''" "''v''" LWW 0] show ?thesis by (elim exE) (intro exI conjI, assumption, simp_all)
qed

text \<open>C6: No write is lost. Whatever a client does after \<open>put_async\<close> returned an identifier (other puts and gets, answers
  and addresses in any order, retries, timeouts, clearing its cache), the write is still pending, waiting for addresses or in
  flight, or some \<open>receive_async\<close> has returned a response with that identifier.\<close>

theorem no_put_lost:
  assumes "client ce (client_init ce time) rs st" and "put_async ce now key payload ty st = Inr (i, st1)" and "client ce st1 rs' st'"
  shows "outstanding st' i \<or> reported i rs'"
proof -
  have "client_inv st" using assms(1) client_init_inv by (rule client_keeps_inv)
  with assms(2) have "client_inv st1" by (rule put_async_inv)
  with assms(3) show ?thesis using put_async_keeps(1) [OF assms(2)] by (rule client_keeps)
qed

theorem no_put_lost_witness:
  "\<exists>i st1 result st2. put_async example_client_env 1 ''k'' ''v'' LWW (client_init example_client_env 0) = Inr (i, st1) \<and>
    receive_async example_client_env \<lparr>cl_address_in = None, cl_response_in = None, cl_clock = 2002\<rparr> st1 = Inr (result, st2) \<and>
    \<not> outstanding st2 i \<and> reported i result"
proof -
  from pending_example obtain i st where p: "put_async example_client_env 1 ''k'' ''v'' LWW (client_init example_client_env 0) = Inr (i, st)"
    and st: "pending_request_map st = [(''k'', 1, [put_request ''k'' LWW ''v'' (ut_response_connect_address (cl_ut example_client_env)) i])]"
      "pending_get_response_map st = []" "pending_put_response_map st = []"
    by blast
  have "\<exists>result. receive_async example_client_env \<lparr>cl_address_in = None, cl_response_in = None, cl_clock = 2002\<rparr> st = Inr (result, st\<lparr>pending_request_map := []\<rparr>)"
    using st by (simp add: receive_async_def on_message_def gc_requests_def gc_gets_def gc_puts_def expired_def example_client_env_def
        put_request_def generate_bad_response_def vec_at_def)
  then obtain result where r: "receive_async example_client_env \<lparr>cl_address_in = None, cl_response_in = None, cl_clock = 2002\<rparr> st = Inr (result, st\<lparr>pending_request_map := []\<rparr>)"
    by blast
  have o: "\<not> outstanding (st\<lparr>pending_request_map := []\<rparr>) i" using st by (simp add: outstanding_def waits_def in_flight_def)
  have "reported i result" using no_put_lost [OF client.start p client.receive [OF client.start r]] o by simp
  with p r o show ?thesis by blast
qed

text \<open>Entries whose deadline has passed.\<close>

definition overdue :: "client_env \<Rightarrow> u64 \<Rightarrow> client_state \<Rightarrow> bool" where
  "overdue ce now st \<longleftrightarrow> (\<exists>(key, t, reqs)\<in>set (pending_request_map st). expired ce now t) \<or>
     (\<exists>(key, p)\<in>set (pending_get_response_map st). expired ce now (tp p)) \<or>
     (\<exists>(key, m)\<in>set (pending_put_response_map st). \<exists>(i, p)\<in>set m. expired ce now (tp p))"

lemma receive_async_not_overdue:
  assumes "receive_async ce ib st = Inr (result', st')"
  shows "\<not> overdue ce (cl_clock ib) st'"
  using assms
proof (rule receive_async_steps)
  fix st1 result st2 late st3 more st4
  assume s: "gc_requests ce (cl_clock ib) st2 = Inr (late, st3)" "gc_gets ce (cl_clock ib) (result @ late, st3) = Inr (more, st4)"
    "gc_puts ce (cl_clock ib) (more, st4) = Inr (result', st')"
  from s(1) have r: "pending_request_map st3 = filter (\<lambda>(key, t, reqs). \<not> expired ce (cl_clock ib) t) (pending_request_map st2)"
    by (auto simp: gc_requests_def ebind_Inr_iff)
  from s(2) obtain g where "same_pending st3 g" and st4: "st4 = g\<lparr>pending_get_response_map := filter (\<lambda>(key, p). \<not> expired ce (cl_clock ib) (tp p)) (pending_get_response_map st3)\<rparr>"
    by (auto simp: gc_gets_def ebind_Inr_iff dest: gc_gets_same)
  from s(3) obtain h where "same_pending st4 h" and st': "st' = h\<lparr>pending_put_response_map :=
      map (\<lambda>(key, m). (key, filter (\<lambda>(i, p). \<not> expired ce (cl_clock ib) (tp p)) m)) (pending_put_response_map st4)\<rparr>"
    by (auto simp: gc_puts_def ebind_Inr_iff dest: gc_puts_same)
  with \<open>same_pending st3 g\<close> st4 r show "\<not> overdue ce (cl_clock ib) st'" by (auto simp: overdue_def same_pending_def)
qed

text \<open>C7: Every write is answered in time. A call of \<open>receive_async\<close> leaves no pending request whose deadline has passed at
  the call's clock; so a write that was pending before the call is, after it, reported to the caller or pending with
  its deadline ahead.\<close>

theorem put_answered_in_time:
  assumes "client ce (client_init ce time) rs st" and "outstanding st i" and "receive_async ce ib st = Inr (result, st')"
  shows "\<not> overdue ce (cl_clock ib) st' \<and> (reported i result \<or> outstanding st' i)"
  using receive_async_not_overdue [OF assms(3)] receive_async_keeps [OF assms(3) client_keeps_inv [OF assms(1) client_init_inv] assms(2)] by blast

theorem put_answered_in_time_witness:
  "\<exists>i st result st'. outstanding st i \<and>
    receive_async example_client_env \<lparr>cl_address_in = None, cl_response_in = None, cl_clock = 1002\<rparr> st = Inr (result, st') \<and>
    \<not> overdue example_client_env 1002 st' \<and> \<not> reported i result \<and> outstanding st' i"
proof -
  from pending_example obtain i st where p: "put_async example_client_env 1 ''k'' ''v'' LWW (client_init example_client_env 0) = Inr (i, st)"
    and st: "pending_request_map st = [(''k'', 1, [put_request ''k'' LWW ''v'' (ut_response_connect_address (cl_ut example_client_env)) i])]"
      "pending_get_response_map st = []" "pending_put_response_map st = []"
    by blast
  have r: "receive_async example_client_env \<lparr>cl_address_in = None, cl_response_in = None, cl_clock = 1002\<rparr> st = Inr ([], st)"
    using st by (simp add: receive_async_def on_message_def gc_requests_def gc_gets_def gc_puts_def expired_def example_client_env_def)
  have o: "outstanding st i" using p by (rule put_async_keeps(1))
  have "\<not> reported i []" by (simp add: reported_def)
  with put_answered_in_time [OF client.put [OF client.start p] o r] o r show ?thesis by auto
qed

text \<open>The identifiers a client draws.\<close>

lemma get_request_id_rid:
  assumes "even (unat (cl_rid st))"
  shows "get_request_id ce st = (ut_ip (cl_ut ce) @ '':'' @ to_string (ut_tid (cl_ut ce)) @ ''_'' @ to_string (cl_rid st + 1), st\<lparr>cl_rid := cl_rid st + 2\<rparr>)"
proof -
  have "unat (- 1 :: u32) = 4294967295" by (simp add: unsigned_minus_1_eq_mask mask_eq_exp_minus_1)
  with assms have "cl_rid st \<noteq> - 1" by auto
  then have "1 + cl_rid st \<noteq> 0" by (metis add_eq_0_iff)
  then have "unat (cl_rid st + 1) = Suc (unat (cl_rid st))" using unatSuc [of "cl_rid st"] by (simp add: add.commute)
  then have "unat ((cl_rid st + 1) mod 10000) = Suc (unat (cl_rid st)) mod 10000" by (simp add: unat_mod_distrib)
  moreover have "\<not> 10000 dvd Suc (unat (cl_rid st))" using assms dvd_trans [of 2 10000 "Suc (unat (cl_rid st))"] by auto
  ultimately have "(cl_rid st + 1) mod 10000 \<noteq> 0" by (metis dvd_eq_mod_eq_0 unat_0)
  then show ?thesis by (simp add: get_request_id_def)
qed

abbreviation after_ids :: "client_env \<Rightarrow> nat \<Rightarrow> client_state \<Rightarrow> client_state" where
  "after_ids ce n \<equiv> (\<lambda>st. snd (get_request_id ce st)) ^^ n"

lemma even_double: "even (unat (of_nat (2 * n) :: u32))"
  unfolding unat_of_nat by (simp add: dvd_mod_iff)

lemma rid_after: "cl_rid (after_ids ce n (client_init ce time)) = of_nat (2 * n)"
proof (induction n)
  case (Suc n)
  have "even (unat (cl_rid (after_ids ce n (client_init ce time))))" unfolding Suc by (rule even_double)
  then show ?case using Suc by (simp add: get_request_id_rid)
qed (simp add: client_init_def)

text \<open>C39: The client's request counter advances by two and is always odd when it becomes part of an identifier, so the reset at
  multiples of 10,000 never happens: two requests of a client get the same identifier exactly when their numbers
  differ by a multiple of \<open>2\<^sup>3\<^sup>1\<close>.\<close>

theorem request_id_period:
  "fst (get_request_id ce (((\<lambda>st. snd (get_request_id ce st)) ^^ m) (client_init ce time))) =
     fst (get_request_id ce (((\<lambda>st. snd (get_request_id ce st)) ^^ n) (client_init ce time))) \<longleftrightarrow> m mod 2 ^ 31 = n mod 2 ^ 31"
proof -
  have e: "even (unat (cl_rid (after_ids ce k (client_init ce time))))" for k
    unfolding rid_after by (rule even_double)
  have "(of_nat (2 * m) :: u32) = of_nat (2 * n) \<longleftrightarrow> 2 * m mod 2 ^ 32 = 2 * n mod 2 ^ 32" unfolding word_of_nat_eq_iff take_bit_eq_mod by simp
  also have "\<dots> \<longleftrightarrow> 2 * (m mod 2 ^ 31) = 2 * (n mod 2 ^ 31)" by (simp add: mult_mod_right)
  also have "\<dots> \<longleftrightarrow> m mod 2 ^ 31 = n mod 2 ^ 31" by (rule mult_cancel_left [THEN trans]) simp
  finally show ?thesis using e by (simp add: get_request_id_rid rid_after)
qed

text \<open>C40: A routing answer that lists no address for a key while requests of the key wait and none of its addresses is cached
  makes the client append to the very list of requests it is running over, which C++ leaves undefined.\<close>

theorem empty_address_list_undefined:
  assumes "client ce (client_init ce time) rs st" and "map_of (pending_request_map st) key = Some (t, r # reqs)"
    and "umap_get [] (key_address_cache st) key = []"
  shows "handle_address ce now \<lparr>kap_addresses = [(key, [])], kap_error = NO_ERROR, kap_response_id = q\<rparr> st = Inl Invalid_iterator"
proof -
  have "client_inv st" using assms(1) client_init_inv by (rule client_keeps_inv)
  then have "for_key key r" using assms(2) by (auto simp: client_inv_def waiting_ok_def dest: entries_get)
  then obtain tuple where tuple: "kr_tuples r = [tuple]" "kt_key tuple = key" by (auto simp: for_key_def)
  have has: "umap_has (pending_request_map st) key" using assms(2) by (simp add: umap_has_def)
  have "try_request ce now r st = Inr (r, st\<lparr>pending_request_map := umap_mod (now, []) key (\<lambda>(t, reqs). (t, reqs @ [r])) (pending_request_map st)\<rparr>)"
    using has assms(3) by (simp add: try_request_def tuple vec_at_def get_worker_thread_def get_all_worker_threads_def)
  moreover have "umap_mod (now, []) key (\<lambda>(t, reqs). (t, reqs @ [r])) (pending_request_map st) \<noteq> pending_request_map st" (is "?m \<noteq> _")
  proof
    assume eq: "?m = pending_request_map st"
    have "map_of ?m key = Some (t, r # reqs @ [r])" using assms(2) by (simp add: umap_get_def)
    with assms(2) show False by (simp add: eq)
  qed
  ultimately have "retry_waiting ce now r st = Inl Invalid_iterator" by (simp add: retry_waiting_def)
  with assms(2) show ?thesis by (simp add: handle_address_def vec_at_def)
qed

theorem empty_address_list_undefined_witness:
  "\<exists>st. handle_address example_client_env 2 \<lparr>kap_addresses = [(''k'', [])], kap_error = NO_ERROR, kap_response_id = ''x''\<rparr> st = Inl Invalid_iterator"
proof -
  from pending_example obtain i st where p: "put_async example_client_env 1 ''k'' ''v'' LWW (client_init example_client_env 0) = Inr (i, st)"
    and st: "pending_request_map st = [(''k'', 1, [put_request ''k'' LWW ''v'' (ut_response_connect_address (cl_ut example_client_env)) i])]"
      "key_address_cache st = []"
    by blast
  have "map_of (pending_request_map st) ''k'' = Some (1, [put_request ''k'' LWW ''v'' (ut_response_connect_address (cl_ut example_client_env)) i])"
    "umap_get [] (key_address_cache st) ''k'' = []" by (simp_all add: st)
  with empty_address_list_undefined [OF client.put [OF client.start p]] show ?thesis by blast
qed

end
