(* ===== verification/Client_Cluster.thy ===== *)
theory Client_Cluster
  imports Client_Proofs
begin

text \<open>
  A put of the asynchronous client through the whole system: the client asks a routing thread for the addresses of the
  key, sends the put to one of the addresses of the answer, a storage thread serves it, and the client hands the answer
  to its caller. The client is \<open>kvs_client.hpp\<close>, the routing thread \<open>address_handler.cpp\<close>, the storage thread
  \<open>user_request_handler.cpp\<close>.
\<close>

section \<open>A request that carries the size of the client's cache\<close>

definition with_cache_size :: "u32 \<Rightarrow> KeyRequest \<Rightarrow> KeyRequest" where
  "with_cache_size c r = r\<lparr>kr_tuples := map (\<lambda>t. t\<lparr>kt_address_cache_size := c\<rparr>) (kr_tuples r)\<rparr>"

definition flag_stale :: "u32 \<Rightarrow> nat \<Rightarrow> KeyTuple \<Rightarrow> KeyTuple" where
  "flag_stale c n tp1 = (if c > 0 \<and> unat c \<noteq> n then tp1\<lparr>kt_invalidate := True\<rparr> else tp1)"

lemma owner_tuple_cached:
  assumes "responsible ke key (kSelfTierIdVector (kv_cfg ke)) st = Inr (ts, True, st1)" and "sset_has ts (wt ke)"
    and "kr_tuples request = [tuple]" and "kt_key tuple = key" and "kr_response_address request \<noteq> []"
  shows "user_request_handler ke now request st =
      ebind (if kr_type request = GET then answer_get ke (KeyTuple_default\<lparr>kt_key := key\<rparr>) st1
             else if kr_type request = PUT
             then answer_put ke (kt_lattice_type tuple) (kt_payload tuple) (KeyTuple_default\<lparr>kt_key := key\<rparr>) st1
             else Inr (KeyTuple_default\<lparr>kt_key := key\<rparr>, st1)) (\<lambda>(tp1, st2).
        Inr (send (kr_response_address request)
               (Response (answer_of (kr_type request) (kr_request_id request) (flag_stale (kt_address_cache_size tuple) (length ts) tp1)))
               (track_access now key st2)))"
proof -
  let ?a = "if kr_type request = GET then answer_get ke (KeyTuple_default\<lparr>kt_key := key\<rparr>) st1
             else if kr_type request = PUT
             then answer_put ke (kt_lattice_type tuple) (kt_payload tuple) (KeyTuple_default\<lparr>kt_key := key\<rparr>) st1
             else Inr (KeyTuple_default\<lparr>kt_key := key\<rparr>, st1)"
  have "user_request_tuple ke now request tuple (resp, st) =
      ebind ?a (\<lambda>(tp1, st2). Inr (resp\<lparr>kp_tuples := kp_tuples resp @ [flag_stale (kt_address_cache_size tuple) (length ts) tp1]\<rparr>, track_access now key st2))" for resp
    unfolding user_request_tuple_def Let_def split_conv assms(4) assms(1) ebind_simps flag_stale_def using assms(2) by simp
  then show ?thesis
    unfolding user_request_handler_def assms(3)
    using assms(5) by (cases ?a) (auto simp: answer_of_def KeyResponse_default_def)
qed

lemma put_with_cache_size:
  assumes "known_owners ke st key (kSelfTierIdVector (kv_cfg ke)) ts" and "sset_has ts (wt ke)" and "addr \<noteq> []"
    and "self_serializers ke ty = Some sr" and "\<not> type_conflict st key ty"
  shows "\<exists>st'. user_request_handler ke now (with_cache_size c (put_request key ty payload addr i)) st = Inr st' \<and>
    stored_key_map st' = umap_put key \<lparr>kp_size = fst (Serializer_put (kv_pb ke) (kv_disk ke) sr key payload (store st)), kp_lattice = ty\<rparr>
      (stored_key_map st) \<and>
    store st' = snd (Serializer_put (kv_pb ke) (kv_disk ke) sr key payload (store st)) \<and>
    key \<in> set (local_changeset st') \<and>
    sent st' = sent st @ [(addr, Response (answer_of PUT i (flag_stale c (length ts) (KeyTuple_default\<lparr>kt_key := key, kt_lattice_type := ty\<rparr>))))]"
proof -
  let ?r = "put_request key ty payload addr i"
  let ?t = "KeyTuple_default\<lparr>kt_key := key, kt_lattice_type := ty, kt_payload := payload\<rparr>"
  from owner_put [OF assms, of now payload i] obtain st0 where
    o: "user_request_handler ke now ?r st = Inr st0" "store st0 = snd (Serializer_put (kv_pb ke) (kv_disk ke) sr key payload (store st))"
      "stored_key_map st0 = umap_put key \<lparr>kp_size = fst (Serializer_put (kv_pb ke) (kv_disk ke) sr key payload (store st)), kp_lattice = ty\<rparr> (stored_key_map st)"
      "key \<in> set (local_changeset st0)" "sent st0 = sent st @ [(addr, Response (answer_of PUT i (KeyTuple_default\<lparr>kt_key := key, kt_lattice_type := ty\<rparr>)))]"
    by blast
  from responsible_known [OF assms(1)] obtain st1 where r: "responsible ke key (kSelfTierIdVector (kv_cfg ke)) st = Inr (ts, True, st1)" by blast
  note h = owner_tuple_cached [OF r assms(2)]
  let ?a = "answer_put ke ty payload (KeyTuple_default\<lparr>kt_key := key\<rparr>) st1"
  have "user_request_handler ke now ?r st = ebind ?a (\<lambda>(tp1, st2). Inr (send addr (Response (answer_of PUT i tp1)) (track_access now key st2)))"
    using h [of ?r ?t now] assms(3) by (simp add: put_request_def KeyTuple_default_def flag_stale_def)
  with o(1) have "ebind ?a (\<lambda>(tp1, st2). Inr (send addr (Response (answer_of PUT i tp1)) (track_access now key st2))) = Inr st0" by (simp only:)
  then obtain tp1 st2 where a: "?a = Inr (tp1, st2)" and st0: "st0 = send addr (Response (answer_of PUT i tp1)) (track_access now key st2)"
    by (auto simp: ebind_Inr_iff)
  from o(5) st0 have s2: "sent st2 = sent st" and tp1: "answer_of PUT i tp1 = answer_of PUT i (KeyTuple_default\<lparr>kt_key := key, kt_lattice_type := ty\<rparr>)"
    by (simp_all add: send_def track_access_def)
  then have tp1': "tp1 = KeyTuple_default\<lparr>kt_key := key, kt_lattice_type := ty\<rparr>" by (simp add: answer_of_def KeyResponse_default_def)
  have "user_request_handler ke now (with_cache_size c ?r) st =
      Inr (send addr (Response (answer_of PUT i (flag_stale c (length ts) tp1))) (track_access now key st2))"
    using h [of "with_cache_size c ?r" "?t\<lparr>kt_address_cache_size := c\<rparr>" now] a assms(3)
    by (simp add: with_cache_size_def put_request_def KeyTuple_default_def)
  with o st0 s2 tp1' show ?thesis by (simp add: send_def track_access_def)
qed

section \<open>The steps of the client\<close>

lemma fresh_not_expired [simp]: "\<not> expired ce now now"
  by (simp add: expired_def)

lemma cache_filled: "fold (\<lambda>ip. umap_mod [] key (uset_insert ip)) ips [(key, ws)] = [(key, fold uset_insert ips ws)]"
  by (induction ips arbitrary: ws) (simp_all add: umap_mod_def umap_put_def umap_get_def)

lemma cache_fresh: "ips \<noteq> [] \<Longrightarrow> fold (\<lambda>ip. umap_mod [] key (uset_insert ip)) ips [] = [(key, fold uset_insert ips [])]"
  by (cases ips) (simp_all add: umap_mod_def umap_put_def umap_get_def cache_filled uset_insert_def)

text \<open>The addresses arrive: the waiting put goes to one of them.\<close>

lemma addresses_arrive:
  assumes "ips \<noteq> []" and "[] \<notin> set ips"
    and "pending_request_map st = [(key, t, [put_request key ty payload addr i])]" and "key_address_cache st = []"
    and "pending_get_response_map st = []" and "pending_put_response_map st = []"
  shows "\<exists>w\<in>set ips. \<exists>c st'.
    receive_async ce \<lparr>cl_address_in = Some \<lparr>kap_addresses = [(key, ips)], kap_error = NO_ERROR, kap_response_id = q\<rparr>, cl_response_in = None, cl_clock = now\<rparr> st =
      Inr ([], st') \<and> pending_request_map st' = [] \<and> pending_get_response_map st' = [] \<and>
    pending_put_response_map st' = [(key, [(i, \<lparr>tp = now, worker_addr = w, pending_request = with_cache_size c (put_request key ty payload addr i)\<rparr>)])] \<and>
    cl_sent st' = cl_sent st @ [(w, Request (with_cache_size c (put_request key ty payload addr i)))]"
proof -
  let ?ws = "fold uset_insert ips []" and ?r = "put_request key ty payload addr i"
  let ?c = "of_nat (length ?ws)"
  have ws: "set ?ws = set ips" by simp
  then have ne: "?ws \<noteq> []" using assms(1) by (metis set_empty)
  let ?st = "st\<lparr>key_address_cache := [(key, ?ws)]\<rparr>"
  from draw_total [of "length ?ws" ce ?st] ne obtain j seed where d: "j < length ?ws" "draw ce (length ?ws) ?st = Inr (j, ?st\<lparr>cl_seed := seed\<rparr>)" by auto
  let ?w = "?ws ! j"
  have w: "?w \<in> set ips" using d(1) ws nth_mem by blast
  with assms(2) have wne: "?w \<noteq> []" by metis
  have g: "get_worker_thread ce key ?st = Inr (?w, ?st\<lparr>cl_seed := seed\<rparr>)"
    using ne d(2) by (simp add: get_worker_thread_def get_all_worker_threads_def umap_get_def)
  let ?p = "\<lparr>tp = now, worker_addr = ?w, pending_request = with_cache_size ?c ?r\<rparr>"
  let ?st1 = "?st\<lparr>cl_seed := seed, cl_sent := cl_sent st @ [(?w, Request (with_cache_size ?c ?r))], pending_put_response_map := [(key, [(i, ?p)])]\<rparr>"
  have t: "try_request ce now ?r ?st = Inr (with_cache_size ?c ?r, ?st1)"
    unfolding try_request_def using g wne assms(6)
    by (simp add: put_request_def vec_at_def KeyTuple_default_def with_cache_size_def cl_send_def umap_mod_def umap_put_def umap_get_def note_sent_def Let_def)
  have h: "handle_address ce now \<lparr>kap_addresses = [(key, ips)], kap_error = NO_ERROR, kap_response_id = q\<rparr> st = Inr (?st1\<lparr>pending_request_map := []\<rparr>)"
    using t assms(1,3,4) by (simp add: handle_address_def vec_at_def cache_fresh retry_waiting_def umap_erase_def)
  have "receive_async ce \<lparr>cl_address_in = Some \<lparr>kap_addresses = [(key, ips)], kap_error = NO_ERROR, kap_response_id = q\<rparr>, cl_response_in = None, cl_clock = now\<rparr> st =
      Inr ([], ?st1\<lparr>pending_request_map := []\<rparr>)"
    unfolding receive_async_def on_message_def using h assms(5) by (simp add: gc_requests_def gc_gets_def gc_puts_def gc_entry_def)
  with w assms(5) show ?thesis by (intro bexI [of _ ?w] exI [of _ ?c] exI [of _ "?st1\<lparr>pending_request_map := []\<rparr>"]) simp_all
qed

text \<open>The answer arrives: it is the result of the call and nothing is left pending.\<close>

lemma answer_arrives:
  assumes "pending_request_map st = []" and "pending_get_response_map st = []" and "pending_put_response_map st = [(key, [(i, p)])]"
    and "kt_key tuple = key" and "kt_error tuple \<noteq> WRONG_THREAD"
  shows "\<exists>st'. receive_async ce \<lparr>cl_address_in = None, cl_response_in = Some (answer_of PUT i tuple), cl_clock = now\<rparr> st = Inr ([answer_of PUT i tuple], st') \<and>
    pending_request_map st' = [] \<and> pending_put_response_map st' = []"
  using assms
  by (simp add: receive_async_def on_message_def handle_response_def answer_of_def KeyResponse_default_def vec_at_def handle_put_response_def
      check_tuple_def invalidate_cache_for_key_def umap_get_def umap_erase_def gc_requests_def gc_gets_def gc_puts_def)

section \<open>A put from the client to the store and back\<close>

text \<open>A storage thread that would accept a put of the key: it is one of the owners, agrees with the routing thread, and
  has the serializer of the type.\<close>

definition accepts :: "env \<Rightarrow> 'a ring_ctx_scheme \<Rightarrow> Key \<Rightarrow> LatticeType \<Rightarrow> ServerThread list \<Rightarrow> kvs_env \<Rightarrow> kvs_state \<Rightarrow> bool" where
  "accepts en rs key ty ts ke st \<longleftrightarrow>
     owners en rs key [kSelfTier (kv_cfg ke)] = Inr ts \<and> kSelfTierIdVector (kv_cfg ke) = [kSelfTier (kv_cfg ke)] \<and>
     agree en rs (kv_env ke) st key (kSelfTier (kv_cfg ke)) \<and> self_serializers ke ty \<noteq> None \<and> \<not> type_conflict st key ty"

lemma accepts_put:
  assumes "accepts en rs key ty ts ke st" and "wt ke \<in> set ts" and "\<not> is_metadata key" and "addr \<noteq> []"
  shows "\<exists>st'. user_request_handler ke now (with_cache_size c (put_request key ty payload addr i)) st = Inr st' \<and>
    key \<in> set (local_changeset st') \<and> umap_has (stored_key_map st') key \<and>
    sent st' = sent st @ [(addr, Response (answer_of PUT i (flag_stale c (length ts) (KeyTuple_default\<lparr>kt_key := key, kt_lattice_type := ty\<rparr>))))]"
proof -
  from assms(1) obtain sr where sr: "self_serializers ke ty = Some sr" and ok: "\<not> type_conflict st key ty"
    and ow: "owners en rs key [kSelfTier (kv_cfg ke)] = Inr ts" "kSelfTierIdVector (kv_cfg ke) = [kSelfTier (kv_cfg ke)]"
    and ag: "agree en rs (kv_env ke) st key (kSelfTier (kv_cfg ke))"
    by (auto simp: accepts_def)
  have k: "known_owners ke st key (kSelfTierIdVector (kv_cfg ke)) ts"
    using assms(3) ow ag agree_owners [OF ag] by (simp add: known_owners_def agree_def)
  have "sset_has ts (wt ke)" using assms(2) by (auto simp: sset_has_iff st_eq_iff)
  from put_with_cache_size [OF k this assms(4) sr ok, of now c payload i] show ?thesis by (elim exE conjE) (rule exI, intro conjI, assumption, simp_all)
qed



end
