(* ===== verification/Mica_Log.thy ===== *)
theory Mica_Log
  imports Prelude
begin

text \<open>
  The circular log of MICA2: \<open>mica/pool/circular_log.h\<close>, \<open>mica/pool/circular_log_impl.h\<close> and the rounding functions of
  \<open>mica/util/roundup.h\<close>. The memory behind \<open>data_\<close> is an array of 8-byte words, since every size and every
  offset is a multiple of eight. The pages after the end of the array are the pages of its beginning (the constructor maps them
  twice), so a word of an item that crosses the end is found modulo the size. An \<open>assert\<close> that does not hold is a fault.
  \<open>head_\<close> and \<open>tail_\<close> count all bytes ever appended; an offset that leaves the log keeps their low 48 bits.
\<close>

section \<open>Rounding\<close>

definition roundup :: "u64 \<Rightarrow> u64 \<Rightarrow> u64" where
  "roundup p x = (x + (p - 1)) AND NOT (p - 1)"

text \<open>Shifting by 64 and more is undefined.\<close>

function next_power_of_two_recursive :: "u64 \<Rightarrow> nat \<Rightarrow> u64 res" where
  "next_power_of_two_recursive x s =
     (if s \<ge> 64 then Inl Out_of_range
      else if push_bit s 1 < x then next_power_of_two_recursive x (s + 1) else Inr (push_bit s 1))"
  by auto
termination by (relation "measure (\<lambda>(x, s). 64 - s)") auto

declare next_power_of_two_recursive.simps [simp del]

definition next_power_of_two :: "u64 \<Rightarrow> u64 res" where
  "next_power_of_two x = next_power_of_two_recursive x 0"

section \<open>The log\<close>

definition kMinimumSize :: u64 where "kMinimumSize = 2 * 1048576"

definition kOffsetMask :: u64 where "kOffsetMask = push_bit 48 1 - 1"

definition kItemHeader :: u64 where "kItemHeader = 8"

record circular_log =
  concurrent_access_mode :: nat
  log_data :: "nat \<Rightarrow> u64"
  log_size :: u64
  log_mask :: u64
  log_head :: u64
  log_tail :: u64

definition assertion :: "bool \<Rightarrow> 'a res \<Rightarrow> 'a res" where
  "assertion b r = (if b then r else Inl Assertion_failed)"

definition CircularLog :: "u64 \<Rightarrow> bool \<Rightarrow> bool \<Rightarrow> (nat \<Rightarrow> u64) \<Rightarrow> circular_log res" where
  "CircularLog bytes concurrent_read concurrent_write memory =
     (let size1 = roundup (2 * 1048576) (if bytes < kMinimumSize then kMinimumSize else bytes)
      in ebind (next_power_of_two size1) (\<lambda>size2.
           assertion (size2 \<le> drop_bit 1 kOffsetMask) (
           assertion (size2 = roundup (2 * 1048576) size2) (
             Inr \<lparr>concurrent_access_mode = (if \<not> concurrent_read then 0 else if \<not> concurrent_write then 1 else 2),
                  log_data = memory, log_size = size2, log_mask = size2 - 1, log_head = 0, log_tail = 0\<rparr>))))"

definition log_reset :: "circular_log \<Rightarrow> circular_log" where
  "log_reset l = l\<lparr>log_head := 0, log_tail := 0\<rparr>"

text \<open>Word \<open>i\<close> from \<open>data_ + (offset & mask_)\<close> on.\<close>

definition word_at :: "circular_log \<Rightarrow> u64 \<Rightarrow> nat \<Rightarrow> nat" where
  "word_at l offset i = (unat (offset AND log_mask l) div 8 + i) mod (unat (log_size l) div 8)"

definition log_read :: "circular_log \<Rightarrow> u64 \<Rightarrow> nat \<Rightarrow> u64" where
  "log_read l offset i = log_data l (word_at l offset i)"

definition log_write :: "circular_log \<Rightarrow> u64 \<Rightarrow> nat \<Rightarrow> u64 \<Rightarrow> circular_log" where
  "log_write l offset i w = l\<lparr>log_data := (log_data l)(word_at l offset i := w)\<rparr>"

definition check_invariants :: "circular_log \<Rightarrow> circular_log res" where
  "check_invariants l = assertion (log_tail l - log_head l \<le> log_size l) (Inr l)"

definition pop_head :: "circular_log \<Rightarrow> circular_log res" where
  "pop_head l = check_invariants (l\<lparr>log_head := log_head l + log_read l (log_head l) 0\<rparr>)"

partial_function (option) pop_heads :: "u64 \<Rightarrow> circular_log \<Rightarrow> circular_log res option" where
  "pop_heads v l =
     (if v > log_head l + log_size l
      then case pop_head l of Inl e \<Rightarrow> Some (Inl e) | Inr l1 \<Rightarrow> pop_heads v l1
      else Some (Inr l))"

declare pop_heads.simps [code]

definition push_tail :: "u64 \<Rightarrow> circular_log \<Rightarrow> (u64 \<times> circular_log) res" where
  "push_tail item_size l =
     assertion (item_size = roundup 8 item_size) (
     assertion (item_size \<le> log_size l) (
       let offset = log_tail l; v = offset + kItemHeader + item_size
       in case pop_heads v l of
            None \<Rightarrow> Inl Diverges
          | Some r \<Rightarrow> ebind r (\<lambda>l1.
              let l2 = (log_write l1 offset 0 item_size)\<lparr>log_tail := log_tail l1 + item_size\<rparr>
              in ebind (check_invariants l2) (\<lambda>l3. Inr (offset AND kOffsetMask, l3)))))"

definition log_allocate :: "u64 \<Rightarrow> circular_log \<Rightarrow> (u64 \<times> circular_log) res" where
  "log_allocate item_size l = assertion (item_size \<le> 4294967295) (push_tail (item_size + kItemHeader) l)"

definition log_release :: "u64 \<Rightarrow> circular_log \<Rightarrow> circular_log" where
  "log_release offset l = l"

definition is_valid :: "circular_log \<Rightarrow> u64 \<Rightarrow> bool" where
  "is_valid l offset \<longleftrightarrow> (log_tail l - offset) AND kOffsetMask \<le> log_size l"

text \<open>The length \<open>get_item\<close> reports and word \<open>i\<close> of the data it points to.\<close>

definition item_len :: "circular_log \<Rightarrow> u64 \<Rightarrow> u64" where
  "item_len l offset = log_read l offset 0"

definition item_word :: "circular_log \<Rightarrow> u64 \<Rightarrow> nat \<Rightarrow> u64" where
  "item_word l offset i = log_read l offset (Suc i)"

definition set_item_word :: "circular_log \<Rightarrow> u64 \<Rightarrow> nat \<Rightarrow> u64 \<Rightarrow> circular_log" where
  "set_item_word l offset i w = log_write l offset (Suc i) w"

text \<open>\<open>memcpy<8>\<close> from and to the data of an item, from word \<open>i\<close> on.\<close>

definition item_words :: "circular_log \<Rightarrow> u64 \<Rightarrow> nat \<Rightarrow> nat \<Rightarrow> u64 list" where
  "item_words l offset i n = map (item_word l offset) [i..<i + n]"

fun copy_words :: "u64 \<Rightarrow> nat \<Rightarrow> u64 list \<Rightarrow> circular_log \<Rightarrow> circular_log" where
  "copy_words offset i [] l = l"
| "copy_words offset i (w # ws) l = copy_words offset (Suc i) ws (set_item_word l offset i w)"

section \<open>Geometry\<close>

definition log_geometry :: "circular_log \<Rightarrow> bool" where
  "log_geometry l \<longleftrightarrow> (\<exists>k. 21 \<le> k \<and> k \<le> 46 \<and> log_size l = 2 ^ k) \<and> log_mask l = log_size l - 1"

definition words :: "circular_log \<Rightarrow> nat" where
  "words l = unat (log_size l) div 8"

text \<open>The word that logical position \<open>p\<close> of the log is kept in.\<close>

definition cell :: "circular_log \<Rightarrow> nat \<Rightarrow> u64" where
  "cell l p = log_data l (p mod words l)"

lemma unat_two_power: "k < 64 \<Longrightarrow> unat (2 ^ k :: u64) = 2 ^ k"
proof -
  assume "k < 64"
  then have "(2 :: nat) ^ k < 2 ^ 64" by (rule power_strict_increasing) simp
  then show ?thesis using unat_of_nat [of "2 ^ k", where 'a = 64] by simp
qed

lemma geometry_size:
  assumes "log_geometry l"
  obtains k where "21 \<le> k" "k \<le> 46" "unat (log_size l) = 2 ^ k" "log_size l = 2 ^ k" "words l = 2 ^ (k - 3)"
proof -
  from assms obtain k where k: "21 \<le> k" "k \<le> 46" "log_size l = 2 ^ k" by (auto simp: log_geometry_def)
  then have u: "unat (log_size l) = 2 ^ k" by (simp add: unat_two_power)
  have "(2 :: nat) ^ k = 2 ^ (k - 3) * 2 ^ 3" unfolding power_add [symmetric] using k(1) by simp
  then show thesis using that k u by (simp add: words_def)
qed

lemma size_words:
  assumes "log_geometry l"
  shows "unat (log_size l) = 8 * words l"
proof -
  from assms obtain k where k: "21 \<le> k" "unat (log_size l) = 2 ^ k" "words l = 2 ^ (k - 3)" by (rule geometry_size)
  have "(2 :: nat) ^ k = 2 ^ 3 * 2 ^ (k - 3)" unfolding power_add [symmetric] using k(1) by simp
  with k(2,3) show ?thesis by simp
qed

lemma unat_and_mask: "unat (w AND mask k :: u64) = unat w mod 2 ^ k"
proof -
  have "unat (w AND mask k) = take_bit k (unat w)" by (simp only: take_bit_eq_mask [symmetric] unsigned_take_bit_eq)
  then show ?thesis by (simp only: take_bit_eq_mod)
qed

lemma mod_window: "a mod n = b mod n \<Longrightarrow> a \<le> b \<Longrightarrow> b < a + n \<Longrightarrow> a = (b :: nat)"
proof -
  assume eq: "a mod n = b mod n" and le: "a \<le> b" "b < a + n"
  have "n dvd b - a" using eq le(1) by (metis mod_eq_dvd_iff_nat)
  moreover have "b - a < n" using le by simp
  ultimately have "b - a = 0" by (metis dvd_imp_le gr_zeroI not_less)
  with le(1) show "a = b" by simp
qed

text \<open>An offset word stands for a byte position: they agree up to the 48 bits that leave the log.\<close>

definition at_pos :: "u64 \<Rightarrow> nat \<Rightarrow> bool" where
  "at_pos w p \<longleftrightarrow> unat w mod 2 ^ 48 = (8 * p) mod 2 ^ 48"

lemma word_at_pos:
  assumes "log_geometry l" and "at_pos w p"
  shows "word_at l w i = (p + i) mod words l"
proof -
  from assms(1) obtain k where k: "21 \<le> k" "k \<le> 46" "unat (log_size l) = 2 ^ k" "log_size l = 2 ^ k" "words l = 2 ^ (k - 3)"
    by (rule geometry_size)
  have "log_mask l = mask k" using assms(1) k(4) by (simp add: log_geometry_def mask_eq_exp_minus_1)
  then have "unat (w AND log_mask l) = unat w mod 2 ^ k" by (simp only: unat_and_mask)
  also have "\<dots> = (8 * p) mod 2 ^ k"
  proof -
    have d: "(2 :: nat) ^ k dvd 2 ^ 48" by (rule le_imp_power_dvd) (use k(2) in simp)
    have "unat w mod 2 ^ k = unat w mod 2 ^ 48 mod 2 ^ k" by (simp only: mod_mod_cancel [OF d])
    also have "\<dots> = 8 * p mod 2 ^ 48 mod 2 ^ k" by (simp only: assms(2) [unfolded at_pos_def])
    also have "\<dots> = 8 * p mod 2 ^ k" by (simp only: mod_mod_cancel [OF d])
    finally show ?thesis .
  qed
  also have "\<dots> = 8 * (p mod words l)"
  proof -
    have "(2 :: nat) ^ k = 8 * words l" using size_words [OF assms(1)] k(3) by simp
    then show ?thesis by (simp only: mult_mod_right)
  qed
  finally show ?thesis unfolding word_at_def words_def [symmetric] by (simp add: mod_add_left_eq)
qed

lemma log_read_cell: "log_geometry l \<Longrightarrow> at_pos w p \<Longrightarrow> log_read l w i = cell l (p + i)"
  by (simp add: log_read_def cell_def word_at_pos)

lemma log_write_fields [simp]:
  "log_size (log_write l w i x) = log_size l" "log_mask (log_write l w i x) = log_mask l"
  "log_head (log_write l w i x) = log_head l" "log_tail (log_write l w i x) = log_tail l"
  "words (log_write l w i x) = words l" "log_geometry (log_write l w i x) = log_geometry l"
  by (simp_all add: log_write_def words_def log_geometry_def)

lemma cell_log_write:
  assumes "log_geometry l" and "at_pos w p"
  shows "cell (log_write l w i x) q = (if q mod words l = (p + i) mod words l then x else cell l q)"
  using word_at_pos [OF assms, of i] by (simp add: cell_def log_write_def words_def)

lemma at_pos_nat: "8 dvd unat w \<Longrightarrow> at_pos w (unat w div 8)"
  by (simp add: at_pos_def)

lemma kOffsetMask_mask: "kOffsetMask = mask 48"
  by (simp add: kOffsetMask_def mask_eq_exp_minus_1 push_bit_eq_mult)

lemma unat_kOffsetMask_and: "unat (w AND kOffsetMask) = unat w mod 2 ^ 48"
  unfolding kOffsetMask_mask by (rule unat_and_mask)

lemma at_pos_masked: "at_pos w p \<Longrightarrow> at_pos (w AND kOffsetMask) p"
  by (simp add: at_pos_def unat_kOffsetMask_and)

section \<open>The items between head and tail\<close>

text \<open>From position \<open>p\<close> on the log holds items of these numbers of words, up to the tail.\<close>

fun chain :: "circular_log \<Rightarrow> nat \<Rightarrow> nat list \<Rightarrow> bool" where
  "chain l p [] \<longleftrightarrow> 8 * p = unat (log_tail l)"
| "chain l p (n # ns) \<longleftrightarrow> 0 < n \<and> cell l p = of_nat (8 * n) \<and> chain l (p + n) ns"

text \<open>The sizes of all items ever appended, and the item of \<open>n\<close> words at position \<open>p\<close>.\<close>

definition item_of :: "nat list \<Rightarrow> nat \<Rightarrow> nat \<Rightarrow> bool" where
  "item_of ns p n \<longleftrightarrow> (\<exists>pre suf. ns = pre @ n # suf \<and> p = sum_list pre)"

definition log_layout :: "circular_log \<Rightarrow> nat list \<Rightarrow> bool" where
  "log_layout l ns \<longleftrightarrow> log_geometry l \<and> (\<forall>n\<in>set ns. 0 < n) \<and> unat (log_tail l) \<le> unat (log_head l) + unat (log_size l) \<and>
     (\<exists>pre suf. ns = pre @ suf \<and> unat (log_head l) = 8 * sum_list pre \<and> chain l (sum_list pre) suf)"

lemma chain_end: "chain l p ns \<Longrightarrow> unat (log_tail l) = 8 * (p + sum_list ns)"
  by (induction ns arbitrary: p) (auto simp: algebra_simps)

lemma log_layout_tail: "log_layout l ns \<Longrightarrow> unat (log_tail l) = 8 * sum_list ns"
  by (auto simp: log_layout_def dest: chain_end)

lemma item_of_end: "item_of ns p n \<Longrightarrow> p + n \<le> sum_list ns"
  by (auto simp: item_of_def)

lemma item_of_snoc: "item_of (ns @ [m]) p n \<longleftrightarrow> item_of ns p n \<or> p = sum_list ns \<and> n = m"
proof
  assume "item_of (ns @ [m]) p n"
  then obtain pre suf where "ns @ [m] = pre @ n # suf" "p = sum_list pre" by (auto simp: item_of_def)
  then show "item_of ns p n \<or> p = sum_list ns \<and> n = m"
    by (cases suf rule: rev_cases) (auto simp: item_of_def)
next
  assume "item_of ns p n \<or> p = sum_list ns \<and> n = m"
  then show "item_of (ns @ [m]) p n" unfolding item_of_def by (metis append_Cons append_assoc)
qed

text \<open>Two items are the same or lie apart.\<close>

lemma items_apart:
  assumes "item_of ns p n" and "item_of ns q m" and "\<forall>n\<in>set ns. 0 < n" and "p \<le> q"
  shows "p = q \<and> n = m \<or> p + n \<le> q"
  using assms
proof (induction ns rule: rev_induct)
  case (snoc x ns)
  from snoc.prems(1,2) show ?case
    unfolding item_of_snoc using snoc.IH snoc.prems(3,4) item_of_end [of ns p n] item_of_end [of ns q m] by (auto simp: item_of_def)
qed (simp add: item_of_def)

lemma chain_cong:
  assumes "chain l p ns" and "log_tail l' = log_tail l" and "\<And>q m. item_of ns q m \<Longrightarrow> cell l' (p + q) = cell l (p + q)"
  shows "chain l' p ns"
  using assms
proof (induction ns arbitrary: p)
  case (Cons n ns)
  have "chain l' (p + n) ns"
  proof (rule Cons.IH)
    fix q m assume "item_of ns q m"
    then have "item_of (n # ns) (n + q) m" unfolding item_of_def by (metis append_Cons sum_list.Cons)
    then show "cell l' (p + n + q) = cell l (p + n + q)" using Cons.prems(3) by (metis add.assoc)
  qed (use Cons.prems in simp_all)
  moreover have "item_of (n # ns) 0 n" unfolding item_of_def by (metis append_Nil sum_list.Nil)
  then have "cell l' p = cell l p" using Cons.prems(3) by fastforce
  ultimately show ?case using Cons.prems(1) by simp
qed simp

lemma chain_snoc:
  assumes "chain l p ns" and "0 < n" and "\<And>q. p \<le> q \<Longrightarrow> 8 * q < unat (log_tail l) \<Longrightarrow> cell l' q = cell l q"
    and "8 * t = unat (log_tail l)" and "cell l' t = of_nat (8 * n)" and "unat (log_tail l') = 8 * (t + n)"
  shows "chain l' p (ns @ [n])"
  using assms
proof (induction ns arbitrary: p)
  case Nil
  then have "p = t" by simp
  with Nil show ?case by simp
next
  case (Cons m ns)
  have "8 * p < unat (log_tail l)" using chain_end [OF Cons.prems(1)] Cons.prems(1) by simp
  with Cons show ?case by simp
qed

text \<open>Popping ends and leaves enough room.\<close>

lemma head_update [simp]:
  "cell (l\<lparr>log_head := x\<rparr>) = cell l" "words (l\<lparr>log_head := x\<rparr>) = words l" "log_geometry (l\<lparr>log_head := x\<rparr>) = log_geometry l"
  by (simp_all add: cell_def words_def log_geometry_def fun_eq_iff)

lemma chain_head_update [simp]: "chain (l\<lparr>log_head := x\<rparr>) p ns \<longleftrightarrow> chain l p ns"
  by (induction ns arbitrary: p) simp_all

lemma size_bound:
  assumes "log_geometry l"
  shows "unat (log_size l) \<le> 2 ^ 46"
proof -
  from assms obtain k where k: "k \<le> 46" "unat (log_size l) = 2 ^ k" by (rule geometry_size)
  have "(2 :: nat) ^ k \<le> 2 ^ 46" using k(1) by (rule power_increasing) simp
  with k(2) show ?thesis by simp
qed

lemma word_of_unat: "unat w = n \<Longrightarrow> w = of_nat n"
  by auto

lemma unat_add_small: "unat a + unat b < 2 ^ 64 \<Longrightarrow> unat (a + b :: u64) = unat a + unat b"
  by (simp add: unat_word_ariths)

lemma pop_head_ok:
  assumes "log_geometry l" and "unat (log_head l) = 8 * h" and "chain l h (n # ns)" and "unat (log_tail l) < 2 ^ 63"
    and "unat (log_tail l) \<le> unat (log_head l) + unat (log_size l)"
  shows "pop_head l = Inr (l\<lparr>log_head := of_nat (8 * (h + n))\<rparr>)" and "unat (of_nat (8 * (h + n)) :: u64) = 8 * (h + n)"
    and "8 * (h + n) \<le> unat (log_tail l)"
proof -
  have "at_pos (log_head l) h" using assms(2) by (simp add: at_pos_def)
  then have r: "log_read l (log_head l) 0 = of_nat (8 * n)" using log_read_cell [OF assms(1), of _ h 0] assms(3) by simp
  show le: "8 * (h + n) \<le> unat (log_tail l)" using chain_end [OF assms(3)] by simp
  then show u: "unat (of_nat (8 * (h + n)) :: u64) = 8 * (h + n)" using assms(4) by (simp only: unat_of_nat) simp
  have "log_head l = of_nat (8 * h)" using assms(2) by (rule word_of_unat)
  then have head: "log_head l + of_nat (8 * n) = of_nat (8 * (h + n))" by (simp add: algebra_simps)
  have "unat (log_tail l - of_nat (8 * (h + n))) \<le> unat (log_size l)"
  proof -
    have "unat (log_tail l) - 8 * (h + n) \<le> unat (log_size l)" using assms(2,5) by simp
    then show ?thesis using le u by (simp only: unat_sub word_le_nat_alt)
  qed
  then show "pop_head l = Inr (l\<lparr>log_head := of_nat (8 * (h + n))\<rparr>)"
    by (simp only: pop_head_def r head check_invariants_def assertion_def) (simp add: word_le_nat_alt)
qed

lemma pop_heads_ok:
  assumes "log_geometry l" and "unat (log_head l) = 8 * h" and "chain l h ns"
    and "unat (log_tail l) \<le> unat (log_head l) + unat (log_size l)" and "unat (log_tail l) < 2 ^ 63"
    and "unat v = unat (log_tail l) + m" and "m \<le> unat (log_size l)"
  shows "\<exists>pre suf. ns = pre @ suf \<and> pop_heads v l = Some (Inr (l\<lparr>log_head := of_nat (8 * (h + sum_list pre))\<rparr>)) \<and>
    chain l (h + sum_list pre) suf \<and> unat (log_tail l) + m \<le> 8 * (h + sum_list pre) + unat (log_size l)"
  using assms
proof (induction ns arbitrary: l h)
  case (Cons n ns)
  note pop = pop_head_ok [OF Cons.prems(1,2,3,5,4)]
  have sum: "unat (log_head l + log_size l) = 8 * h + unat (log_size l)"
    using chain_end [OF Cons.prems(3)] Cons.prems(2,5) size_bound [OF Cons.prems(1)] by (subst unat_add_small) simp_all
  show ?case
  proof (cases "v > log_head l + log_size l")
    case True
    let ?l = "l\<lparr>log_head := of_nat (8 * (h + n))\<rparr>"
    have "\<exists>pre suf. ns = pre @ suf \<and> pop_heads v ?l = Some (Inr (?l\<lparr>log_head := of_nat (8 * (h + n + sum_list pre))\<rparr>)) \<and>
        chain ?l (h + n + sum_list pre) suf \<and> unat (log_tail ?l) + m \<le> 8 * (h + n + sum_list pre) + unat (log_size ?l)"
      by (rule Cons.IH) (use Cons.prems pop(2,3) in simp_all)
    then obtain pre suf where "ns = pre @ suf" "pop_heads v ?l = Some (Inr (l\<lparr>log_head := of_nat (8 * (h + sum_list (n # pre)))\<rparr>))"
        "chain l (h + sum_list (n # pre)) suf" "unat (log_tail l) + m \<le> 8 * (h + sum_list (n # pre)) + unat (log_size l)"
      by (auto simp: add.assoc)
    then show ?thesis using True pop(1) by (subst pop_heads.simps) (intro exI [of _ "n # pre"] exI [of _ suf], simp)
  next
    case False
    then have "unat v \<le> 8 * h + unat (log_size l)" using sum by (simp add: word_less_nat_alt)
    moreover have "l\<lparr>log_head := of_nat (8 * h)\<rparr> = l" using word_of_unat [OF Cons.prems(2)] by simp
    ultimately show ?thesis using False Cons.prems by (subst pop_heads.simps) (intro exI [of _ "[]"] exI [of _ "n # ns"], simp)
  qed
next
  case Nil
  have sum: "unat (log_head l + log_size l) = 8 * h + unat (log_size l)"
    using Nil.prems size_bound [OF Nil.prems(1)] by (subst unat_add_small) simp_all
  then have "\<not> v > log_head l + log_size l" using Nil.prems by (simp add: word_less_nat_alt)
  moreover have "log_head l = log_tail l" using Nil.prems(2,3) by (simp add: word_unat_eq_iff)
  then have "l\<lparr>log_head := log_tail l\<rparr> = l" by (metis circular_log.surjective circular_log.update_convs(5))
  ultimately show ?case using Nil.prems by (subst pop_heads.simps) simp
qed

section \<open>Appending\<close>

lemma roundup_multiple: "roundup 8 (of_nat (8 * n)) = of_nat (8 * n)"
proof -
  have x: "(of_nat (8 * n) :: u64) = push_bit 3 (of_nat n)" by (simp add: push_bit_eq_mult)
  have seven: "(8 - 1 :: u64) = mask 3" by (simp add: mask_eq_exp_minus_1)
  have "push_bit 3 w AND mask 3 = 0" for w :: u64 by (rule bit_word_eqI) (auto simp: bit_simps)
  then have "push_bit 3 w + mask 3 = push_bit 3 w OR mask 3" for w :: u64 by (simp add: disjunctive_add_eq_or)
  moreover have "(push_bit 3 w OR mask 3) AND NOT (mask 3) = push_bit 3 w" for w :: u64 by (rule bit_word_eqI) (auto simp: bit_simps)
  ultimately show ?thesis unfolding roundup_def x seven by simp
qed

text \<open>\<open>push_tail\<close> ends without a failed assertion, returns the old tail, moves the tail by the size of the item and overwrites no word
  but the first of the new item.\<close>

lemma push_tail_ok:
  assumes "log_layout l ns" and "t = sum_list ns" and "0 < n" and "8 * n + 8 \<le> unat (log_size l)" and "unat (log_tail l) < 2 ^ 62"
  shows "\<exists>l'. push_tail (of_nat (8 * n)) l = Inr (log_tail l AND kOffsetMask, l') \<and> log_layout l' (ns @ [n]) \<and>
    unat (log_tail l') = 8 * (t + n) \<and> log_size l' = log_size l \<and> log_mask l' = log_mask l \<and>
    concurrent_access_mode l' = concurrent_access_mode l \<and>
    cell l' = (\<lambda>q. if q mod words l = t mod words l then of_nat (8 * n) else cell l q)"
proof -
  note of_nat_mult [simp del]
  from assms(1) obtain pre0 suf0 where g: "log_geometry l" and ns: "ns = pre0 @ suf0" "\<forall>n\<in>set ns. 0 < n"
    and h: "unat (log_head l) = 8 * sum_list pre0" "chain l (sum_list pre0) suf0"
    and le: "unat (log_tail l) \<le> unat (log_head l) + unat (log_size l)" by (auto simp: log_layout_def)
  have tail: "unat (log_tail l) = 8 * t" using log_layout_tail [OF assms(1)] assms(2) by simp
  have s46: "unat (log_size l) \<le> 2 ^ 46" using g by (rule size_bound)
  then have n64: "unat (of_nat (8 * n) :: u64) = 8 * n" using assms(4) by (simp only: unat_of_nat) simp
  let ?v = "log_tail l + kItemHeader + of_nat (8 * n)"
  have "unat (log_tail l + kItemHeader) = unat (log_tail l) + 8"
    using assms(5) by (subst unat_add_small) (simp_all add: kItemHeader_def)
  then have v: "unat ?v = unat (log_tail l) + (8 * n + 8)" using assms(4,5) s46 n64 by (subst unat_add_small) simp_all
  from pop_heads_ok [OF g h le _ v assms(4)] assms(5) obtain pre suf where suf0: "suf0 = pre @ suf" and
    p: "pop_heads ?v l = Some (Inr (l\<lparr>log_head := of_nat (8 * (sum_list pre0 + sum_list pre))\<rparr>))" "chain l (sum_list pre0 + sum_list pre) suf"
      "unat (log_tail l) + (8 * n + 8) \<le> 8 * (sum_list pre0 + sum_list pre) + unat (log_size l)" by auto
  define h' where "h' = sum_list pre0 + sum_list pre"
  note p = p [folded h'_def]
  let ?l1 = "l\<lparr>log_head := of_nat (8 * h')\<rparr>"
  let ?l2 = "(log_write ?l1 (log_tail l) 0 (of_nat (8 * n)))\<lparr>log_tail := log_tail l + of_nat (8 * n)\<rparr>"
  have le': "8 * h' \<le> unat (log_tail l)" using chain_end [OF p(2)] by simp
  have h': "unat (of_nat (8 * h') :: u64) = 8 * h'" using le' assms(5) by (simp only: unat_of_nat) simp
  have t': "unat (log_tail l + of_nat (8 * n)) = 8 * (t + n)" using tail assms(4,5) s46 n64 by (subst unat_add_small) simp_all
  have cell: "cell ?l2 = (\<lambda>q. if q mod words l = t mod words l then of_nat (8 * n) else cell l q)"
    using cell_log_write [of ?l1 "log_tail l" t 0 "of_nat (8 * n)"] g tail
    by (auto simp: fun_eq_iff cell_def words_def at_pos_def)
  have w: "unat (log_size l) = 8 * words l" using g by (rule size_words)
  have "chain ?l2 h' (suf @ [n])"
  proof (rule chain_snoc [OF p(2) assms(3), where t = t])
    fix q assume "h' \<le> q" "8 * q < unat (log_tail l)"
    then have "q mod words l \<noteq> t mod words l" using mod_window [of q "words l" t] p(3) tail w by fastforce
    then show "cell ?l2 q = cell l q" by (simp add: cell)
  qed (use tail t' in \<open>simp_all add: cell\<close>)
  moreover have "log_geometry ?l2" using g by (simp add: log_geometry_def)
  ultimately have inv: "log_layout ?l2 (ns @ [n])"
    using h' t' p(3) tail ns assms(3) suf0 unfolding log_layout_def
    by (intro conjI exI [of _ "pre0 @ pre"] exI [of _ "suf @ [n]"]) (auto simp: h'_def)
  have "unat (log_tail l + of_nat (8 * n) - of_nat (8 * h')) \<le> unat (log_size l)"
  proof -
    have "(of_nat (8 * h') :: u64) \<le> log_tail l + of_nat (8 * n)" using t' h' le' tail by (simp only: word_le_nat_alt) simp
    then show ?thesis using t' h' p(3) tail by (simp only: unat_sub) simp
  qed
  then have c: "check_invariants ?l2 = Inr ?l2" by (simp add: check_invariants_def assertion_def word_le_nat_alt)
  have "of_nat (8 * n) \<le> log_size l" using assms(4) n64 by (simp add: word_le_nat_alt)
  then have "push_tail (of_nat (8 * n)) l = Inr (log_tail l AND kOffsetMask, ?l2)"
    unfolding push_tail_def Let_def p(1) roundup_multiple by (simp add: assertion_def c)
  then show ?thesis using inv t' cell by (intro exI [of _ ?l2]) (simp add: log_write_def)
qed

section \<open>Copying into an item\<close>

lemma set_item_word_fields [simp]:
  "log_size (set_item_word l w i x) = log_size l" "log_mask (set_item_word l w i x) = log_mask l"
  "log_head (set_item_word l w i x) = log_head l" "log_tail (set_item_word l w i x) = log_tail l"
  "words (set_item_word l w i x) = words l" "log_geometry (set_item_word l w i x) = log_geometry l"
  by (simp_all add: set_item_word_def)

lemma copy_words_fields [simp]:
  "log_size (copy_words w i ws l) = log_size l" "log_mask (copy_words w i ws l) = log_mask l"
  "log_head (copy_words w i ws l) = log_head l" "log_tail (copy_words w i ws l) = log_tail l"
  "words (copy_words w i ws l) = words l" "log_geometry (copy_words w i ws l) = log_geometry l"
  by (induction ws arbitrary: i l) simp_all

lemma item_word_cell: "log_geometry l \<Longrightarrow> at_pos w p \<Longrightarrow> item_word l w i = cell l (p + Suc i)"
  by (simp add: item_word_def log_read_cell)

lemma item_words_cells: "log_geometry l \<Longrightarrow> at_pos w p \<Longrightarrow> item_words l w i n = map (\<lambda>j. cell l (p + Suc j)) [i..<i + n]"
  by (simp add: item_words_def item_word_cell)

lemma cell_set_item_word:
  "log_geometry l \<Longrightarrow> at_pos w p \<Longrightarrow>
    cell (set_item_word l w i x) q = (if q mod words l = (p + Suc i) mod words l then x else cell l q)"
  by (simp add: set_item_word_def cell_log_write)

lemma copy_words_outside:
  assumes "log_geometry l" and "at_pos w p" and "\<And>j. i \<le> j \<Longrightarrow> j < i + length ws \<Longrightarrow> q mod words l \<noteq> (p + Suc j) mod words l"
  shows "cell (copy_words w i ws l) q = cell l q"
  using assms
proof (induction ws arbitrary: i l)
  case (Cons x ws)
  have "cell (copy_words w (Suc i) ws (set_item_word l w i x)) q = cell (set_item_word l w i x) q"
    by (rule Cons.IH) (use Cons.prems in simp_all)
  also have "\<dots> = cell l q" using Cons.prems(1,2) Cons.prems(3) [of i] by (simp add: cell_set_item_word)
  finally show ?case by simp
qed simp

lemma copy_words_inside:
  assumes "log_geometry l" and "at_pos w p" and "j < length ws" and "length ws \<le> words l"
  shows "cell (copy_words w i ws l) (p + Suc (i + j)) = ws ! j"
  using assms
proof (induction ws arbitrary: i j l)
  case (Cons x ws)
  show ?case
  proof (cases j)
    case 0
    have "cell (copy_words w (Suc i) ws (set_item_word l w i x)) (p + Suc i) = cell (set_item_word l w i x) (p + Suc i)"
    proof (rule copy_words_outside)
      fix k assume k: "Suc i \<le> k" "k < Suc i + length ws"
      show "(p + Suc i) mod words (set_item_word l w i x) \<noteq> (p + Suc k) mod words (set_item_word l w i x)"
        using mod_window [of "p + Suc i" "words l" "p + Suc k"] k Cons.prems(4) by auto
    qed (use Cons.prems in simp_all)
    with 0 Cons.prems(1,2) show ?thesis by (simp add: cell_set_item_word)
  next
    case (Suc k)
    have "cell (copy_words w (Suc i) ws (set_item_word l w i x)) (p + Suc (Suc i + k)) = ws ! k"
      by (rule Cons.IH) (use Cons.prems Suc in simp_all)
    with Suc show ?thesis by simp
  qed
qed simp

text \<open>An item of \<open>n\<close> words whose place has not been reached again is not touched by what is written between the tail and a later tail.\<close>

lemma window_apart:
  assumes "p + n \<le> t" and "t + m \<le> p + words l" and "i < n" and "j < m"
  shows "(p + i) mod words l \<noteq> (t + j) mod words l"
  using mod_window [of "p + i" "words l" "t + j"] assms by auto

lemma log_allocate_ok:
  assumes "log_layout l ns" and "t = sum_list ns" and "m + 2 \<le> 262144" and "unat (log_tail l) < 2 ^ 62"
  shows "\<exists>l'. log_allocate (of_nat (8 * m)) l = Inr (log_tail l AND kOffsetMask, l') \<and> log_layout l' (ns @ [Suc m]) \<and>
    unat (log_tail l') = 8 * (t + Suc m) \<and> log_size l' = log_size l \<and> log_mask l' = log_mask l \<and>
    concurrent_access_mode l' = concurrent_access_mode l \<and>
    cell l' = (\<lambda>q. if q mod words l = t mod words l then of_nat (8 * Suc m) else cell l q)"
proof -
  note of_nat_mult [simp del]
  have g: "log_geometry l" using assms(1) by (simp add: log_layout_def)
  then obtain k where k: "21 \<le> k" "unat (log_size l) = 2 ^ k" by (rule geometry_size)
  have "(2 :: nat) ^ 21 \<le> 2 ^ k" using k(1) by (rule power_increasing) simp
  then have fits: "8 * Suc m + 8 \<le> unat (log_size l)" using assms(3) k(2) by simp
  have "unat (of_nat (8 * m) :: u64) = 8 * m" using assms(3) by (simp only: unat_of_nat) simp
  then have "(of_nat (8 * m) :: u64) \<le> 4294967295" using assms(3) by (simp add: word_le_nat_alt)
  moreover have "(of_nat (8 * m) :: u64) + kItemHeader = of_nat (8 * Suc m)" by (simp add: kItemHeader_def of_nat_mult)
  ultimately have "log_allocate (of_nat (8 * m)) l = push_tail (of_nat (8 * Suc m)) l" by (simp only: log_allocate_def assertion_def if_True)
  with push_tail_ok [OF assms(1,2) _ fits assms(4)] show ?thesis by simp
qed

lemma sub_masked: "int (unat ((a - b) AND kOffsetMask)) = (int (unat a) - int (unat b)) mod 2 ^ 48"
proof -
  have "int (unat ((a - b) AND kOffsetMask)) = uint (a - b) mod 2 ^ 48" by (simp add: unat_kOffsetMask_and zmod_int)
  also have "\<dots> = (uint a - uint b) mod 2 ^ 64 mod 2 ^ 48" by (simp add: uint_word_ariths)
  finally show ?thesis by (simp add: mod_mod_cancel)
qed

text \<open>For an item that is less than \<open>2\<^sup>4\<^sup>8\<close> bytes old, \<open>is_valid\<close> says exactly that its place has not been reached again.\<close>

lemma is_valid_pos:
  assumes "log_geometry l" and "at_pos w p" and "unat (log_tail l) = 8 * t" and "p \<le> t" and "8 * (t - p) < 2 ^ 48"
  shows "is_valid l w \<longleftrightarrow> t \<le> p + words l"
proof -
  have "int (unat ((log_tail l - w) AND kOffsetMask)) = (int (8 * t) - int (unat w) mod 2 ^ 48) mod 2 ^ 48"
    by (simp only: sub_masked assms(3) mod_diff_right_eq)
  also have "int (unat w) mod 2 ^ 48 = int (8 * p) mod 2 ^ 48"
    using arg_cong [OF assms(2) [unfolded at_pos_def], of int] by (simp only: zmod_int of_nat_power of_nat_numeral)
  also have "(int (8 * t) - int (8 * p) mod 2 ^ 48) mod 2 ^ 48 = (int (8 * t) - int (8 * p)) mod 2 ^ 48" by (simp add: mod_diff_right_eq)
  also have "int (8 * t) - int (8 * p) = int (8 * (t - p))" using assms(4) by simp
  also have "int (8 * (t - p)) mod 2 ^ 48 = int (8 * (t - p))" using assms(5) by simp
  finally have "unat ((log_tail l - w) AND kOffsetMask) = 8 * (t - p)" by (simp only: of_nat_eq_iff)
  then show ?thesis using size_words [OF assms(1)] assms(4) unfolding is_valid_def word_le_nat_alt by auto
qed

section \<open>A fresh log\<close>

lemma next_power_of_two_recursive_ok:
  "next_power_of_two_recursive x s = Inr y \<Longrightarrow> \<exists>k. k < 64 \<and> y = 2 ^ k"
proof (induction x s rule: next_power_of_two_recursive.induct)
  case (1 x s)
  show ?case
  proof (cases "s < 64 \<and> push_bit s 1 < x")
    case True
    with 1 show ?thesis by (simp add: next_power_of_two_recursive.simps [of x s])
  next
    case False
    with "1.prems" show ?thesis
      by (auto simp: next_power_of_two_recursive.simps [of x s] push_bit_eq_mult not_le split: if_splits)
  qed
qed

lemma roundup_low_bits: "roundup (2 * 1048576) x AND mask 21 = 0"
proof -
  have "(2 * 1048576 - 1 :: u64) = mask 21" by (simp add: mask_eq_exp_minus_1)
  moreover have "(y AND NOT (mask 21)) AND mask 21 = 0" for y :: u64 by (rule bit_word_eqI) (auto simp: bit_simps)
  ultimately show ?thesis unfolding roundup_def by (simp only:)
qed

lemma unat_half_mask: "unat (drop_bit 1 kOffsetMask) = 2 ^ 47 - 1"
proof -
  have "drop_bit 1 kOffsetMask = (140737488355327 :: u64)" by code_simp
  then show ?thesis by simp
qed

lemma CircularLog_inv:
  assumes "CircularLog bytes concurrent_read concurrent_write memory = Inr l"
  shows "log_layout l []" and "log_tail l = 0"
proof -
  from assms obtain y where y: "next_power_of_two_recursive (roundup (2 * 1048576) (if bytes < kMinimumSize then kMinimumSize else bytes)) 0 = Inr y"
    "y \<le> drop_bit 1 kOffsetMask" "y = roundup (2 * 1048576) y" and l: "log_size l = y" "log_mask l = y - 1" "log_head l = 0" "log_tail l = 0"
    by (auto simp: CircularLog_def Let_def ebind_Inr_iff assertion_def next_power_of_two_def split: if_splits)
  from next_power_of_two_recursive_ok [OF y(1)] obtain k where k: "k < 64" "y = 2 ^ k" by blast
  have "y AND mask 21 = 0" by (subst y(3)) (rule roundup_low_bits)
  then have "\<not> bit (y AND mask 21) k" by simp
  then have "21 \<le> k" using k by (simp add: bit_simps)
  moreover have "unat y \<le> unat (drop_bit 1 kOffsetMask)" using y(2) by (simp add: word_le_nat_alt)
  then have "(2 :: nat) ^ k < 2 ^ 47" using k unat_two_power [OF k(1)] unfolding unat_half_mask by simp
  then have "k \<le> 46" using power_less_imp_less_exp [of "2 :: nat" k 47] by simp
  ultimately have "log_geometry l" using l k(2) by (auto simp: log_geometry_def)
  then show "log_layout l []" using l unfolding log_layout_def by simp
  show "log_tail l = 0" by (rule l(4))
qed

section \<open>What the log keeps\<close>

text \<open>Uses of a log: items are appended, an item being its words without the header. The list records where each item was put.
  The first \<open>2\<^sup>6\<^sup>2\<close> bytes are covered, long before \<open>head_\<close> and \<open>tail_\<close> would wrap around.\<close>

inductive log_run :: "circular_log \<Rightarrow> (nat \<times> u64 list) list \<Rightarrow> bool" where
  start: "CircularLog bytes concurrent_read concurrent_write memory = Inr l \<Longrightarrow> log_run l []"
| append: "log_run l items \<Longrightarrow> length ws + 2 \<le> 262144 \<Longrightarrow> unat (log_tail l) < 2 ^ 62 \<Longrightarrow>
    log_allocate (of_nat (8 * length ws)) l = Inr (offset, l1) \<Longrightarrow>
    log_run (copy_words offset 0 ws l1) (items @ [(unat (log_tail l) div 8, ws)])"

definition holds_item :: "circular_log \<Rightarrow> nat \<Rightarrow> u64 list \<Rightarrow> bool" where
  "holds_item l p ws \<longleftrightarrow> (\<forall>i<length ws. cell l (p + Suc i) = ws ! i)"

definition items_kept :: "circular_log \<Rightarrow> nat list \<Rightarrow> (nat \<times> u64 list) list \<Rightarrow> bool" where
  "items_kept l ns items \<longleftrightarrow> (\<forall>(p, ws)\<in>set items. item_of ns p (Suc (length ws)) \<and> (sum_list ns \<le> p + words l \<longrightarrow> holds_item l p ws))"

text \<open>Writing inside an item whose place has not been reached again leaves the sizes of the items alone.\<close>

lemma layout_write:
  assumes "log_layout l ns" and "item_of ns p n" and "at_pos w p" and "Suc j < n" and "sum_list ns \<le> p + words l"
  shows "log_layout (set_item_word l w j x) ns"
proof -
  from assms(1) obtain pre suf where g: "log_geometry l" and pos: "\<forall>n\<in>set ns. 0 < n" and ns: "ns = pre @ suf"
    and h: "unat (log_head l) = 8 * sum_list pre" "chain l (sum_list pre) suf"
    and le: "unat (log_tail l) \<le> unat (log_head l) + unat (log_size l)" by (auto simp: log_layout_def)
  have window: "sum_list ns \<le> sum_list pre + words l" using le h(1) log_layout_tail [OF assms(1)] size_words [OF g] by simp
  have "chain (set_item_word l w j x) (sum_list pre) suf"
  proof (rule chain_cong [OF h(2)])
    fix q m assume q: "item_of suf q m"
    let ?s = "sum_list pre + q"
    from q have s: "item_of ns ?s m" unfolding item_of_def ns by (metis append_assoc sum_list_append)
    have "?s mod words l \<noteq> (p + Suc j) mod words l"
    proof
      assume eq: "?s mod words l = (p + Suc j) mod words l"
      have "?s < sum_list ns" "p + Suc j < sum_list ns" using item_of_end [OF s] s pos item_of_end [OF assms(2)] assms(4) by (auto simp: item_of_def)
      then have "?s = p + Suc j"
        using mod_window [OF eq] mod_window [OF eq [symmetric]] window assms(5) by linarith
      then show False using items_apart [OF assms(2) s pos] assms(4) by simp
    qed
    then show "cell (set_item_word l w j x) ?s = cell l ?s" using g assms(3) by (simp add: cell_set_item_word)
  qed simp
  then show ?thesis using g pos ns h(1) le unfolding log_layout_def by auto
qed

lemma copy_words_layout:
  assumes "log_layout l ns" and "item_of ns p n" and "at_pos w p" and "i + length ws < n" and "sum_list ns \<le> p + words l"
  shows "log_layout (copy_words w i ws l) ns"
  using assms
proof (induction ws arbitrary: i l)
  case (Cons x ws)
  have "Suc i < n" using Cons.prems(4) by simp
  then have "log_layout (set_item_word l w i x) ns" by (rule layout_write [OF Cons.prems(1,2,3) _ Cons.prems(5)])
  then show ?case using Cons.prems Cons.IH [of "set_item_word l w i x" "Suc i"] by simp
qed simp

lemma words_min: "log_geometry l \<Longrightarrow> 262144 \<le> words l"
proof (elim geometry_size)
  fix k assume k: "21 \<le> k" "words l = 2 ^ (k - 3)"
  have "(2 :: nat) ^ 18 \<le> 2 ^ (k - 3)" by (rule power_increasing) (use k(1) in simp_all)
  with k(2) show ?thesis by simp
qed

text \<open>What an append of \<open>n\<close> words does, when \<open>ws\<close> is written behind the header of the new item.\<close>

definition log_grows :: "circular_log \<Rightarrow> nat list \<Rightarrow> nat \<Rightarrow> u64 list \<Rightarrow> circular_log \<Rightarrow> bool" where
  "log_grows l ns n ws l' \<longleftrightarrow> log_layout l' (ns @ [n]) \<and> log_size l' = log_size l \<and> cell l' (sum_list ns) = of_nat (8 * n) \<and>
     holds_item l' (sum_list ns) ws \<and>
     (\<forall>p k i. p + k \<le> sum_list ns \<longrightarrow> sum_list ns + n \<le> p + words l \<longrightarrow> i < k \<longrightarrow> cell l' (p + i) = cell l (p + i))"

lemma log_append_ok:
  assumes "log_layout l ns" and "m + 2 \<le> 262144" and "unat (log_tail l) < 2 ^ 62"
  shows "\<exists>l1. log_allocate (of_nat (8 * m)) l = Inr (log_tail l AND kOffsetMask, l1) \<and>
    (\<forall>ws. length ws \<le> m \<longrightarrow> log_grows l ns (Suc m) ws (copy_words (log_tail l AND kOffsetMask) 0 ws l1))"
proof -
  let ?t = "sum_list ns" and ?n = "Suc m" and ?w = "log_tail l AND kOffsetMask"
  from log_allocate_ok [OF assms(1) refl assms(2,3)] obtain l1 where a: "log_allocate (of_nat (8 * m)) l = Inr (?w, l1)"
    and l1: "log_layout l1 (ns @ [?n])" "cell l1 = (\<lambda>q. if q mod words l = ?t mod words l then of_nat (8 * ?n) else cell l q)"
      "log_size l1 = log_size l" by blast
  have g: "log_geometry l" "log_geometry l1" using assms(1) l1(1) by (simp_all add: log_layout_def)
  have w: "words l1 = words l" using l1(3) by (simp add: words_def)
  have pos: "at_pos ?w ?t" by (intro at_pos_masked) (simp add: at_pos_def log_layout_tail [OF assms(1)])
  have item: "item_of (ns @ [?n]) ?t ?n" by (simp add: item_of_snoc)
  have "log_grows l ns ?n ws (copy_words ?w 0 ws l1)" if ws: "length ws \<le> m" for ws
    unfolding log_grows_def
  proof (intro conjI allI impI)
    show "log_layout (copy_words ?w 0 ws l1) (ns @ [?n])"
      by (rule copy_words_layout [OF l1(1) item pos]) (use words_min [OF g(2)] assms(2) ws in simp_all)
    show "log_size (copy_words ?w 0 ws l1) = log_size l" using l1(3) by simp
    show "holds_item (copy_words ?w 0 ws l1) ?t ws"
      unfolding holds_item_def using copy_words_inside [OF g(2) pos, of _ ws 0] words_min [OF g(2)] assms(2) ws by auto
    have "cell (copy_words ?w 0 ws l1) ?t = cell l1 ?t"
    proof (rule copy_words_outside [OF g(2) pos])
      fix j assume "j < 0 + length ws"
      then show "?t mod words l1 \<noteq> (?t + Suc j) mod words l1"
        using mod_window [of ?t "words l1" "?t + Suc j"] words_min [OF g(2)] assms(2) ws by auto
    qed
    then show "cell (copy_words ?w 0 ws l1) ?t = of_nat (8 * ?n)" by (simp add: l1(2))
    fix p k i assume that: "p + k \<le> ?t" "?t + ?n \<le> p + words l" "i < k"
    have "cell (copy_words ?w 0 ws l1) (p + i) = cell l1 (p + i)"
    proof (rule copy_words_outside [OF g(2) pos])
      fix j assume "j < 0 + length ws"
      then show "(p + i) mod words l1 \<noteq> (?t + Suc j) mod words l1" using window_apart [OF that, of "Suc j"] w ws by simp
    qed
    also have "\<dots> = cell l (p + i)" using window_apart [OF that, of 0] by (simp add: l1(2))
    finally show "cell (copy_words ?w 0 ws l1) (p + i) = cell l (p + i)" .
  qed
  with a show ?thesis by blast
qed

lemma log_append_keeps:
  assumes "log_layout l ns" and "items_kept l ns items" and "length ws + 2 \<le> 262144" and "unat (log_tail l) < 2 ^ 62"
    and "log_allocate (of_nat (8 * length ws)) l = Inr (offset, l1)"
  shows "log_layout (copy_words offset 0 ws l1) (ns @ [Suc (length ws)])"
    and "items_kept (copy_words offset 0 ws l1) (ns @ [Suc (length ws)]) (items @ [(sum_list ns, ws)])"
proof -
  let ?t = "sum_list ns" and ?n = "Suc (length ws)" and ?l = "copy_words offset 0 ws l1"
  from log_append_ok [OF assms(1,3,4)] assms(5) have grows: "log_grows l ns ?n ws ?l" by (auto simp del: of_nat_mult)
  then show "log_layout ?l (ns @ [?n])" by (simp add: log_grows_def)
  have w: "words l1 = words l" using grows unfolding log_grows_def words_def by simp
  have "holds_item ?l p ws'" if "(p, ws') \<in> set items" "?t + ?n \<le> p + words l" for p ws'
  proof -
    from assms(2) that(1) have i: "item_of ns p (Suc (length ws'))" "?t \<le> p + words l \<longrightarrow> holds_item l p ws'" by (auto simp: items_kept_def)
    have "cell ?l (p + Suc j) = cell l (p + Suc j)" if "j < length ws'" for j
      using grows item_of_end [OF i(1)] \<open>?t + ?n \<le> p + words l\<close> that unfolding log_grows_def by (metis Suc_less_eq)
    with i(2) that(2) show ?thesis unfolding holds_item_def by simp
  qed
  then show "items_kept ?l (ns @ [?n]) (items @ [(?t, ws)])"
    using assms(2) grows unfolding items_kept_def log_grows_def by (fastforce simp: item_of_snoc w)
qed

lemma log_run_keeps:
  assumes "log_run l items"
  shows "\<exists>ns. log_layout l ns \<and> items_kept l ns items"
  using assms
proof induction
  case (start bytes concurrent_read concurrent_write memory l)
  then have "log_layout l [] \<and> items_kept l [] []" using CircularLog_inv(1) by (simp add: items_kept_def)
  then show ?case by blast
next
  case (append l items ws offset l1)
  then obtain ns where ns: "log_layout l ns" "items_kept l ns items" by blast
  have "unat (log_tail l) div 8 = sum_list ns" using log_layout_tail [OF ns(1)] by simp
  with log_append_keeps [OF ns append.hyps(2-4)] show ?case by metis
qed

text \<open>C13: The circular log never fails and never hands out a damaged item. In every state reached by appending items, the next append of
  an item that fits ends without a failed assertion; and an item that \<open>is_valid\<close> accepts, less than \<open>2\<^sup>4\<^sup>8\<close> bytes after it was
  written, still has all its words, however often the log has wrapped around its memory.\<close>

theorem log_keeps_valid_items:
  assumes "log_run l items" and "unat (log_tail l) < 2 ^ 62"
  shows "(\<forall>n. n + 2 \<le> 262144 \<longrightarrow> \<not> isl (log_allocate (of_nat (8 * n)) l)) \<and>
    (\<forall>(p, ws)\<in>set items. is_valid l (of_nat (8 * p) AND kOffsetMask) \<and> unat (log_tail l) - 8 * p < 2 ^ 48 \<longrightarrow>
       item_words l (of_nat (8 * p) AND kOffsetMask) 0 (length ws) = ws)"
proof -
  from log_run_keeps [OF assms(1)] obtain ns where ns: "log_layout l ns" "items_kept l ns items" by blast
  have g: "log_geometry l" using ns(1) by (simp add: log_layout_def)
  have tail: "unat (log_tail l) = 8 * sum_list ns" by (rule log_layout_tail [OF ns(1)])
  have "item_words l (of_nat (8 * p) AND kOffsetMask) 0 (length ws) = ws"
    if i: "(p, ws) \<in> set items" and valid: "is_valid l (of_nat (8 * p) AND kOffsetMask)" "unat (log_tail l) - 8 * p < 2 ^ 48" for p ws
  proof -
    from ns(2) i have k: "item_of ns p (Suc (length ws))" "sum_list ns \<le> p + words l \<longrightarrow> holds_item l p ws" by (auto simp: items_kept_def)
    note e = item_of_end [OF k(1)]
    have "unat (of_nat (8 * p) :: u64) = 8 * p" using e assms(2) tail by (simp only: unat_of_nat) simp
    then have pos: "at_pos (of_nat (8 * p) AND kOffsetMask) p" by (intro at_pos_masked) (simp add: at_pos_def)
    have "sum_list ns \<le> p + words l" using is_valid_pos [OF g pos tail] e valid tail by simp
    with k(2) show ?thesis unfolding item_words_cells [OF g pos] holds_item_def by (auto intro: nth_equalityI)
  qed
  moreover have "\<not> isl (log_allocate (of_nat (8 * n)) l)" if "n + 2 \<le> 262144" for n
    using log_allocate_ok [OF ns(1) refl that assms(2)] by (auto simp del: of_nat_mult)
  ultimately show ?thesis by auto
qed

definition example_log :: circular_log where
  "example_log = \<lparr>concurrent_access_mode = 0, log_data = (\<lambda>_. 0), log_size = 2097152, log_mask = 2097151, log_head = 0, log_tail = 0\<rparr>"

lemma example_log_created: "CircularLog 2097152 False False (\<lambda>_. 0) = Inr example_log"
proof -
  have "next_power_of_two 2097152 = Inr 2097152" by code_simp
  moreover have "roundup (2 * 1048576) (2097152 :: u64) = 2097152" "(2097152 :: u64) \<le> drop_bit 1 kOffsetMask" by code_simp+
  ultimately show ?thesis by (simp add: CircularLog_def kMinimumSize_def assertion_def example_log_def)
qed

theorem log_keeps_valid_items_witness:
  "\<exists>l1. log_allocate (of_nat (8 * length [7, 9])) example_log = Inr (0, l1) \<and> \<not> isl (log_allocate (of_nat (8 * 5)) (copy_words 0 0 [7, 9] l1)) \<and>
    item_words (copy_words 0 0 [7, 9] l1) (of_nat (8 * 0) AND kOffsetMask) 0 (length [7, 9]) = [7, 9]"
proof -
  note inv = CircularLog_inv [OF example_log_created]
  from log_allocate_ok [OF inv(1) refl, of "length [7 :: u64, 9]"] inv(2) obtain l1 where
    a: "log_allocate (of_nat (8 * length [7 :: u64, 9])) example_log = Inr (0, l1)" "log_layout l1 [3]" "unat (log_tail l1) = 24"
    by (auto simp: numeral_3_eq_3 simp del: of_nat_mult)
  let ?l = "copy_words 0 0 [7, 9] l1"
  have run: "log_run ?l ([] @ [(unat (log_tail example_log) div 8, [7, 9])])"
    by (rule log_run.append [OF log_run.start [OF example_log_created] _ _ a(1)]) (simp_all add: inv(2))
  have "is_valid ?l (of_nat (8 * 0) AND kOffsetMask) \<longleftrightarrow> 3 \<le> 0 + words ?l"
    by (rule is_valid_pos) (use a(2,3) in \<open>simp_all add: log_layout_def at_pos_def\<close>)
  moreover have "262144 \<le> words ?l" using a(2) words_min [of l1] by (simp add: log_layout_def)
  ultimately have "is_valid ?l (of_nat (8 * 0) AND kOffsetMask)" by simp
  moreover have tail: "unat (log_tail ?l) < 2 ^ 62" by (simp add: a(3))
  moreover have "5 + 2 \<le> (262144 :: nat) \<longrightarrow> \<not> isl (log_allocate (of_nat (8 * 5)) ?l)"
    using log_keeps_valid_items [OF run tail] by blast
  ultimately show ?thesis using log_keeps_valid_items [OF run tail] a(1,3) inv(2) by (auto simp del: of_nat_mult)
qed

end
