(* ===== verification/Mica_Table.thy ===== *)
theory Mica_Table
  imports Mica_Log
begin

text \<open>
  The lossy table of MICA2: \<open>mica/table/ltable.h\<close> and \<open>mica/table/ltable_impl\<close>, instantiated with \<open>BasicLossyLTableConfig\<close>
  (eviction, buckets of 15 entries, a circular log as pool, no statistics). Under this configuration \<open>has_extra_bucket\<close> is
  constantly false, so each search visits one bucket. An operation runs to its end before the next one starts; the bucket
  versions are kept, the lock of the pool, which is free before and after each operation, is not. Keys and values are
  sequences of 8-byte words because \<open>memcpy<8>\<close> and \<open>memcmp_equal<8>\<close> require lengths that are multiples of eight. The lower half
  of the first word of an item is \<open>kv_length_vec\<close>, the upper half \<open>reserved0\<close>, which is never written.
\<close>

section \<open>Items and buckets\<close>

type_synonym u16 = "16 word"

datatype Result = kSuccess | kError | kInsufficientSpace | kExists | kNotFound | kPartialValue | kNotProcessed
  | kNotSupported | kTimedOut | kRejected

definition kBucketSize :: nat where "kBucketSize = 15"

definition kMaxKeyLength :: nat where "kMaxKeyLength = 255"

definition kMaxValueLength :: nat where "kMaxValueLength = 1048575"

definition kTagMask :: u64 where "kTagMask = push_bit 16 1 - 1"

definition kItemOffsetMask :: u64 where "kItemOffsetMask = push_bit 48 1 - 1"

definition kKeyMask :: u32 where "kKeyMask = push_bit 8 1 - 1"

definition kValueMask :: u32 where "kValueMask = push_bit 24 1 - 1"

record bucket =
  version :: u32
  item_vec :: "u64 list"

record ltable =
  pool :: circular_log
  buckets :: "bucket list"
  table_mode :: nat
  rshift :: nat
  num_buckets_mask :: u32
  mth_threshold :: u64

definition get_tag :: "u64 \<Rightarrow> u16" where
  "get_tag v = ucast (drop_bit 48 v)"

definition get_item_offset :: "u64 \<Rightarrow> u64" where
  "get_item_offset v = v AND kItemOffsetMask"

definition make_item_vec :: "u16 \<Rightarrow> u64 \<Rightarrow> u64" where
  "make_item_vec tag item_offset = push_bit 48 (ucast tag) OR item_offset"

definition calc_bucket_index :: "ltable \<Rightarrow> u64 \<Rightarrow> u32" where
  "calc_bucket_index t key_hash = ucast (drop_bit 16 key_hash) AND num_buckets_mask t"

definition get_key_length :: "u32 \<Rightarrow> u32" where
  "get_key_length kv_length_vec = drop_bit 24 kv_length_vec"

definition get_value_length :: "u32 \<Rightarrow> u32" where
  "get_value_length kv_length_vec = kv_length_vec AND kValueMask"

definition make_kv_length_vec :: "u32 \<Rightarrow> u32 \<Rightarrow> u32" where
  "make_kv_length_vec key_length value_length = push_bit 24 key_length OR value_length"

definition calc_tag :: "u64 \<Rightarrow> u16" where
  "calc_tag key_hash = (let tag = ucast (key_hash AND kTagMask) in if tag = 0 then 1 else tag)"

text \<open>The fields of the item at an offset, and the words of its key and value.\<close>

definition item_kv_length_vec :: "circular_log \<Rightarrow> u64 \<Rightarrow> u32" where
  "item_kv_length_vec l offset = ucast (item_word l offset 0)"

definition item_key_hash :: "circular_log \<Rightarrow> u64 \<Rightarrow> u64" where
  "item_key_hash l offset = item_word l offset 1"

definition byte_length :: "u64 list \<Rightarrow> nat" where
  "byte_length ws = 8 * length ws"

definition set_kv_length_vec :: "circular_log \<Rightarrow> u64 \<Rightarrow> u32 \<Rightarrow> circular_log" where
  "set_kv_length_vec l offset kv =
     set_item_word l offset 0 (push_bit 32 (drop_bit 32 (item_word l offset 0)) OR ucast kv)"

definition set_item :: "u64 \<Rightarrow> u64 \<Rightarrow> u64 list \<Rightarrow> u64 list \<Rightarrow> circular_log \<Rightarrow> circular_log res" where
  "set_item offset key_hash key val l =
     assertion (byte_length key \<le> unat kKeyMask) (
     assertion (byte_length val \<le> unat kValueMask) (
       let l1 = set_kv_length_vec l offset (make_kv_length_vec (of_nat (byte_length key)) (of_nat (byte_length val)));
           l2 = set_item_word l1 offset 1 key_hash
       in Inr (copy_words offset (2 + length key) val (copy_words offset 2 key l2))))"

definition set_item_value :: "u64 \<Rightarrow> u64 list \<Rightarrow> circular_log \<Rightarrow> circular_log res" where
  "set_item_value offset val l =
     assertion (byte_length val \<le> unat kValueMask) (
       let key_length = get_key_length (item_kv_length_vec l offset);
           l1 = set_kv_length_vec l offset (make_kv_length_vec key_length (of_nat (byte_length val)))
       in Inr (copy_words offset (2 + unat (roundup 8 (ucast key_length)) div 8) val l1))"

definition compare_keys :: "circular_log \<Rightarrow> u64 \<Rightarrow> u64 list \<Rightarrow> bool" where
  "compare_keys l offset key \<longleftrightarrow>
     unat (get_key_length (item_kv_length_vec l offset)) = byte_length key \<and> item_words l offset 2 (length key) = key"

section \<open>Locks\<close>

text \<open>In mode 2 the lock is taken by compare-and-swap in a loop, which does not end while somebody else holds it.\<close>

definition lock_bucket :: "nat \<Rightarrow> bucket \<Rightarrow> bucket res" where
  "lock_bucket mode b =
     (if mode = 1 then assertion (version b AND 1 = 0) (Inr (b\<lparr>version := version b + 1\<rparr>))
      else if mode = 2
      then let v = version b AND NOT 1 in if version b = v then Inr (b\<lparr>version := v OR 1\<rparr>) else Inl Diverges
      else Inr b)"

definition unlock_bucket :: "nat \<Rightarrow> bucket \<Rightarrow> bucket res" where
  "unlock_bucket mode b =
     (if mode \<noteq> 0 then assertion (version b AND 1 = 1) (Inr (b\<lparr>version := version b + 1\<rparr>)) else Inr b)"

definition read_version_begin :: "nat \<Rightarrow> bucket \<Rightarrow> u32 res" where
  "read_version_begin mode b =
     (if mode \<noteq> 0 then if version b AND 1 \<noteq> 0 then Inl Diverges else Inr (version b) else Inr 0)"

section \<open>Searching a bucket\<close>

text \<open>The first entry with a property; the number of entries when there is none.\<close>

primrec first_slot :: "(u64 \<Rightarrow> bool) \<Rightarrow> u64 list \<Rightarrow> nat" where
  "first_slot P [] = 0"
| "first_slot P (v # vs) = (if P v then 0 else Suc (first_slot P vs))"

definition item_matches :: "circular_log \<Rightarrow> u64 \<Rightarrow> u16 \<Rightarrow> u64 list \<Rightarrow> u64 \<Rightarrow> bool" where
  "item_matches l key_hash tag key v \<longleftrightarrow>
     get_tag v = tag \<and> item_key_hash l (get_item_offset v) = key_hash \<and> compare_keys l (get_item_offset v) key"

definition find_item_index :: "circular_log \<Rightarrow> bucket \<Rightarrow> u64 \<Rightarrow> u16 \<Rightarrow> u64 list \<Rightarrow> nat" where
  "find_item_index l b key_hash tag key = first_slot (item_matches l key_hash tag key) (item_vec b)"

definition find_same_tag :: "bucket \<Rightarrow> u16 \<Rightarrow> nat" where
  "find_same_tag b tag = first_slot (\<lambda>v. get_tag v = tag) (item_vec b)"

fun empty_or_oldest :: "circular_log \<Rightarrow> u64 list \<Rightarrow> nat \<Rightarrow> nat \<Rightarrow> u64 \<Rightarrow> nat" where
  "empty_or_oldest l [] i oldest_item_index oldest_item_distance = oldest_item_index"
| "empty_or_oldest l (v # vs) i oldest_item_index oldest_item_distance =
     (if v = 0 then i
      else let distance = (log_tail l - get_item_offset v) AND log_mask l
           in if oldest_item_distance > distance then empty_or_oldest l vs (Suc i) i distance
              else empty_or_oldest l vs (Suc i) oldest_item_index oldest_item_distance)"

definition get_empty_or_oldest :: "circular_log \<Rightarrow> bucket \<Rightarrow> nat" where
  "get_empty_or_oldest l b = empty_or_oldest l (item_vec b) 0 0 (- 1)"

section \<open>Cleaning up\<close>

text \<open>A critical section on one bucket.\<close>

definition with_bucket :: "nat \<Rightarrow> (bucket \<Rightarrow> bucket) \<Rightarrow> ltable \<Rightarrow> ltable res" where
  "with_bucket i f t =
     ebind (vec_at (buckets t) i) (\<lambda>b.
     ebind (lock_bucket (table_mode t) b) (\<lambda>b1.
     ebind (unlock_bucket (table_mode t) (f b1)) (\<lambda>b2. Inr (t\<lparr>buckets := (buckets t)[i := b2]\<rparr>))))"

definition cleanup_entries :: "circular_log \<Rightarrow> bucket \<Rightarrow> bucket" where
  "cleanup_entries l b = b\<lparr>item_vec := map (\<lambda>v. if v \<noteq> 0 \<and> \<not> is_valid l v then 0 else v) (item_vec b)\<rparr>"

partial_function (option) cleanup_buckets :: "u64 \<Rightarrow> u64 \<Rightarrow> ltable \<Rightarrow> ltable res option" where
  "cleanup_buckets bucket_index bucket_index_end t =
     (if bucket_index \<noteq> bucket_index_end
      then case with_bucket (unat bucket_index) (cleanup_entries (pool t)) t of
             Inl e \<Rightarrow> Some (Inl e)
           | Inr t1 \<Rightarrow> cleanup_buckets ((bucket_index + 1) AND ucast (num_buckets_mask t)) bucket_index_end t1
      else Some (Inr t))"

declare cleanup_buckets.simps [code]

definition cleanup_bucket :: "u64 \<Rightarrow> u64 \<Rightarrow> ltable \<Rightarrow> ltable res" where
  "cleanup_bucket old_tail new_tail t =
     (case cleanup_buckets (drop_bit (rshift t) old_tail AND ucast (num_buckets_mask t))
             (drop_bit (rshift t) new_tail AND ucast (num_buckets_mask t)) t of
        None \<Rightarrow> Inl Diverges
      | Some r \<Rightarrow> r)"

definition cleanup_all :: "ltable \<Rightarrow> ltable res" where
  "cleanup_all t = ebind (cleanup_bucket 0 (push_bit (rshift t) 1) t) (cleanup_bucket (push_bit (rshift t) 1) 0)"

section \<open>Operations\<close>

text \<open>The size of an item without the header of the pool.\<close>

definition item_size :: "u64 list \<Rightarrow> nat \<Rightarrow> u64" where
  "item_size key value_length = ucast (ucast (16 + roundup 8 (of_nat (byte_length key)) + roundup 8 (of_nat value_length)) :: u32)"

definition set_entry :: "nat \<Rightarrow> u64 \<Rightarrow> bucket \<Rightarrow> bucket" where
  "set_entry i v b = b\<lparr>item_vec := (item_vec b)[i := v]\<rparr>"

text \<open>The end of an operation that holds a bucket: unlock it and write it back.\<close>

definition release_bucket :: "nat \<Rightarrow> bucket \<Rightarrow> ltable \<Rightarrow> ltable res" where
  "release_bucket i b t = ebind (unlock_bucket (table_mode t) b) (\<lambda>b1. Inr (t\<lparr>buckets := (buckets t)[i := b1]\<rparr>))"

definition table_set :: "u64 \<Rightarrow> u64 list \<Rightarrow> u64 list \<Rightarrow> bool \<Rightarrow> ltable \<Rightarrow> (Result \<times> ltable) res" where
  "table_set key_hash key val overwrite t =
     assertion (byte_length key \<le> kMaxKeyLength) (
     assertion (byte_length val \<le> kMaxValueLength) (
       let bi = unat (calc_bucket_index t key_hash); tag = calc_tag key_hash; l = pool t
       in ebind (vec_at (buckets t) bi) (\<lambda>b0.
          ebind (lock_bucket (table_mode t) b0) (\<lambda>b.
            let found = find_item_index l b key_hash tag key; overwriting = (found \<noteq> kBucketSize)
            in if overwriting \<and> \<not> overwrite
               then ebind (release_bucket bi b t) (\<lambda>t1. Inr (kExists, t1))
               else
                 let i = (if overwriting then found
                          else let s = find_same_tag b tag in if s \<noteq> kBucketSize then s else get_empty_or_oldest l b);
                     new_item_size = item_size key (byte_length val);
                     item_offset = get_item_offset (item_vec b ! i)
                 in if overwriting \<and> is_valid l item_offset \<and> item_len l item_offset \<ge> new_item_size
                    then ebind (set_item_value item_offset val l) (\<lambda>l1.
                         ebind (release_bucket bi b (t\<lparr>pool := l1\<rparr>)) (\<lambda>t1. Inr (kSuccess, t1)))
                    else ebind (log_allocate new_item_size l) (\<lambda>(new_item_offset, l1).
                           if new_item_offset = - 1
                           then ebind (release_bucket bi b (t\<lparr>pool := l1\<rparr>)) (\<lambda>t1. Inr (kInsufficientSpace, t1))
                           else ebind (set_item new_item_offset key_hash key val l1) (\<lambda>l2.
                                ebind (release_bucket bi (set_entry i (make_item_vec tag new_item_offset) b) (t\<lparr>pool := l2\<rparr>)) (\<lambda>t1.
                                ebind (cleanup_bucket new_item_offset (log_tail l2) t1) (\<lambda>t2.
                                  Inr (kSuccess, if overwriting then t2\<lparr>pool := log_release item_offset (pool t2)\<rparr> else t2)))))))))"

definition move_to_head :: "nat \<Rightarrow> u64 list \<Rightarrow> nat \<Rightarrow> nat \<Rightarrow> u64 \<Rightarrow> ltable \<Rightarrow> ltable res" where
  "move_to_head bi key value_length i v t =
     (let bytes = item_size key value_length; item_offset = get_item_offset v; l = pool t;
          distance_from_tail = (log_tail l - item_offset) AND log_mask l
      in if distance_from_tail > mth_threshold t
         then ebind (vec_at (buckets t) bi) (\<lambda>b0.
              ebind (lock_bucket (table_mode t) b0) (\<lambda>b.
                if item_vec b ! i = v
                then ebind (log_allocate bytes l) (\<lambda>(new_item_offset, l1).
                       let ok = is_valid l1 item_offset;
                           l2 = (if ok then copy_words new_item_offset 0 (item_words l1 item_offset 0 (unat bytes div 8)) l1 else l1);
                           b1 = (if ok then set_entry i (make_item_vec (get_tag v) new_item_offset) b else b)
                       in ebind (release_bucket bi b1 (t\<lparr>pool := l2\<rparr>)) (cleanup_bucket new_item_offset (log_tail l1)))
                else release_bucket bi b t))
         else Inr t)"

definition table_get :: "u64 \<Rightarrow> u64 list \<Rightarrow> nat \<Rightarrow> bool \<Rightarrow> ltable \<Rightarrow> (Result \<times> u64 list \<times> ltable) res" where
  "table_get key_hash key in_value_length allow_mutation t =
     assertion (byte_length key \<le> kMaxKeyLength) (
       let bi = unat (calc_bucket_index t key_hash); tag = calc_tag key_hash; l = pool t
       in ebind (vec_at (buckets t) bi) (\<lambda>b.
          ebind (read_version_begin (table_mode t) b) (\<lambda>version_start.
            let i = find_item_index l b key_hash tag key
            in if i = kBucketSize then Inr (kNotFound, [], t)
               else
                 let v = item_vec b ! i; item_offset = get_item_offset v;
                     value_length = unat (get_value_length (item_kv_length_vec l item_offset));
                     out_value_length = min value_length in_value_length
                 in assertion (value_length \<le> kMaxValueLength \<longrightarrow> 8 dvd out_value_length) (
                    if value_length > kMaxValueLength \<or> \<not> is_valid l item_offset
                    then ebind (if allow_mutation then with_bucket bi (set_entry i 0) t else Inr t) (\<lambda>t1. Inr (kNotFound, [], t1))
                    else ebind (if allow_mutation then move_to_head bi key value_length i v t else Inr t) (\<lambda>t1.
                           Inr (if value_length \<noteq> out_value_length then kPartialValue else kSuccess,
                                item_words l item_offset (2 + length key) (out_value_length div 8), t1))))))"

definition table_test :: "u64 \<Rightarrow> u64 list \<Rightarrow> ltable \<Rightarrow> Result res" where
  "table_test key_hash key t =
     assertion (byte_length key \<le> kMaxKeyLength) (
       ebind (vec_at (buckets t) (unat (calc_bucket_index t key_hash))) (\<lambda>b.
       ebind (read_version_begin (table_mode t) b) (\<lambda>version_start.
         Inr (if find_item_index (pool t) b key_hash (calc_tag key_hash) key \<noteq> kBucketSize then kSuccess else kNotFound))))"

definition table_del :: "u64 \<Rightarrow> u64 list \<Rightarrow> ltable \<Rightarrow> (Result \<times> ltable) res" where
  "table_del key_hash key t =
     assertion (byte_length key \<le> kMaxKeyLength) (
       let bi = unat (calc_bucket_index t key_hash); l = pool t
       in ebind (vec_at (buckets t) bi) (\<lambda>b0.
          ebind (lock_bucket (table_mode t) b0) (\<lambda>b.
            let i = find_item_index l b key_hash (calc_tag key_hash) key
            in if i = kBucketSize then ebind (release_bucket bi b t) (\<lambda>t1. Inr (kNotFound, t1))
               else let l1 = log_release (get_item_offset (item_vec b ! i)) l
                    in ebind (release_bucket bi (set_entry i 0 b) (t\<lparr>pool := l1\<rparr>)) (\<lambda>t1. Inr (kSuccess, t1)))))"

definition table_increment :: "u64 \<Rightarrow> u64 list \<Rightarrow> u64 \<Rightarrow> ltable \<Rightarrow> (Result \<times> u64 option \<times> ltable) res" where
  "table_increment key_hash key increment t =
     assertion (byte_length key \<le> kMaxKeyLength) (
       let bi = unat (calc_bucket_index t key_hash); l = pool t
       in ebind (vec_at (buckets t) bi) (\<lambda>b0.
          ebind (lock_bucket (table_mode t) b0) (\<lambda>b.
            let i = find_item_index l b key_hash (calc_tag key_hash) key; item_offset = get_item_offset (item_vec b ! i)
            in if i = kBucketSize then ebind (release_bucket bi b t) (\<lambda>t1. Inr (kNotFound, None, t1))
               else if \<not> is_valid l item_offset then ebind (release_bucket bi b t) (\<lambda>t1. Inr (kError, None, t1))
               else if unat (get_value_length (item_kv_length_vec l item_offset)) \<noteq> 8
               then ebind (release_bucket bi b t) (\<lambda>t1. Inr (kError, None, t1))
               else let new_value = item_word l item_offset (2 + length key) + increment
                    in ebind (release_bucket bi b (t\<lparr>pool := set_item_word l item_offset (2 + length key) new_value\<rparr>)) (\<lambda>t1.
                         Inr (kSuccess, Some new_value, t1)))))"

section \<open>Creating a table\<close>

function log_num_buckets :: "u64 \<Rightarrow> nat \<Rightarrow> nat" where
  "log_num_buckets num_buckets s = (if s < 64 \<and> push_bit s 1 < num_buckets then log_num_buckets num_buckets (s + 1) else s)"
  by auto
termination by (relation "measure (\<lambda>(n, s). 64 - s)") auto

function rshift_loop :: "u64 \<Rightarrow> nat \<Rightarrow> nat" where
  "rshift_loop num_buckets r =
     (if r < 64 \<and> drop_bit r (drop_bit 1 (kItemOffsetMask + 1)) > num_buckets then rshift_loop num_buckets (r + 1) else r)"
  by auto
termination by (relation "measure (\<lambda>(n, r). 64 - r)") auto

declare log_num_buckets.simps [simp del] rshift_loop.simps [simp del]

definition empty_bucket :: bucket where
  "empty_bucket = \<lparr>version = 0, item_vec = replicate kBucketSize 0\<rparr>"

definition table_reset :: "ltable \<Rightarrow> ltable" where
  "table_reset t =
     (let l = fold (\<lambda>v. if v \<noteq> 0 then log_release (get_item_offset v) else id) (concat (map item_vec (buckets t))) (pool t)
      in t\<lparr>buckets := map (\<lambda>b. empty_bucket) (buckets t), pool := log_reset l\<rparr>)"

definition LTable :: "u64 \<Rightarrow> bool \<Rightarrow> bool \<Rightarrow> u64 \<Rightarrow> circular_log \<Rightarrow> ltable res" where
  "LTable item_count concurrent_read concurrent_write threshold l =
     (let n = (item_count * 11 div 10 + of_nat kBucketSize - 1) div of_nat kBucketSize
      in assertion (n > 0) (
         let s = log_num_buckets n 0; num_buckets = push_bit s 1
         in assertion (s \<le> 32) (
            assertion (num_buckets \<le> 4294967295) (
              Inr (table_reset
                \<lparr>pool = l, buckets = replicate (unat num_buckets) empty_bucket,
                 table_mode = (if \<not> concurrent_read then 0 else if \<not> concurrent_write then 1 else 2),
                 rshift = rshift_loop num_buckets 0, num_buckets_mask = ucast (num_buckets - 1), mth_threshold = threshold\<rparr>)))))"

end
