(* ===== verification/Mica_Invariant.thy ===== *)
theory Mica_Invariant
  imports Mica_Table
begin

text \<open>
  The invariant of the lossy table of MICA2: how packed fields are read back, what an item looks like in the memory of the log,
  which entries a bucket may hold while the log moves on, and that \<open>cleanup_bucket\<close> ends and keeps every entry within \<open>2\<^sup>4\<^sup>8\<close> bytes
  of the tail, where \<open>is_valid\<close> can be trusted.
\<close>

section \<open>Packed fields\<close>

lemma kItemOffsetMask_mask: "kItemOffsetMask = mask 48"
  by (simp add: kItemOffsetMask_def mask_eq_exp_minus_1 push_bit_eq_mult)

lemma kItemOffsetMask_eq: "kItemOffsetMask = kOffsetMask"
  by (simp add: kItemOffsetMask_mask kOffsetMask_mask)

lemma get_tag_make [simp]: "get_tag (make_item_vec tag (w AND kOffsetMask)) = tag"
  unfolding get_tag_def make_item_vec_def kOffsetMask_mask by (rule bit_word_eqI) (auto simp: bit_simps)

lemma get_item_offset_make [simp]: "get_item_offset (make_item_vec tag (w AND kOffsetMask)) = w AND kOffsetMask"
  unfolding get_item_offset_def make_item_vec_def kItemOffsetMask_mask kOffsetMask_mask by (rule bit_word_eqI) (auto simp: bit_simps)

lemma get_tag_zero [simp]: "get_tag 0 = 0"
  by (simp add: get_tag_def)

lemma calc_tag_nonzero [simp]: "calc_tag h \<noteq> 0"
  by (simp add: calc_tag_def Let_def)

lemma make_item_vec_nonzero [simp]: "tag \<noteq> 0 \<Longrightarrow> make_item_vec tag (w AND kOffsetMask) \<noteq> 0"
  by (metis get_tag_make get_tag_zero)

lemma is_valid_item_vec: "is_valid l v \<longleftrightarrow> is_valid l (get_item_offset v)"
proof -
  have "int (unat (get_item_offset v)) = int (unat v) mod 2 ^ 48"
    by (simp only: get_item_offset_def kItemOffsetMask_eq unat_kOffsetMask_and zmod_int of_nat_power of_nat_numeral)
  then have "int (unat ((log_tail l - get_item_offset v) AND kOffsetMask)) = (int (unat (log_tail l)) - int (unat v) mod 2 ^ 48) mod 2 ^ 48"
    by (simp only: sub_masked)
  also have "\<dots> = int (unat ((log_tail l - v) AND kOffsetMask))" by (simp only: sub_masked mod_diff_right_eq)
  finally have "unat ((log_tail l - get_item_offset v) AND kOffsetMask) = unat ((log_tail l - v) AND kOffsetMask)" by (simp only: of_nat_eq_iff)
  then show ?thesis by (simp only: is_valid_def word_le_nat_alt)
qed

lemma unat_u32_of_nat: "n < 2 ^ 32 \<Longrightarrow> unat (of_nat n :: u32) = n"
  by (simp add: unat_of_nat)

lemma kValueMask_mask: "kValueMask = mask 24"
  by (simp add: kValueMask_def mask_eq_exp_minus_1 push_bit_eq_mult)

lemma kv_lengths:
  assumes "k < 256" and "v < 2 ^ 24"
  shows "unat (get_key_length (make_kv_length_vec (of_nat k) (of_nat v))) = k"
    and "unat (get_value_length (make_kv_length_vec (of_nat k) (of_nat v))) = v"
proof -
  have v: "take_bit 24 (of_nat v :: u32) = of_nat v" 
    using assms(2) by (simp add: take_bit_of_nat take_bit_nat_eq_self)
  have k: "take_bit 8 (of_nat k :: u32) = of_nat k"
    using assms(1) by (simp add: take_bit_of_nat take_bit_nat_eq_self)
  have "get_key_length (make_kv_length_vec x y) = x" if "take_bit 8 x = x" "take_bit 24 y = y" for x y :: u32
  proof (rule bit_word_eqI)
    fix n assume "n < LENGTH(32)"
    have "bit x n \<longrightarrow> n < 8" using that(1) by (metis bit_take_bit_iff)
    moreover have "bit y (24 + n) \<longrightarrow> False" using that(2) by (metis bit_take_bit_iff not_add_less1)
    ultimately show "bit (get_key_length (make_kv_length_vec x y)) n = bit x n"
      unfolding get_key_length_def make_kv_length_vec_def by (auto simp: bit_simps)
  qed
  then show "unat (get_key_length (make_kv_length_vec (of_nat k) (of_nat v))) = k" using k v assms by (simp add: unat_u32_of_nat)
  have "get_value_length (make_kv_length_vec x y) = y" if "take_bit 24 y = y" for x y :: u32
  proof (rule bit_word_eqI)
    fix n assume "n < LENGTH(32)"
    have "bit y n \<longrightarrow> n < 24" using that by (metis bit_take_bit_iff)
    then show "bit (get_value_length (make_kv_length_vec x y)) n = bit y n"
      unfolding get_value_length_def make_kv_length_vec_def kValueMask_mask by (auto simp: bit_simps)
  qed
  then show "unat (get_value_length (make_kv_length_vec (of_nat k) (of_nat v))) = v" using v assms by (simp add: unat_u32_of_nat)
qed

lemma low_half [simp]: "ucast (push_bit 32 (drop_bit 32 w) OR ucast kv :: u64) = (kv :: u32)"
  by (rule bit_word_eqI) (auto simp: bit_simps)

section \<open>Items\<close>

text \<open>The words of an item after the header of the pool; \<open>r\<close> holds the lengths and the reserved half word.\<close>

definition item_data :: "u64 \<Rightarrow> u64 \<Rightarrow> u64 list \<Rightarrow> u64 list \<Rightarrow> u64 list" where
  "item_data r h key val = r # h # key @ val"

text \<open>An item at word \<open>p\<close> with room for \<open>n\<close> words, the header included.\<close>

definition item_at :: "circular_log \<Rightarrow> nat \<Rightarrow> nat \<Rightarrow> u64 \<Rightarrow> u64 list \<Rightarrow> u64 list \<Rightarrow> bool" where
  "item_at l p n h key val \<longleftrightarrow> cell l p = of_nat (8 * n) \<and> 3 + length key + length val \<le> n \<and>
     (\<exists>r. ucast r = make_kv_length_vec (of_nat (byte_length key)) (of_nat (byte_length val)) \<and> holds_item l p (item_data r h key val))"

definition small :: "u64 list \<Rightarrow> u64 list \<Rightarrow> bool" where
  "small key val \<longleftrightarrow> byte_length key \<le> kMaxKeyLength \<and> byte_length val \<le> kMaxValueLength"

lemma smallD:
  assumes "small key val"
  shows "length key < 32" and "length val < 131072" and "byte_length key < 256" and "byte_length val < 2 ^ 24"
  using assms by (simp_all add: small_def byte_length_def kMaxKeyLength_def kMaxValueLength_def)

lemma holds_item_words:
  assumes "holds_item l p ws" and "log_geometry l" and "at_pos w p" and "i + n \<le> length ws"
  shows "item_words l w i n = take n (drop i ws)"
  unfolding item_words_cells [OF assms(2,3)] using assms(1,4) by (intro nth_equalityI) (simp_all add: holds_item_def)

lemma holds_item_word: "holds_item l p ws \<Longrightarrow> log_geometry l \<Longrightarrow> at_pos w p \<Longrightarrow> i < length ws \<Longrightarrow> item_word l w i = ws ! i"
  by (simp add: item_word_cell holds_item_def)

text \<open>What the table reads from an item.\<close>

lemma item_at_reads:
  assumes "item_at l p n h key val" and "log_geometry l" and "at_pos w p" and "small key val"
  shows "item_len l w = of_nat (8 * n)" and "item_key_hash l w = h"
    and "unat (get_key_length (item_kv_length_vec l w)) = byte_length key"
    and "unat (get_value_length (item_kv_length_vec l w)) = byte_length val"
    and "item_words l w 2 (length key) = key" and "c \<le> length val \<Longrightarrow> item_words l w (2 + length key) c = take c val"
proof -
  from assms(1) obtain r where len: "cell l p = of_nat (8 * n)"
    and r: "ucast r = make_kv_length_vec (of_nat (byte_length key)) (of_nat (byte_length val))" and d: "holds_item l p (item_data r h key val)"
    by (auto simp: item_at_def)
  note word = holds_item_word [OF d assms(2,3)] and words = holds_item_words [OF d assms(2,3)]
  show "item_len l w = of_nat (8 * n)"
    using len log_read_cell [OF assms(2,3), of 0] unfolding item_len_def by (simp del: of_nat_mult)
  show "item_key_hash l w = h" using word [of 1] by (simp add: item_key_hash_def item_data_def)
  have "item_kv_length_vec l w = make_kv_length_vec (of_nat (byte_length key)) (of_nat (byte_length val))"
    using r word [of 0] by (simp add: item_kv_length_vec_def item_data_def)
  then show "unat (get_key_length (item_kv_length_vec l w)) = byte_length key"
    "unat (get_value_length (item_kv_length_vec l w)) = byte_length val"
    using kv_lengths smallD(3,4) [OF assms(4)] by simp_all
  show "item_words l w 2 (length key) = key" using words [of 2 "length key"] by (simp add: item_data_def)
  show "c \<le> length val \<Longrightarrow> item_words l w (2 + length key) c = take c val"
    using words [of "2 + length key" c] by (simp add: item_data_def)
qed

lemma item_at_matches:
  assumes "item_at l p n h key val" and "log_geometry l" and "at_pos (get_item_offset v) p" and "small key val" and "get_tag v = calc_tag h"
  shows "item_matches l h (calc_tag h) key v"
  using item_at_reads [OF assms(1-4)] assms(5) by (simp add: item_matches_def compare_keys_def)

lemma matches_item_at:
  assumes "item_matches l h' tag key' v" and "item_at l p n h key val" and "log_geometry l" and "at_pos (get_item_offset v) p" and "small key val"
  shows "h' = h" and "key' = key"
proof -
  note r = item_at_reads [OF assms(2-5)]
  show "h' = h" using assms(1) r(2) by (simp add: item_matches_def)
  have "byte_length key' = byte_length key" "item_words l (get_item_offset v) 2 (length key') = key'"
    using assms(1) r(3) by (simp_all add: item_matches_def compare_keys_def)
  moreover from this(1) have "length key' = length key" by (simp add: byte_length_def)
  ultimately show "key' = key" using r(5) by simp
qed

lemma item_at_cong:
  assumes "item_at l p n h key val" and "\<And>i. i < n \<Longrightarrow> cell l' (p + i) = cell l (p + i)"
  shows "item_at l' p n h key val"
proof -
  from assms(1) obtain r where r: "cell l p = of_nat (8 * n)" "3 + length key + length val \<le> n"
    "ucast r = make_kv_length_vec (of_nat (byte_length key)) (of_nat (byte_length val))" "holds_item l p (item_data r h key val)"
    by (auto simp: item_at_def)
  have "cell l' p = cell l p" using assms(2) [of 0] r(2) by simp
  moreover have "holds_item l' p (item_data r h key val)"
    unfolding holds_item_def
  proof (intro allI impI)
    fix i assume i: "i < length (item_data r h key val)"
    then have "cell l' (p + Suc i) = cell l (p + Suc i)" using r(2) by (intro assms(2)) (simp add: item_data_def)
    then show "cell l' (p + Suc i) = item_data r h key val ! i" using r(4) i by (simp add: holds_item_def)
  qed
  ultimately show ?thesis using r unfolding item_at_def by metis
qed

text \<open>Writing an item writes its words one after the other.\<close>

lemma copy_words_append: "copy_words w i (xs @ ys) l = copy_words w (i + length xs) ys (copy_words w i xs l)"
  by (induction xs arbitrary: i l) simp_all

lemma set_item_eq:
  assumes "small key val"
  shows "\<exists>r. set_item w h key val l = Inr (copy_words w 0 (item_data r h key val) l) \<and>
    ucast r = make_kv_length_vec (of_nat (byte_length key)) (of_nat (byte_length val))"
proof -
  let ?r = "push_bit 32 (drop_bit 32 (item_word l w 0)) OR ucast (make_kv_length_vec (of_nat (byte_length key)) (of_nat (byte_length val)))"
  have "byte_length key \<le> unat kKeyMask" "byte_length val \<le> unat kValueMask"
    using smallD(3,4) [OF assms] by (simp_all add: kKeyMask_def kValueMask_def push_bit_eq_mult)
  then have "set_item w h key val l = Inr (copy_words w 0 (item_data ?r h key val) l)"
    by (simp add: set_item_def assertion_def Let_def set_kv_length_vec_def item_data_def copy_words_append numeral_2_eq_2)
  then show ?thesis by (intro exI [of _ ?r]) simp
qed

section \<open>Entries\<close>

text \<open>
  A table of \<open>2\<^sup>b\<close> buckets divides the offsets into spans of \<open>2\<^sup>4\<^sup>7\<^sup>-\<^sup>b\<close> bytes; when the tail has passed \<open>Q\<close> spans, bucket
  \<open>q mod 2\<^sup>b\<close> has been cleaned up for each \<open>q < Q\<close>. An entry of bucket \<open>j\<close> then is at most one round of cleaning behind, and as
  long as its item has not been reached again, that item holds what \<open>m\<close> says. Here \<open>ns\<close> are the sizes of all items ever appended.
\<close>

type_synonym contents = "u64 \<times> u64 list \<rightharpoonup> u64 list"

definition bucket_of :: "nat \<Rightarrow> u64 \<Rightarrow> nat" where
  "bucket_of b h = unat (ucast (drop_bit 16 h) :: u32) mod 2 ^ b"

definition cleaned :: "nat \<Rightarrow> nat \<Rightarrow> nat \<Rightarrow> nat \<Rightarrow> bool" where
  "cleaned b Q j e \<longleftrightarrow> (\<forall>q<Q. q mod 2 ^ b = j \<longrightarrow> Suc q * 2 ^ (47 - b) \<le> e)"

definition entry_ok :: "nat \<Rightarrow> circular_log \<Rightarrow> contents \<Rightarrow> nat list \<Rightarrow> nat \<Rightarrow> nat \<Rightarrow> u64 \<Rightarrow> bool" where
  "entry_ok b l m ns Q j v \<longleftrightarrow> (\<exists>p n h key val. v = make_item_vec (calc_tag h) (of_nat (8 * p) AND kOffsetMask) \<and> item_of ns p n \<and>
     bucket_of b h = j \<and> cleaned b Q j (8 * (p + words l)) \<and>
     (sum_list ns \<le> p + words l \<longrightarrow> item_at l p n h key val \<and> small key val \<and> m (h, key) = Some val))"

definition same_entry :: "u64 list \<Rightarrow> nat \<Rightarrow> nat \<Rightarrow> bool" where
  "same_entry vs i k \<longleftrightarrow> vs ! i \<noteq> 0 \<and> vs ! k \<noteq> 0 \<and> get_tag (vs ! i) = get_tag (vs ! k)"

definition entries_ok :: "nat \<Rightarrow> circular_log \<Rightarrow> contents \<Rightarrow> nat list \<Rightarrow> nat \<Rightarrow> nat \<Rightarrow> u64 list \<Rightarrow> bool" where
  "entries_ok b l m ns Q j vs \<longleftrightarrow> length vs = kBucketSize \<and> (\<forall>v\<in>set vs. v \<noteq> 0 \<longrightarrow> entry_ok b l m ns Q j v) \<and>
     (\<forall>i<kBucketSize. \<forall>k<kBucketSize. same_entry vs i k \<longrightarrow> i = k)"

definition unlocked :: "nat \<Rightarrow> bucket \<Rightarrow> bool" where
  "unlocked mode bk \<longleftrightarrow> mode \<noteq> 0 \<longrightarrow> version bk AND 1 = 0"

definition table_geometry :: "nat \<Rightarrow> ltable \<Rightarrow> bool" where
  "table_geometry b t \<longleftrightarrow> 1 \<le> b \<and> b \<le> 31 \<and> length (buckets t) = 2 ^ b \<and> num_buckets_mask t = mask b \<and> rshift t = 47 - b \<and> table_mode t \<le> 2"

definition table_ok :: "nat \<Rightarrow> contents \<Rightarrow> nat list \<Rightarrow> nat \<Rightarrow> ltable \<Rightarrow> bool" where
  "table_ok b m ns Q t \<longleftrightarrow> table_geometry b t \<and> log_layout (pool t) ns \<and>
     (\<forall>j<2 ^ b. unlocked (table_mode t) (buckets t ! j) \<and> entries_ok b (pool t) m ns Q j (item_vec (buckets t ! j)))"

lemma unat_u32_and_mask: "unat (w AND mask k :: u32) = unat w mod 2 ^ k"
proof -
  have "unat (w AND mask k) = take_bit k (unat w)" by (simp only: take_bit_eq_mask [symmetric] unsigned_take_bit_eq)
  then show ?thesis by (simp only: take_bit_eq_mod)
qed

lemma calc_bucket_index_eq: "table_geometry b t \<Longrightarrow> unat (calc_bucket_index t h) = bucket_of b h"
  unfolding calc_bucket_index_def bucket_of_def table_geometry_def by (simp only: unat_u32_and_mask)

lemma bucket_of_less [simp]: "bucket_of b h < 2 ^ b"
  by (simp add: bucket_of_def)

text \<open>Cleaning keeps the distance of an entry from the tail below \<open>2\<^sup>4\<^sup>8\<close> bytes.\<close>

lemma cleaned_distance:
  assumes "cleaned b Q j e" and "j < 2 ^ b" and "b \<le> 47" and "T < Suc Q * 2 ^ (47 - b) + d"
  shows "T < e + 2 ^ 47 + d"
proof -
  let ?N = "2 ^ b :: nat" and ?u = "2 ^ (47 - b) :: nat"
  have span: "?N * ?u = 2 ^ 47" using assms(3) by (simp flip: power_add)
  show ?thesis
  proof (cases "Q < ?N")
    case True
    then have "Suc Q * ?u \<le> ?N * ?u" by (intro mult_le_mono1) simp
    then show ?thesis using assms(4) unfolding span by linarith
  next
    case False
    define q where "q = j + ?N * ((Q - 1 - j) div ?N)"
    have "?N * ((Q - 1 - j) div ?N) \<le> Q - 1 - j" by simp
    then have less: "q < Q" using False assms(2) unfolding q_def by linarith
    have "Q - 1 - j < ?N * ((Q - 1 - j) div ?N) + ?N" using dividend_less_times_div [of ?N "Q - 1 - j"] by simp
    then have "Q \<le> q + ?N" using False assms(2) unfolding q_def by linarith
    then have "Suc Q * ?u \<le> (Suc q + ?N) * ?u" by (intro mult_le_mono1) simp
    moreover have "q mod ?N = j" using assms(2) by (simp add: q_def)
    with assms(1) less have "Suc q * ?u \<le> e" unfolding cleaned_def by blast
    ultimately show ?thesis using assms(4) unfolding distrib_right span by linarith
  qed
qed

lemma cleaned_new: "Q * 2 ^ (47 - b) \<le> e \<Longrightarrow> cleaned b Q j e"
proof -
  assume e: "Q * 2 ^ (47 - b) \<le> e"
  have "Suc q * 2 ^ (47 - b) \<le> Q * 2 ^ (47 - b)" if "q < Q" for q using that by (intro mult_le_mono1) simp
  with e show ?thesis unfolding cleaned_def using le_trans by blast
qed

lemma cleaned_Suc: "cleaned b (Suc Q) j e \<longleftrightarrow> cleaned b Q j e \<and> (Q mod 2 ^ b = j \<longrightarrow> Suc Q * 2 ^ (47 - b) \<le> e)"
  by (auto simp: cleaned_def less_Suc_eq)

lemma of_nat_pos: "8 * p < 2 ^ 64 \<Longrightarrow> at_pos (of_nat (8 * p) AND kOffsetMask) p"
  by (intro at_pos_masked) (simp add: at_pos_def unat_of_nat del: of_nat_mult)

text \<open>So \<open>is_valid\<close> says of an entry exactly whether its item is still there; \<open>d\<close> is what one operation may append.\<close>

lemma entry_valid:
  assumes "log_layout l ns" and "item_of ns p n" and "cleaned b Q j (8 * (p + words l))" and "j < 2 ^ b" and "b \<le> 31"
    and "8 * sum_list ns < Suc Q * 2 ^ (47 - b) + 2 ^ 22"
  shows "at_pos (of_nat (8 * p) AND kOffsetMask) p" and "is_valid l (of_nat (8 * p) AND kOffsetMask) \<longleftrightarrow> sum_list ns \<le> p + words l"
proof -
  have g: "log_geometry l" using assms(1) by (simp add: log_layout_def)
  have tail: "unat (log_tail l) = 8 * sum_list ns" by (rule log_layout_tail [OF assms(1)])
  note e = item_of_end [OF assms(2)]
  have "8 * sum_list ns < 2 ^ 64" using unsigned_less [where 'a = nat, of "log_tail l"] unfolding tail by simp
  then show pos: "at_pos (of_nat (8 * p) AND kOffsetMask) p" using e by (intro of_nat_pos) linarith
  have "8 * words l \<le> 2 ^ 46" using size_bound [OF g] by (simp only: size_words [OF g])
  moreover have "8 * sum_list ns < 8 * (p + words l) + 2 ^ 47 + 2 ^ 22"
    by (rule cleaned_distance [OF assms(3,4) _ assms(6)]) (use assms(5) in simp)
  ultimately have "8 * (sum_list ns - p) < 2 ^ 48" by (simp add: diff_mult_distrib2)
  then show "is_valid l (of_nat (8 * p) AND kOffsetMask) \<longleftrightarrow> sum_list ns \<le> p + words l"
    using is_valid_pos [OF g pos tail] e by linarith
qed

text \<open>An entry stays good when its item keeps its words and nobody changes what \<open>m\<close> says of its key.\<close>

lemma entry_ok_keep:
  assumes "entry_ok b l m ns Q j v" and "words l' = words l" and "sum_list ns \<le> sum_list ns'" and "\<And>p n. item_of ns p n \<Longrightarrow> item_of ns' p n"
    and "\<And>p n h key val i. item_of ns p n \<Longrightarrow> item_at l p n h key val \<Longrightarrow> calc_tag h = get_tag v \<Longrightarrow> bucket_of b h = j \<Longrightarrow>
      sum_list ns' \<le> p + words l \<Longrightarrow> i < n \<Longrightarrow> cell l' (p + i) = cell l (p + i)"
    and "\<And>h key. calc_tag h = get_tag v \<Longrightarrow> bucket_of b h = j \<Longrightarrow> m' (h, key) = m (h, key)"
  shows "entry_ok b l' m' ns' Q j v"
proof -
  from assms(1) obtain p n h key val where v: "v = make_item_vec (calc_tag h) (of_nat (8 * p) AND kOffsetMask)" and i: "item_of ns p n"
    and j: "bucket_of b h = j" and c: "cleaned b Q j (8 * (p + words l))"
    and d: "sum_list ns \<le> p + words l \<longrightarrow> item_at l p n h key val \<and> small key val \<and> m (h, key) = Some val"
    unfolding entry_ok_def by blast
  have tag: "calc_tag h = get_tag v" by (simp add: v)
  have "item_at l' p n h key val \<and> small key val \<and> m' (h, key) = Some val" if "sum_list ns' \<le> p + words l"
  proof -
    from d that assms(3) have old: "item_at l p n h key val" "small key val" "m (h, key) = Some val" by simp_all
    have "item_at l' p n h key val" by (rule item_at_cong [OF old(1)]) (rule assms(5) [OF i old(1) tag j that])
    with old assms(6) [OF tag j] show ?thesis by simp
  qed
  then show ?thesis unfolding entry_ok_def using v i [THEN assms(4)] j c assms(2) by metis
qed

lemma entry_ok_grow:
  assumes "entry_ok b l m ns Q j v" and "log_grows l ns n ws l'"
    and "\<And>h key. calc_tag h = get_tag v \<Longrightarrow> bucket_of b h = j \<Longrightarrow> m' (h, key) = m (h, key)"
  shows "entry_ok b l' m' (ns @ [n]) Q j v"
proof (rule entry_ok_keep [OF assms(1) _ _ _ _ assms(3)])
  show "words l' = words l" using assms(2) by (simp add: log_grows_def words_def)
  fix p k h key val i assume i: "item_of ns p k" "sum_list (ns @ [n]) \<le> p + words l" "i < k"
  then show "cell l' (p + i) = cell l (p + i)" using assms(2) item_of_end [OF i(1)] unfolding log_grows_def by simp
qed (simp_all add: item_of_snoc)

lemma entry_ok_new:
  assumes "log_grows l ns n (item_data r h key val) l'" and "n = 3 + length key + length val" and "small key val"
    and "ucast r = make_kv_length_vec (of_nat (byte_length key)) (of_nat (byte_length val))"
    and "m (h, key) = Some val" and "Q * 2 ^ (47 - b) \<le> 8 * sum_list ns"
  shows "entry_ok b l' m (ns @ [n]) Q (bucket_of b h) (make_item_vec (calc_tag h) (of_nat (8 * sum_list ns) AND kOffsetMask))"
proof -
  have "cleaned b Q (bucket_of b h) (8 * (sum_list ns + words l'))" by (rule cleaned_new) (use assms(6) in simp)
  moreover have "item_at l' (sum_list ns) n h key val" using assms(1,2,4) by (auto simp: item_at_def log_grows_def)
  ultimately show ?thesis unfolding entry_ok_def using assms(3,5) by (metis item_of_snoc)
qed

text \<open>Two items whose places have not been reached again do not overlap.\<close>

lemma write_apart:
  assumes "log_layout l ns" and "item_of ns p n" and "item_of ns q k" and "p \<noteq> q" and "i < n" and "c < k"
    and "sum_list ns \<le> p + words l" and "sum_list ns \<le> q + words l"
  shows "(p + i) mod words l \<noteq> (q + c) mod words l"
proof
  assume eq: "(p + i) mod words l = (q + c) mod words l"
  have "p + i < sum_list ns" "q + c < sum_list ns" using item_of_end [OF assms(2)] item_of_end [OF assms(3)] assms(5,6) by simp_all
  then have "p + i = q + c" using mod_window [OF eq] mod_window [OF eq [symmetric]] assms(7,8) by linarith
  moreover have pos: "\<forall>n\<in>set ns. 0 < n" using assms(1) by (simp add: log_layout_def)
  ultimately show False using items_apart [OF assms(2,3) pos] items_apart [OF assms(3,2) pos] assms(4-6) by linarith
qed

lemma item_at_hash:
  assumes "item_at l p n h key val" and "item_at l p n' h' key' val'"
  shows "h = h'"
proof -
  from assms obtain r r' where "holds_item l p (item_data r h key val)" "holds_item l p (item_data r' h' key' val')" unfolding item_at_def by blast
  then have "cell l (p + Suc 1) = h" "cell l (p + Suc 1) = h'" unfolding holds_item_def item_data_def by (auto dest: spec [of _ 1])
  then show ?thesis by simp
qed

text \<open>Writing into the item of one entry leaves the others alone.\<close>

lemma entry_ok_write:
  assumes "log_layout l ns" and "entry_ok b l m ns Q j v" and "item_of ns p n" and "item_at l p n h key val" and "sum_list ns \<le> p + words l"
    and "words l' = words l" and "\<And>q. (\<And>i. i < n \<Longrightarrow> q mod words l \<noteq> (p + i) mod words l) \<Longrightarrow> cell l' q = cell l q"
    and "\<not> (calc_tag h = get_tag v \<and> bucket_of b h = j)"
    and "\<And>h' key'. h' \<noteq> h \<Longrightarrow> m' (h', key') = m (h', key')"
  shows "entry_ok b l' m' ns Q j v"
proof (rule entry_ok_keep [OF assms(2,6)])
  fix q k h' key' val' i
  assume q: "item_of ns q k" "item_at l q k h' key' val'" "calc_tag h' = get_tag v" "bucket_of b h' = j" "sum_list ns \<le> q + words l" "i < k"
  have "q \<noteq> p" using item_at_hash [OF q(2), of n h key val] assms(4,8) q(3,4) by auto
  then show "cell l' (q + i) = cell l (q + i)"
    using write_apart [OF assms(1) q(1) assms(3) _ q(6) _ q(5) assms(5)] by (intro assms(7)) blast
next
  fix h' key' assume "calc_tag h' = get_tag v" "bucket_of b h' = j"
  then show "m' (h', key') = m (h', key')" using assms(8) by (intro assms(9)) auto
qed simp_all

section \<open>Buckets\<close>

lemma first_slot_hit: "first_slot P vs \<noteq> length vs \<Longrightarrow> first_slot P vs < length vs \<and> P (vs ! first_slot P vs)"
  by (induction vs) auto

lemma first_slot_miss: "first_slot P vs = length vs \<longleftrightarrow> (\<forall>v\<in>set vs. \<not> P v)"
  by (induction vs) auto

lemma u32_parity: "x AND 1 = 0 \<longleftrightarrow> even x" "x AND 1 = 1 \<longleftrightarrow> odd x" for x :: u32
  by (simp only: and_one_eq even_iff_mod_2_eq_zero, simp only: and_one_eq odd_iff_mod_2_eq_one)

lemma lock_ok:
  assumes "unlocked mode bk" and "mode \<le> 2"
  shows "\<exists>b1. lock_bucket mode bk = Inr b1 \<and> item_vec b1 = item_vec bk \<and>
    (\<forall>vs. \<exists>b2. unlock_bucket mode (b1\<lparr>item_vec := vs\<rparr>) = Inr b2 \<and> item_vec b2 = vs \<and> unlocked mode b2)"
proof (cases "mode = 0")
  case False
  then have ev: "even (version bk)" using assms(1) by (simp add: unlocked_def u32_parity)
  then have low: "\<not> bit (version bk) 0" by (simp add: bit_0)
  have same: "version bk AND NOT 1 = version bk"
  proof (rule bit_word_eqI)
    fix n assume "n < LENGTH(32)"
    then show "bit (version bk AND NOT 1) n = bit (version bk) n" using low by (cases "n = 0") (simp_all add: bit_simps)
  qed
  consider "mode = 1" | "mode = 2" using False assms(2) by linarith
  then show ?thesis
  proof cases
    case 1
    then show ?thesis using ev by (simp add: lock_bucket_def unlock_bucket_def assertion_def unlocked_def u32_parity)
  next
    case 2
    then show ?thesis using ev by (simp add: lock_bucket_def unlock_bucket_def assertion_def unlocked_def u32_parity same [simplified] even_or_iff Let_def)
  qed
qed (simp add: lock_bucket_def unlock_bucket_def unlocked_def)

lemma table_locked:
  assumes "table_ok b m ns Q t" and "j < 2 ^ b"
  shows "\<exists>b1. vec_at (buckets t) j = Inr (buckets t ! j) \<and> lock_bucket (table_mode t) (buckets t ! j) = Inr b1 \<and>
    item_vec b1 = item_vec (buckets t ! j) \<and>
    (\<forall>l' m' ns' Q' vs. log_layout l' ns' \<longrightarrow> entries_ok b l' m' ns' Q' j vs \<longrightarrow>
       (\<forall>k<2 ^ b. k \<noteq> j \<longrightarrow> entries_ok b l' m' ns' Q' k (item_vec (buckets t ! k))) \<longrightarrow>
       (\<exists>t'. release_bucket j (b1\<lparr>item_vec := vs\<rparr>) (t\<lparr>pool := l'\<rparr>) = Inr t' \<and> table_ok b m' ns' Q' t' \<and> pool t' = l' \<and>
         (\<forall>k. item_vec (buckets t' ! k) = (if k = j then vs else item_vec (buckets t ! k)))))"
proof -
  have g: "table_geometry b t" and len: "length (buckets t) = 2 ^ b" and u: "unlocked (table_mode t) (buckets t ! j)" "table_mode t \<le> 2"
    using assms by (simp_all add: table_ok_def table_geometry_def)
  from lock_ok [OF u] obtain b1 where b1: "lock_bucket (table_mode t) (buckets t ! j) = Inr b1" "item_vec b1 = item_vec (buckets t ! j)"
    "\<forall>vs. \<exists>b2. unlock_bucket (table_mode t) (b1\<lparr>item_vec := vs\<rparr>) = Inr b2 \<and> item_vec b2 = vs \<and> unlocked (table_mode t) b2" by blast
  have "\<exists>t'. release_bucket j (b1\<lparr>item_vec := vs\<rparr>) (t\<lparr>pool := l'\<rparr>) = Inr t' \<and> table_ok b m' ns' Q' t' \<and> pool t' = l' \<and>
      (\<forall>k. item_vec (buckets t' ! k) = (if k = j then vs else item_vec (buckets t ! k)))"
    if l': "log_layout l' ns'" "entries_ok b l' m' ns' Q' j vs" "\<forall>k<2 ^ b. k \<noteq> j \<longrightarrow> entries_ok b l' m' ns' Q' k (item_vec (buckets t ! k))"
    for l' m' ns' Q' vs
  proof -
    from b1(3) obtain b2 where b2: "unlock_bucket (table_mode t) (b1\<lparr>item_vec := vs\<rparr>) = Inr b2" "item_vec b2 = vs" "unlocked (table_mode t) b2" by blast
    let ?t = "t\<lparr>pool := l', buckets := (buckets t)[j := b2]\<rparr>"
    have "release_bucket j (b1\<lparr>item_vec := vs\<rparr>) (t\<lparr>pool := l'\<rparr>) = Inr ?t" using b2(1) by (simp add: release_bucket_def)
    moreover have "table_ok b m' ns' Q' ?t"
      using assms l' b2(2,3) g len unfolding table_ok_def by (auto simp: nth_list_update table_geometry_def)
    ultimately show ?thesis using b2(2) assms(2) len by (intro exI [of _ ?t]) (simp add: nth_list_update)
  qed
  then show ?thesis using b1 assms(2) len by (intro exI [of _ b1]) (simp add: vec_at_def)
qed

lemma entries_ok_update:
  assumes "entries_ok b l m ns Q j vs" and "i < kBucketSize" and "v \<noteq> 0 \<Longrightarrow> entry_ok b l' m' ns' Q' j v"
    and "\<And>k. k < kBucketSize \<Longrightarrow> k \<noteq> i \<Longrightarrow> vs ! k \<noteq> 0 \<Longrightarrow> entry_ok b l' m' ns' Q' j (vs ! k)"
    and "\<And>k. k < kBucketSize \<Longrightarrow> k \<noteq> i \<Longrightarrow> vs ! k \<noteq> 0 \<Longrightarrow> v \<noteq> 0 \<Longrightarrow> get_tag (vs ! k) \<noteq> get_tag v"
  shows "entries_ok b l' m' ns' Q' j (vs[i := v])"
proof -
  have len: "length vs = kBucketSize" using assms(1) by (simp add: entries_ok_def)
  have "\<forall>w\<in>set (vs[i := v]). w \<noteq> 0 \<longrightarrow> entry_ok b l' m' ns' Q' j w"
    using assms(2-4) len by (auto simp: in_set_conv_nth nth_list_update)
  moreover have "i1 = i2" if "i1 < kBucketSize" "i2 < kBucketSize" "same_entry (vs[i := v]) i1 i2" for i1 i2
    using that assms(1,2) assms(5) [of i1] assms(5) [of i2] len
    by (cases "i1 = i"; cases "i2 = i") (auto simp: same_entry_def entries_ok_def nth_list_update)
  ultimately show ?thesis using len by (simp add: entries_ok_def)
qed

section \<open>Cleaning up\<close>

text \<open>What cleaning leaves: the pool, and each entry whose item is still there.\<close>

definition survives :: "ltable \<Rightarrow> ltable \<Rightarrow> bool" where
  "survives t t' \<longleftrightarrow> pool t' = pool t \<and> (\<forall>j v. v \<in> set (item_vec (buckets t ! j)) \<and> is_valid (pool t) v \<longrightarrow> v \<in> set (item_vec (buckets t' ! j)))"

lemma survives_trans: "survives t t' \<Longrightarrow> survives t' t'' \<Longrightarrow> survives t t''"
  by (simp add: survives_def)

lemma entry_ok_Suc:
  assumes "entry_ok b l m ns Q j v" and "Q mod 2 ^ b \<noteq> j"
  shows "entry_ok b l m ns (Suc Q) j v"
  using assms unfolding entry_ok_def cleaned_Suc by blast

lemma entry_ok_cleaned:
  assumes "entry_ok b l m ns Q j v" and "log_layout l ns" and "j < 2 ^ b" and "b \<le> 31" and "is_valid l v"
    and "Suc Q * 2 ^ (47 - b) \<le> 8 * sum_list ns" and "8 * sum_list ns < Suc Q * 2 ^ (47 - b) + 2 ^ 22"
  shows "entry_ok b l m ns (Suc Q) j v"
proof -
  from assms(1) obtain p n h key val where v: "v = make_item_vec (calc_tag h) (of_nat (8 * p) AND kOffsetMask)" and i: "item_of ns p n"
    and j: "bucket_of b h = j" and c: "cleaned b Q j (8 * (p + words l))"
    and d: "sum_list ns \<le> p + words l \<longrightarrow> item_at l p n h key val \<and> small key val \<and> m (h, key) = Some val"
    unfolding entry_ok_def by blast
  have "is_valid l (of_nat (8 * p) AND kOffsetMask)" using assms(5) is_valid_item_vec [of l v] unfolding v get_item_offset_make by blast
  then have "sum_list ns \<le> p + words l" using entry_valid(2) [OF assms(2) i c assms(3,4,7)] by simp
  then have "Suc Q * 2 ^ (47 - b) \<le> 8 * (p + words l)" by (intro le_trans [OF assms(6)]) simp
  with c have "cleaned b (Suc Q) j (8 * (p + words l))" unfolding cleaned_Suc by blast
  then show ?thesis unfolding entry_ok_def using v i j d by blast
qed

lemma cleanup_step:
  assumes "table_ok b m ns Q t" and "Suc Q * 2 ^ (47 - b) \<le> 8 * sum_list ns" and "8 * sum_list ns < Suc Q * 2 ^ (47 - b) + 2 ^ 22"
  shows "\<exists>t'. with_bucket (Q mod 2 ^ b) (cleanup_entries (pool t)) t = Inr t' \<and> table_ok b m ns (Suc Q) t' \<and> survives t t'"
proof -
  let ?j = "Q mod 2 ^ b" and ?f = "\<lambda>v. if v \<noteq> 0 \<and> \<not> is_valid (pool t) v then 0 else v"
  let ?vs = "map ?f (item_vec (buckets t ! ?j))"
  have j: "?j < 2 ^ b" by simp
  have l: "log_layout (pool t) ns" and b: "b \<le> 31" and e: "\<And>j. j < 2 ^ b \<Longrightarrow> entries_ok b (pool t) m ns Q j (item_vec (buckets t ! j))"
    using assms(1) by (simp_all add: table_ok_def table_geometry_def)
  from table_locked [OF assms(1) j] obtain b1 where b1: "vec_at (buckets t) ?j = Inr (buckets t ! ?j)"
    "lock_bucket (table_mode t) (buckets t ! ?j) = Inr b1" "item_vec b1 = item_vec (buckets t ! ?j)"
    and rel: "\<And>l' m' ns' Q' vs. log_layout l' ns' \<Longrightarrow> entries_ok b l' m' ns' Q' ?j vs \<Longrightarrow>
       \<forall>k<2 ^ b. k \<noteq> ?j \<longrightarrow> entries_ok b l' m' ns' Q' k (item_vec (buckets t ! k)) \<Longrightarrow>
       \<exists>t'. release_bucket ?j (b1\<lparr>item_vec := vs\<rparr>) (t\<lparr>pool := l'\<rparr>) = Inr t' \<and> table_ok b m' ns' Q' t' \<and> pool t' = l' \<and>
         (\<forall>k. item_vec (buckets t' ! k) = (if k = ?j then vs else item_vec (buckets t ! k)))" by blast
  have "entries_ok b (pool t) m ns (Suc Q) ?j ?vs"
    using e [OF j] entry_ok_cleaned [OF _ l j b _ assms(2,3)] unfolding entries_ok_def by (auto simp: same_entry_def split: if_splits)
  moreover have "\<forall>k<2 ^ b. k \<noteq> ?j \<longrightarrow> entries_ok b (pool t) m ns (Suc Q) k (item_vec (buckets t ! k))"
    using e entry_ok_Suc unfolding entries_ok_def by blast
  ultimately obtain t' where t': "release_bucket ?j (b1\<lparr>item_vec := ?vs\<rparr>) (t\<lparr>pool := pool t\<rparr>) = Inr t'"
    "table_ok b m ns (Suc Q) t'" "pool t' = pool t" "\<forall>k. item_vec (buckets t' ! k) = (if k = ?j then ?vs else item_vec (buckets t ! k))"
    using rel [OF l] by blast
  have "with_bucket ?j (cleanup_entries (pool t)) t = Inr t'"
    using t'(1) b1 unfolding with_bucket_def release_bucket_def by (simp add: cleanup_entries_def)
  moreover have "survives t t'" unfolding survives_def using t'(3,4) by (force simp: image_iff)
  ultimately show ?thesis using t'(2) by blast
qed

lemma unat_index:
  assumes "b \<le> 31"
  shows "unat (of_nat (q mod 2 ^ b) :: u64) = q mod 2 ^ b" and "q mod 2 ^ b < 2 ^ 31"
proof -
  have "(2 :: nat) ^ b \<le> 2 ^ 31" using assms by (intro power_increasing) simp_all
  then show less: "q mod 2 ^ b < 2 ^ 31" by (intro less_le_trans [OF mod_less_divisor]) simp_all
  then have "q mod 2 ^ b < 2 ^ 64" by (rule less_trans) simp
  then show "unat (of_nat (q mod 2 ^ b) :: u64) = q mod 2 ^ b" by (simp only: unat_of_nat) simp
qed

lemma next_bucket_index:
  assumes "b \<le> 31"
  shows "(of_nat (Q mod 2 ^ b) + 1) AND ucast (mask b :: u32) = (of_nat (Suc Q mod 2 ^ b) :: u64)"
proof -
  have less: "Suc (Q mod 2 ^ b) < 2 ^ 64" using unat_index(2) [OF assms, of Q] by simp
  have m: "ucast (mask b :: u32) = (mask b :: u64)" using assms by (simp add: ucast_mask_eq)
  have "unat (of_nat (Suc (Q mod 2 ^ b)) AND mask b :: u64) = Suc (Q mod 2 ^ b) mod 2 ^ b"
    using less by (simp only: unat_and_mask unat_of_nat) simp
  also have "\<dots> = Suc Q mod 2 ^ b" by (rule mod_Suc_eq)
  also have "\<dots> = unat (of_nat (Suc Q mod 2 ^ b) :: u64)" by (simp only: unat_index(1) [OF assms])
  finally have "of_nat (Suc (Q mod 2 ^ b)) AND mask b = (of_nat (Suc Q mod 2 ^ b) :: u64)" by (simp only: word_unat_eq_iff)
  then show ?thesis unfolding m by (simp add: add.commute)
qed

text \<open>The loop cleans one bucket for each span the tail has passed, and ends.\<close>

lemma cleanup_buckets_ok:
  assumes "table_ok b m ns Q t" and "Q' = Q + c" and "c < 2 ^ b" and "Q' * 2 ^ (47 - b) \<le> 8 * sum_list ns"
    and "8 * sum_list ns < Suc Q * 2 ^ (47 - b) + 2 ^ 22"
  shows "\<exists>t'. cleanup_buckets (of_nat (Q mod 2 ^ b)) (of_nat (Q' mod 2 ^ b)) t = Some (Inr t') \<and> table_ok b m ns Q' t' \<and> survives t t'"
  using assms
proof (induction c arbitrary: Q t)
  case 0
  then show ?case by (subst cleanup_buckets.simps) (simp add: survives_def)
next
  case (Suc c)
  have g: "num_buckets_mask t = mask b" "b \<le> 31" using Suc.prems(1) by (simp_all add: table_ok_def table_geometry_def)
  note index = unat_index(1) [OF g(2)]
  have "Q mod 2 ^ b \<noteq> Q' mod 2 ^ b" using mod_window [of Q "2 ^ b" Q'] Suc.prems(2,3) by auto
  then have going: "(of_nat (Q mod 2 ^ b) :: u64) \<noteq> of_nat (Q' mod 2 ^ b)" using index by metis
  have spans: "Suc Q * 2 ^ (47 - b) \<le> Q' * 2 ^ (47 - b)" "Suc Q * 2 ^ (47 - b) \<le> Suc (Suc Q) * 2 ^ (47 - b)"
    using Suc.prems(2) by (intro mult_le_mono1; simp)+
  from cleanup_step [OF Suc.prems(1) le_trans [OF spans(1) Suc.prems(4)] Suc.prems(5)] obtain t1 where
    t1: "with_bucket (Q mod 2 ^ b) (cleanup_entries (pool t)) t = Inr t1" "table_ok b m ns (Suc Q) t1" "survives t t1" by blast
  have "8 * sum_list ns < Suc (Suc Q) * 2 ^ (47 - b) + 2 ^ 22" using Suc.prems(5) spans(2) by (meson add_le_mono1 less_le_trans)
  with Suc.IH [OF t1(2) _ _ Suc.prems(4)] Suc.prems(2,3) obtain t' where
    t': "cleanup_buckets (of_nat (Suc Q mod 2 ^ b)) (of_nat (Q' mod 2 ^ b)) t1 = Some (Inr t')" "table_ok b m ns Q' t'" "survives t1 t'"
    by auto
  have "cleanup_buckets (of_nat (Q mod 2 ^ b)) (of_nat (Q' mod 2 ^ b)) t = Some (Inr t')"
    using going t1(1) t'(1) by (subst cleanup_buckets.simps) (simp only: index g(1) next_bucket_index [OF g(2)] not_False_eq_True if_True sum.case)
  then show ?case using t'(2) survives_trans [OF t1(3) t'(3)] by blast
qed

lemma bucket_index_of_offset:
  assumes "b \<le> 31" and "unat w mod 2 ^ 48 = T mod 2 ^ 48"
  shows "drop_bit (47 - b) w AND ucast (mask b :: u32) = (of_nat (T div 2 ^ (47 - b) mod 2 ^ b) :: u64)"
proof -
  let ?u = "2 ^ (47 - b) :: nat" and ?N = "2 ^ b :: nat"
  have m: "ucast (mask b :: u32) = (mask b :: u64)" using assms(1) by (simp add: ucast_mask_eq)
  have span: "(2 :: nat) ^ 48 = ?u * (2 * ?N)" using assms(1) by (simp flip: power_add power_Suc)
  have part: "x div ?u mod ?N = x mod 2 ^ 48 div ?u mod ?N" for x
  proof -
    have "x mod 2 ^ 48 div ?u = x div ?u mod (2 * ?N)" unfolding span by (simp add: mod_mult2_eq)
    then show ?thesis by (simp add: mod_mod_cancel)
  qed
  have "unat (drop_bit (47 - b) w AND mask b) = unat w div ?u mod ?N" by (simp only: unat_and_mask unat_drop_bit_eq drop_bit_eq_div [where 'a = nat])
  also have "\<dots> = T div ?u mod ?N" by (simp only: part [of "unat w"] part [of T] assms(2))
  also have "\<dots> = unat (of_nat (T div ?u mod ?N) :: u64)" by (simp only: unat_index(1) [OF assms(1)])
  finally show ?thesis by (simp only: m word_unat_eq_iff)
qed

text \<open>\<open>cleanup_bucket\<close> after an append that moved the tail from \<open>T\<close> by less than \<open>2\<^sup>2\<^sup>2\<close> bytes.\<close>

lemma cleanup_bucket_ok:
  assumes "table_ok b m ns Q t" and "unat w mod 2 ^ 48 = T mod 2 ^ 48" and "Q = T div 2 ^ (47 - b)"
    and "T \<le> 8 * sum_list ns" and "8 * sum_list ns < T + 2 ^ 22"
  shows "\<exists>t'. cleanup_bucket w (log_tail (pool t)) t = Inr t' \<and> table_ok b m ns (8 * sum_list ns div 2 ^ (47 - b)) t' \<and> survives t t'"
proof -
  let ?u = "2 ^ (47 - b) :: nat" and ?N = "2 ^ b :: nat"
  define Q' where "Q' = 8 * sum_list ns div ?u"
  have g: "1 \<le> b" "b \<le> 31" "rshift t = 47 - b" "num_buckets_mask t = mask b" and tail: "unat (log_tail (pool t)) = 8 * sum_list ns"
    using assms(1) log_layout_tail unfolding table_ok_def table_geometry_def by auto
  have T: "Q * ?u \<le> T" "T < Suc Q * ?u" using assms(3) by (simp_all add: dividend_less_div_times)
  have "Q \<le> Q'" unfolding assms(3) Q'_def using assms(4) by (rule div_le_mono)
  then obtain c where c: "Q' = Q + c" by (auto simp: le_iff_add)
  have Q': "Q' * ?u \<le> 8 * sum_list ns" by (simp add: Q'_def)
  have "c < ?N"
  proof (rule ccontr)
    assume "\<not> c < ?N"
    then have "(Q + ?N) * ?u \<le> Q' * ?u" unfolding c by (intro mult_le_mono1) simp
    then have "Q * ?u + 2 ^ 47 \<le> 8 * sum_list ns" using Q' g(2) by (simp add: distrib_right flip: power_add)
    moreover have "?u \<le> 2 ^ 46" using g(1) by (intro power_increasing) simp_all
    ultimately show False using T(2) assms(5) by simp
  qed
  moreover have "8 * sum_list ns < Suc Q * ?u + 2 ^ 22" using T(2) assms(5) by linarith
  ultimately obtain t' where "cleanup_buckets (of_nat (Q mod ?N)) (of_nat (Q' mod ?N)) t = Some (Inr t')" "table_ok b m ns Q' t'" "survives t t'"
    using cleanup_buckets_ok [OF assms(1) c _ Q'] by blast
  moreover have "drop_bit (rshift t) w AND ucast (num_buckets_mask t) = (of_nat (Q mod ?N) :: u64)"
    unfolding g(3,4) assms(3) by (rule bucket_index_of_offset [OF g(2) assms(2)])
  moreover have "drop_bit (rshift t) (log_tail (pool t)) AND ucast (num_buckets_mask t) = (of_nat (Q' mod ?N) :: u64)"
    unfolding g(3,4) Q'_def by (rule bucket_index_of_offset [OF g(2)]) (simp only: tail)
  ultimately show ?thesis unfolding cleanup_bucket_def Q'_def by simp
qed

end
