(* ===== verification/Mica_Cache.thy ===== *)
theory Mica_Cache
  imports Mica_Invariant
begin

text \<open>
  Every operation of the lossy table of MICA2 keeps the invariant, with the contents a user would expect: writing into items, the
  entries after an operation, and then \<open>set\<close>, \<open>move_to_head\<close>, \<open>get\<close>, \<open>del\<close>, \<open>increment\<close> and the constructor of the table in turn.
\<close>

section \<open>Writing into an item\<close>

text \<open>Two words of one item are different cells of the log.\<close>

lemma same_item_apart:
  assumes "item_of ns p n" and "sum_list ns \<le> p + words l" and "i < n" and "j < n" and "i \<noteq> j"
  shows "(p + i) mod words l \<noteq> (p + j) mod words l"
proof
  assume eq: "(p + i) mod words l = (p + j) mod words l"
  have "n \<le> words l" using item_of_end [OF assms(1)] assms(2) by linarith
  then show False using mod_window [OF eq] mod_window [OF eq [symmetric]] assms(3-5) by linarith
qed

text \<open>A change of an item: what is written stays within it.\<close>

definition item_write :: "circular_log \<Rightarrow> nat list \<Rightarrow> nat \<Rightarrow> nat \<Rightarrow> circular_log \<Rightarrow> bool" where
  "item_write l ns p n l' \<longleftrightarrow> log_layout l' ns \<and> log_size l' = log_size l \<and> cell l' p = cell l p \<and>
     (\<forall>q. (\<forall>i<n. q mod words l \<noteq> (p + i) mod words l) \<longrightarrow> cell l' q = cell l q)"

lemma value_write:
  assumes "log_layout l ns" and "item_of ns p n" and "at_pos w p" and "sum_list ns \<le> p + words l"
    and "holds_item l p (item_data r h key val)" and "3 + length key + length val' \<le> n"
  shows "holds_item (copy_words w (2 + length key) val' l) p (item_data r h key val')"
    and "item_write l ns p n (copy_words w (2 + length key) val' l)"
proof -
  let ?l = "copy_words w (2 + length key) val' l"
  have g: "log_geometry l" using assms(1) by (simp add: log_layout_def)
  have n: "n \<le> words l" using item_of_end [OF assms(2)] assms(4) by linarith
  have out: "cell ?l q = cell l q" if "\<And>j. 2 + length key \<le> j \<Longrightarrow> j < 2 + length key + length val' \<Longrightarrow> q mod words l \<noteq> (p + Suc j) mod words l" for q
    by (rule copy_words_outside [OF g assms(3)]) (rule that)
  have low: "cell ?l (p + i) = cell l (p + i)" if "i < 3 + length key" for i
    by (intro out same_item_apart [OF assms(2,4)]) (use that assms(6) in simp_all)
  show "holds_item ?l p (item_data r h key val')"
    unfolding holds_item_def
  proof (intro allI impI)
    fix i assume i: "i < length (item_data r h key val')"
    show "cell ?l (p + Suc i) = item_data r h key val' ! i"
    proof (cases "i < 2 + length key")
      case True
      then have "cell ?l (p + Suc i) = item_data r h key val ! i" using low [of "Suc i"] assms(5) by (simp add: holds_item_def item_data_def)
      also have "\<dots> = item_data r h key val' ! i" using True by (auto simp: item_data_def nth_Cons nth_append split: nat.split)
      finally show ?thesis .
    next
      case False
      then obtain j where j: "i = 2 + length key + j" by (auto simp: le_iff_add not_less)
      then have "cell ?l (p + Suc i) = val' ! j" using copy_words_inside [OF g assms(3), of j val' "2 + length key"] i assms(6) n by (simp add: item_data_def)
      with j show ?thesis by (simp add: item_data_def)
    qed
  qed
  have "cell ?l p = cell l p" using low [of 0] by simp
  moreover have "log_layout ?l ns" by (rule copy_words_layout [OF assms(1-3) _ assms(4)]) (use assms(6) in simp)
  moreover have "cell ?l q = cell l q" if "\<forall>i<n. q mod words l \<noteq> (p + i) mod words l" for q
  proof (rule out)
    fix j assume "j < 2 + length key + length val'"
    then show "q mod words l \<noteq> (p + Suc j) mod words l" using that [rule_format, of "Suc j"] assms(6) by simp
  qed
  ultimately show "item_write l ns p n ?l" by (simp add: item_write_def)
qed

lemma length_write:
  assumes "log_layout l ns" and "item_of ns p n" and "at_pos w p" and "sum_list ns \<le> p + words l"
    and "holds_item l p (item_data r h key val)" and "3 + length key + length val \<le> n"
  shows "holds_item (set_item_word l w 0 r') p (item_data r' h key val)" and "item_write l ns p n (set_item_word l w 0 r')"
proof -
  let ?l = "set_item_word l w 0 r'"
  have g: "log_geometry l" using assms(1) by (simp add: log_layout_def)
  note cells = cell_set_item_word [OF g assms(3), of 0 r']
  have other: "cell ?l (p + i) = cell l (p + i)" if "i < n" "i \<noteq> Suc 0" for i
    using same_item_apart [OF assms(2,4) that(1) _ that(2)] assms(6) unfolding cells by simp
  show "holds_item ?l p (item_data r' h key val)"
    unfolding holds_item_def
  proof (intro allI impI)
    fix i assume i: "i < length (item_data r' h key val)"
    show "cell ?l (p + Suc i) = item_data r' h key val ! i"
    proof (cases i)
      case (Suc j)
      then have "cell ?l (p + Suc i) = cell l (p + Suc i)" using other [of "Suc i"] assms(6) i by (simp add: item_data_def)
      also have "\<dots> = item_data r h key val ! i" using assms(5) i by (simp add: holds_item_def item_data_def del: add_Suc_right)
      finally show ?thesis using Suc by (simp add: item_data_def)
    qed (simp add: cells item_data_def)
  qed
  have "cell ?l p = cell l p" using other [of 0] assms(6) by simp
  moreover have "log_layout ?l ns" by (rule layout_write [OF assms(1-3) _ assms(4)]) (use assms(6) in simp)
  moreover have "cell ?l q = cell l q" if "\<forall>i<n. q mod words l \<noteq> (p + i) mod words l" for q
    using that [rule_format, of "Suc 0"] assms(6) unfolding cells by simp
  ultimately show "item_write l ns p n ?l" by (simp add: item_write_def)
qed

lemma item_write_trans: "item_write l ns p n l1 \<Longrightarrow> item_write l1 ns p n l2 \<Longrightarrow> item_write l ns p n l2"
  by (simp add: item_write_def words_def)

lemma item_atI: "holds_item l p (item_data r h key val) \<Longrightarrow> cell l p = of_nat (8 * n) \<Longrightarrow> 3 + length key + length val \<le> n \<Longrightarrow>
    ucast r = make_kv_length_vec (of_nat (byte_length key)) (of_nat (byte_length val)) \<Longrightarrow> item_at l p n h key val"
  by (auto simp: item_at_def)

text \<open>Overwriting in place, and incrementing.\<close>

lemma set_item_value_ok:
  assumes "log_layout l ns" and "item_of ns p n" and "at_pos w p" and "sum_list ns \<le> p + words l"
    and "item_at l p n h key val" and "small key val" and "small key val'" and "3 + length key + length val' \<le> n"
  shows "\<exists>l'. set_item_value w val' l = Inr l' \<and> item_write l ns p n l' \<and> item_at l' p n h key val'"
proof -
  from assms(5) obtain r where r: "cell l p = of_nat (8 * n)" "3 + length key + length val \<le> n"
    "ucast r = make_kv_length_vec (of_nat (byte_length key)) (of_nat (byte_length val))" "holds_item l p (item_data r h key val)"
    by (auto simp: item_at_def)
  have g: "log_geometry l" using assms(1) by (simp add: log_layout_def)
  let ?kv = "make_kv_length_vec (of_nat (byte_length key)) (of_nat (byte_length val'))"
  let ?r = "push_bit 32 (drop_bit 32 (item_word l w 0)) OR ucast ?kv" let ?l1 = "set_item_word l w 0 ?r"
  have small: "byte_length key < 2 ^ 32" using smallD(3) [OF assms(6)] by simp
  have "get_key_length (item_kv_length_vec l w) = of_nat (byte_length key)"
    using item_at_reads(3) [OF assms(5) g assms(3,6)] unat_u32_of_nat [OF small] by (simp only: word_unat_eq_iff)
  moreover from this have "unat (ucast (get_key_length (item_kv_length_vec l w)) :: u64) = 8 * length key"
    using unat_u32_of_nat [OF small] small by (simp add: unsigned_ucast_eq take_bit_nat_eq_self byte_length_def del: of_nat_mult)
  then have "ucast (get_key_length (item_kv_length_vec l w)) = (of_nat (8 * length key) :: u64)" by (rule word_of_unat)
  moreover have "unat (of_nat (8 * length key) :: u64) = 8 * length key" using smallD(1) [OF assms(6)] by (simp only: unat_of_nat) simp
  moreover have "byte_length val' \<le> unat kValueMask" using smallD(4) [OF assms(7)] by (simp add: kValueMask_def push_bit_eq_mult)
  ultimately have eq: "set_item_value w val' l = Inr (copy_words w (2 + length key) val' ?l1)"
    unfolding set_item_value_def assertion_def Let_def set_kv_length_vec_def by (simp add: roundup_multiple del: of_nat_mult)
  note one = length_write [OF assms(1-4) r(4,2), of ?r]
  have l1: "log_layout ?l1 ns" "sum_list ns \<le> p + words ?l1" using one(2) assms(4) by (simp_all add: item_write_def words_def)
  note two = value_write [OF l1(1) assms(2,3) l1(2) one(1) assms(8)]
  note w = item_write_trans [OF one(2) two(2)]
  have "item_at (copy_words w (2 + length key) val' ?l1) p n h key val'"
    by (rule item_atI [OF two(1) _ assms(8)]) (use w r(1) in \<open>simp_all add: item_write_def low_half\<close>)
  with eq w show ?thesis by blast
qed

lemma increment_ok:
  assumes "log_layout l ns" and "item_of ns p n" and "at_pos w p" and "sum_list ns \<le> p + words l" and "item_at l p n h key [x]"
  shows "item_write l ns p n (set_item_word l w (2 + length key) y)" and "item_at (set_item_word l w (2 + length key) y) p n h key [y]"
proof -
  from assms(5) obtain r where r: "cell l p = of_nat (8 * n)" "3 + length key + length [x] \<le> n"
    "ucast r = make_kv_length_vec (of_nat (byte_length key)) (of_nat (byte_length [x]))" "holds_item l p (item_data r h key [x])"
    by (auto simp: item_at_def)
  have n: "3 + length key + length [y] \<le> n" using r(2) by simp
  note v = value_write [OF assms(1-4) r(4) n]
  then show w: "item_write l ns p n (set_item_word l w (2 + length key) y)" by simp
  show "item_at (set_item_word l w (2 + length key) y) p n h key [y]"
    by (rule item_atI [OF _ _ n]) (use v w r(1,3) in \<open>simp_all add: item_write_def byte_length_def\<close>)
qed

section \<open>Entries after an operation\<close>

lemma entries_ok_grow:
  assumes "entries_ok b l m ns Q j vs" and "log_grows l ns n ws l'"
    and "\<And>h key. bucket_of b h = j \<Longrightarrow> m' (h, key) = m (h, key)"
  shows "entries_ok b l' m' (ns @ [n]) Q j vs"
  using assms(1) entry_ok_grow [OF _ assms(2), of b m Q j _ m'] assms(3) unfolding entries_ok_def by blast

text \<open>A new item in slot \<open>i\<close>; no other slot has its tag.\<close>

lemma entries_new:
  assumes "table_ok b m ns Q t" and "log_grows (pool t) ns n (item_data r h key val) l'" and "n = 3 + length key + length val" and "small key val"
    and "ucast r = make_kv_length_vec (of_nat (byte_length key)) (of_nat (byte_length val))" and "Q * 2 ^ (47 - b) \<le> 8 * sum_list ns"
    and "i < kBucketSize"
    and "\<And>k. k < kBucketSize \<Longrightarrow> k \<noteq> i \<Longrightarrow> item_vec (buckets t ! bucket_of b h) ! k \<noteq> 0 \<Longrightarrow>
      get_tag (item_vec (buckets t ! bucket_of b h) ! k) \<noteq> calc_tag h"
  shows "entries_ok b l' (m((h, key) \<mapsto> val)) (ns @ [n]) Q (bucket_of b h)
      ((item_vec (buckets t ! bucket_of b h))[i := make_item_vec (calc_tag h) (of_nat (8 * sum_list ns) AND kOffsetMask)])"
    and "\<forall>k<2 ^ b. k \<noteq> bucket_of b h \<longrightarrow> entries_ok b l' (m((h, key) \<mapsto> val)) (ns @ [n]) Q k (item_vec (buckets t ! k))"
proof -
  let ?vs = "item_vec (buckets t ! bucket_of b h)" and ?m = "m((h, key) \<mapsto> val)"
  have ok: "entries_ok b (pool t) m ns Q k (item_vec (buckets t ! k))" if "k < 2 ^ b" for k using assms(1) that by (simp add: table_ok_def)
  have e: "entries_ok b (pool t) m ns Q (bucket_of b h) ?vs" by (rule ok) simp
  show "entries_ok b l' ?m (ns @ [n]) Q (bucket_of b h) (?vs[i := make_item_vec (calc_tag h) (of_nat (8 * sum_list ns) AND kOffsetMask)])"
  proof (rule entries_ok_update [OF e assms(7)])
    show "entry_ok b l' ?m (ns @ [n]) Q (bucket_of b h) (make_item_vec (calc_tag h) (of_nat (8 * sum_list ns) AND kOffsetMask))"
      by (rule entry_ok_new [OF assms(2-5) _ assms(6)]) simp
    fix k assume k: "k < kBucketSize" "k \<noteq> i" "?vs ! k \<noteq> 0"
    then show "get_tag (?vs ! k) \<noteq> get_tag (make_item_vec (calc_tag h) (of_nat (8 * sum_list ns) AND kOffsetMask))"
      using assms(8) by (simp del: of_nat_mult)
    have "entry_ok b (pool t) m ns Q (bucket_of b h) (?vs ! k)" using e k(1,3) by (simp add: entries_ok_def)
    then show "entry_ok b l' ?m (ns @ [n]) Q (bucket_of b h) (?vs ! k)"
      by (rule entry_ok_grow [OF _ assms(2)]) (use assms(8) [OF k] in auto)
  qed
  show "\<forall>k<2 ^ b. k \<noteq> bucket_of b h \<longrightarrow> entries_ok b l' ?m (ns @ [n]) Q k (item_vec (buckets t ! k))"
    by (intro allI impI entries_ok_grow [OF ok assms(2)]) auto
qed

text \<open>An item changed in its place; its entry is in slot \<open>i\<close>.\<close>

lemma entries_write:
  assumes "table_ok b m ns Q t" and "i < kBucketSize"
    and "item_vec (buckets t ! bucket_of b h) ! i = make_item_vec (calc_tag h) (of_nat (8 * p) AND kOffsetMask)" and "item_of ns p n"
    and "cleaned b Q (bucket_of b h) (8 * (p + words (pool t)))" and "sum_list ns \<le> p + words (pool t)" and "item_at (pool t) p n h key val0"
    and "item_write (pool t) ns p n l'" and "item_at l' p n h key val" and "small key val"
  shows "entries_ok b l' (m((h, key) \<mapsto> val)) ns Q (bucket_of b h) (item_vec (buckets t ! bucket_of b h))"
    and "\<forall>k<2 ^ b. k \<noteq> bucket_of b h \<longrightarrow> entries_ok b l' (m((h, key) \<mapsto> val)) ns Q k (item_vec (buckets t ! k))"
proof -
  let ?vs = "item_vec (buckets t ! bucket_of b h)" and ?m = "m((h, key) \<mapsto> val)"
  have ok: "entries_ok b (pool t) m ns Q k (item_vec (buckets t ! k))" if "k < 2 ^ b" for k using assms(1) that by (simp add: table_ok_def)
  have e: "entries_ok b (pool t) m ns Q (bucket_of b h) ?vs" by (rule ok) simp
  have l: "log_layout (pool t) ns" using assms(1) by (simp add: table_ok_def)
  have w: "words l' = words (pool t)" "\<And>q. (\<And>i. i < n \<Longrightarrow> q mod words (pool t) \<noteq> (p + i) mod words (pool t)) \<Longrightarrow> cell l' q = cell (pool t) q"
    using assms(8) by (auto simp: item_write_def words_def)
  have other: "entry_ok b l' ?m ns Q j v" if "entry_ok b (pool t) m ns Q j v" "\<not> (calc_tag h = get_tag v \<and> bucket_of b h = j)" for j v
    by (rule entry_ok_write [OF l that(1) assms(4,7,6) w that(2)]) simp_all
  have tag: "get_tag (?vs ! i) = calc_tag h" "?vs ! i \<noteq> 0" unfolding assms(3) by simp_all
  have "entries_ok b l' ?m ns Q (bucket_of b h) (?vs[i := ?vs ! i])"
  proof (rule entries_ok_update [OF e assms(2)])
    have "?m (h, key) = Some val" by simp
    then show "entry_ok b l' ?m ns Q (bucket_of b h) (?vs ! i)"
      unfolding entry_ok_def using assms(3-5,9,10) unfolding w(1) by blast
    fix k assume k: "k < kBucketSize" "k \<noteq> i" "?vs ! k \<noteq> 0"
    then show t: "get_tag (?vs ! k) \<noteq> get_tag (?vs ! i)" using e assms(2) tag(2) unfolding entries_ok_def same_entry_def by blast
    have "entry_ok b (pool t) m ns Q (bucket_of b h) (?vs ! k)" using e k(1,3) by (simp add: entries_ok_def)
    then show "entry_ok b l' ?m ns Q (bucket_of b h) (?vs ! k)" by (rule other) (use t tag(1) in simp)
  qed
  then show "entries_ok b l' ?m ns Q (bucket_of b h) ?vs" by simp
  show "\<forall>k<2 ^ b. k \<noteq> bucket_of b h \<longrightarrow> entries_ok b l' ?m ns Q k (item_vec (buckets t ! k))"
    using ok other unfolding entries_ok_def by metis
qed

text \<open>The item behind a matching entry that \<open>is_valid\<close> accepts.\<close>

definition current :: "nat \<Rightarrow> nat list \<Rightarrow> nat" where
  "current b ns = 8 * sum_list ns div 2 ^ (47 - b)"

lemma current_spans: "current b ns * 2 ^ (47 - b) \<le> 8 * sum_list ns" "8 * sum_list ns < Suc (current b ns) * 2 ^ (47 - b)"
  by (simp_all add: current_def dividend_less_div_times)

definition found_at :: "nat \<Rightarrow> contents \<Rightarrow> nat list \<Rightarrow> ltable \<Rightarrow> u64 \<Rightarrow> u64 list \<Rightarrow> nat \<Rightarrow> nat \<Rightarrow> nat \<Rightarrow> u64 list \<Rightarrow> bool" where
  "found_at b m ns t h key i p n val \<longleftrightarrow> i < kBucketSize \<and>
     item_vec (buckets t ! bucket_of b h) ! i = make_item_vec (calc_tag h) (of_nat (8 * p) AND kOffsetMask) \<and>
     at_pos (of_nat (8 * p) AND kOffsetMask) p \<and> item_of ns p n \<and>
     cleaned b (current b ns) (bucket_of b h) (8 * (p + words (pool t))) \<and> sum_list ns \<le> p + words (pool t) \<and>
     item_at (pool t) p n h key val \<and> small key val \<and> m (h, key) = Some val"

lemma found_entry:
  assumes "table_ok b m ns (current b ns) t" and "v = item_vec (buckets t ! bucket_of b h) ! i" and "i < kBucketSize"
    and "item_matches (pool t) h (calc_tag h) key v" and "is_valid (pool t) (get_item_offset v)"
  shows "\<exists>p n val. found_at b m ns t h key i p n val"
proof -
  have l: "log_layout (pool t) ns" and b: "b \<le> 31" and e: "entries_ok b (pool t) m ns (current b ns) (bucket_of b h) (item_vec (buckets t ! bucket_of b h))"
    using assms(1) by (simp_all add: table_ok_def table_geometry_def)
  have g: "log_geometry (pool t)" using l by (simp add: log_layout_def)
  have "v \<noteq> 0" using assms(4) by (auto simp: item_matches_def)
  then have "entry_ok b (pool t) m ns (current b ns) (bucket_of b h) v" using e assms(2,3) by (simp add: entries_ok_def)
  then obtain p n h' key' val where v: "v = make_item_vec (calc_tag h') (of_nat (8 * p) AND kOffsetMask)" and i: "item_of ns p n"
    and c: "cleaned b (current b ns) (bucket_of b h) (8 * (p + words (pool t)))"
    and d: "sum_list ns \<le> p + words (pool t) \<longrightarrow> item_at (pool t) p n h' key' val \<and> small key' val \<and> m (h', key') = Some val"
    unfolding entry_ok_def by blast
  have off: "get_item_offset v = of_nat (8 * p) AND kOffsetMask" by (simp only: v get_item_offset_make)
  have "8 * sum_list ns < Suc (current b ns) * 2 ^ (47 - b) + 2 ^ 22" using current_spans(2) [of ns b] by linarith
  note ev = entry_valid [OF l i c _ b this, simplified bucket_of_less, OF TrueI]
  have win: "sum_list ns \<le> p + words (pool t)" using ev(2) assms(5) unfolding off by blast
  with d have it: "item_at (pool t) p n h' key' val" "small key' val" "m (h', key') = Some val" by simp_all
  from matches_item_at [OF assms(4) it(1) g _ it(2)] ev(1) have "h = h'" "key = key'" unfolding off by simp_all
  then show ?thesis unfolding found_at_def using assms(2,3) v ev(1) i c win it by metis
qed

section \<open>The operations\<close>

definition table_inv :: "nat \<Rightarrow> contents \<Rightarrow> ltable \<Rightarrow> bool" where
  "table_inv b m t \<longleftrightarrow> (\<exists>ns. table_ok b m ns (current b ns) t)"

text \<open>A bucket that is locked can be given back with any entries that are good for the new state of the table.\<close>

definition releases :: "nat \<Rightarrow> ltable \<Rightarrow> nat \<Rightarrow> bucket \<Rightarrow> bool" where
  "releases b t j b1 \<longleftrightarrow> (\<forall>l' m' ns' Q' vs. log_layout l' ns' \<longrightarrow> entries_ok b l' m' ns' Q' j vs \<longrightarrow>
     (\<forall>k<2 ^ b. k \<noteq> j \<longrightarrow> entries_ok b l' m' ns' Q' k (item_vec (buckets t ! k))) \<longrightarrow>
     (\<exists>t'. release_bucket j (b1\<lparr>item_vec := vs\<rparr>) (t\<lparr>pool := l'\<rparr>) = Inr t' \<and> table_ok b m' ns' Q' t' \<and> pool t' = l' \<and>
       (\<forall>k. item_vec (buckets t' ! k) = (if k = j then vs else item_vec (buckets t ! k)))))"

lemma locked:
  assumes "table_ok b m ns Q t"
  obtains b1 where "vec_at (buckets t) (bucket_of b h) = Inr (buckets t ! bucket_of b h)"
    and "lock_bucket (table_mode t) (buckets t ! bucket_of b h) = Inr b1" and "item_vec b1 = item_vec (buckets t ! bucket_of b h)"
    and "releases b t (bucket_of b h) b1"
  using table_locked [OF assms bucket_of_less] unfolding releases_def by blast

lemma release_ok:
  assumes "releases b t j b1" and "log_layout l' ns'" and "entries_ok b l' m' ns' Q' j vs"
    and "\<forall>k<2 ^ b. k \<noteq> j \<longrightarrow> entries_ok b l' m' ns' Q' k (item_vec (buckets t ! k))"
  obtains t' where "release_bucket j (b1\<lparr>item_vec := vs\<rparr>) (t\<lparr>pool := l'\<rparr>) = Inr t'" and "table_ok b m' ns' Q' t'" and "pool t' = l'"
    and "\<And>k. item_vec (buckets t' ! k) = (if k = j then vs else item_vec (buckets t ! k))"
  using assms unfolding releases_def by blast

lemma release_unchanged:
  assumes "table_ok b m ns Q t" and "releases b t (bucket_of b h) b1" and "item_vec b1 = item_vec (buckets t ! bucket_of b h)"
  obtains t' where "release_bucket (bucket_of b h) b1 t = Inr t'" and "table_ok b m ns Q t'"
proof -
  have ok: "log_layout (pool t) ns" "\<And>k. k < 2 ^ b \<Longrightarrow> entries_ok b (pool t) m ns Q k (item_vec (buckets t ! k))"
    using assms(1) by (simp_all add: table_ok_def)
  have "entries_ok b (pool t) m ns Q (bucket_of b h) (item_vec b1)" unfolding assms(3) by (rule ok(2)) simp
  then obtain t' where "release_bucket (bucket_of b h) (b1\<lparr>item_vec := item_vec b1\<rparr>) (t\<lparr>pool := pool t\<rparr>) = Inr t'" "table_ok b m ns Q t'"
    by (rule release_ok [OF assms(2) ok(1)]) (use ok(2) in simp_all)
  then show thesis using that by simp
qed

lemma found_index:
  assumes "table_ok b m ns Q t" and "item_vec b1 = item_vec (buckets t ! bucket_of b h)"
    and "find_item_index (pool t) b1 h (calc_tag h) key \<noteq> kBucketSize"
  shows "find_item_index (pool t) b1 h (calc_tag h) key < kBucketSize"
    and "item_matches (pool t) h (calc_tag h) key (item_vec b1 ! find_item_index (pool t) b1 h (calc_tag h) key)"
proof -
  have "length (item_vec b1) = kBucketSize" using assms(1,2) by (simp add: table_ok_def entries_ok_def)
  then show "find_item_index (pool t) b1 h (calc_tag h) key < kBucketSize"
    "item_matches (pool t) h (calc_tag h) key (item_vec b1 ! find_item_index (pool t) b1 h (calc_tag h) key)"
    using first_slot_hit [of "item_matches (pool t) h (calc_tag h) key" "item_vec b1"] assms(3) unfolding find_item_index_def by simp_all
qed

lemma ucast_down_up: "unat w < 2 ^ 32 \<Longrightarrow> ucast (ucast w :: u32) = (w :: u64)"
  by (simp add: word_unat_eq_iff unsigned_ucast_eq unsigned_take_bit_eq take_bit_nat_eq_self)

lemma item_size_eq:
  assumes "small key val"
  shows "item_size key (byte_length val) = of_nat (8 * (2 + length key + length val))"
proof -
  note of_nat_mult [simp del]
  have r: "roundup 8 (of_nat (byte_length ws)) = of_nat (8 * length ws)" for ws :: "u64 list" unfolding byte_length_def by (rule roundup_multiple)
  have e: "16 + of_nat (8 * length key) + of_nat (8 * length val) = (of_nat (8 * (2 + length key + length val)) :: u64)"
    by (simp add: of_nat_mult)
  have n: "8 * (2 + length key + length val) < 2 ^ 32" using smallD(1,2) [OF assms] by simp
  then have "unat (of_nat (8 * (2 + length key + length val)) :: u64) = 8 * (2 + length key + length val)" by (simp only: unat_of_nat) simp
  with n show ?thesis unfolding item_size_def r e by (intro ucast_down_up) (simp only:)
qed

text \<open>The slot \<open>set\<close> uses.\<close>

lemma empty_or_oldest_less: "empty_or_oldest l vs i old d < i + length vs \<or> empty_or_oldest l vs i old d = old"
proof (induction vs arbitrary: i old d)
  case (Cons v vs)
  let ?d = "(log_tail l - get_item_offset v) AND log_mask l"
  show ?case using Cons.IH [of "Suc i" i ?d] Cons.IH [of "Suc i" old d] by (auto simp: Let_def)
qed simp

lemma set_slot:
  assumes "length (item_vec b1) = kBucketSize" and "entries_ok b l m ns Q j (item_vec b1)"
    and "i = (if find_item_index l b1 h (calc_tag h) key \<noteq> kBucketSize then find_item_index l b1 h (calc_tag h) key
      else if find_same_tag b1 (calc_tag h) \<noteq> kBucketSize then find_same_tag b1 (calc_tag h) else get_empty_or_oldest l b1)"
  shows "i < kBucketSize" and "\<And>k. k < kBucketSize \<Longrightarrow> k \<noteq> i \<Longrightarrow> item_vec b1 ! k \<noteq> 0 \<Longrightarrow> get_tag (item_vec b1 ! k) \<noteq> calc_tag h"
proof -
  let ?vs = "item_vec b1"
  have hit: "i < kBucketSize \<and> get_tag (?vs ! i) = calc_tag h" if "\<not> (\<forall>v\<in>set ?vs. get_tag v \<noteq> calc_tag h)"
  proof (cases "find_item_index l b1 h (calc_tag h) key \<noteq> kBucketSize")
    case True
    then show ?thesis using first_slot_hit [of "item_matches l h (calc_tag h) key" ?vs] assms(1,3)
      by (simp add: find_item_index_def item_matches_def)
  next
    case False
    have "find_same_tag b1 (calc_tag h) \<noteq> kBucketSize" 
      using that first_slot_miss [of "\<lambda>v. get_tag v = calc_tag h" ?vs] assms(1) unfolding find_same_tag_def by simp
    then show ?thesis using False first_slot_hit [of "\<lambda>v. get_tag v = calc_tag h" ?vs] assms(1,3) by (simp add: find_same_tag_def)
  qed
  have miss: "i < kBucketSize" if none: "\<forall>v\<in>set ?vs. get_tag v \<noteq> calc_tag h"
  proof -
    have "find_item_index l b1 h (calc_tag h) key = kBucketSize" "find_same_tag b1 (calc_tag h) = kBucketSize"
      using none assms(1) first_slot_miss [of "item_matches l h (calc_tag h) key" ?vs] first_slot_miss [of "\<lambda>v. get_tag v = calc_tag h" ?vs]
      unfolding find_item_index_def find_same_tag_def by (simp_all add: item_matches_def)
    then have "i = get_empty_or_oldest l b1" using assms(3) by simp
    then show ?thesis using empty_or_oldest_less [of l ?vs 0 0 "- 1"] assms(1) unfolding get_empty_or_oldest_def by (auto simp: kBucketSize_def)
  qed
  show "i < kBucketSize" using hit miss by blast
  fix k assume k: "k < kBucketSize" "k \<noteq> i" "?vs ! k \<noteq> 0"
  show "get_tag (?vs ! k) \<noteq> calc_tag h"
  proof
    assume t: "get_tag (?vs ! k) = calc_tag h"
    then have i: "i < kBucketSize" "get_tag (?vs ! i) = calc_tag h" using hit k(1) assms(1) nth_mem by metis+
    then have "?vs ! i \<noteq> 0" by (metis calc_tag_nonzero get_tag_zero)
    then show False using assms(2) k i t unfolding entries_ok_def same_entry_def by metis
  qed
qed

text \<open>The key is found, with an item that is still there.\<close>

definition present :: "nat \<Rightarrow> ltable \<Rightarrow> u64 \<Rightarrow> u64 list \<Rightarrow> bool" where
  "present b t h key \<longleftrightarrow> (\<exists>v\<in>set (item_vec (buckets t ! bucket_of b h)).
     item_matches (pool t) h (calc_tag h) key v \<and> is_valid (pool t) (get_item_offset v))"

lemma present_survives: "present b t h key \<Longrightarrow> survives t t' \<Longrightarrow> present b t' h key"
  unfolding present_def survives_def by (metis is_valid_item_vec)

lemma table_ok_sum: "table_ok b m ns Q t \<Longrightarrow> unat (log_tail (pool t)) = 8 * sum_list ns"
  unfolding table_ok_def by (blast intro: log_layout_tail)

lemma table_ok_tail:
  assumes "table_ok b m ns Q t"
  shows "log_tail (pool t) AND kOffsetMask = of_nat (8 * sum_list ns) AND kOffsetMask"
    and "unat (of_nat (8 * sum_list ns) AND kOffsetMask :: u64) mod 2 ^ 48 = 8 * sum_list ns mod 2 ^ 48"
proof -
  have "log_layout (pool t) ns" using assms by (simp add: table_ok_def)
  then have t: "unat (log_tail (pool t)) = 8 * sum_list ns" by (rule log_layout_tail)
  show eq: "log_tail (pool t) AND kOffsetMask = of_nat (8 * sum_list ns) AND kOffsetMask" by (simp only: word_of_unat [OF t])
  have "unat (log_tail (pool t) AND kOffsetMask) = 8 * sum_list ns mod 2 ^ 48" by (simp only: unat_kOffsetMask_and t)
  then show "unat (of_nat (8 * sum_list ns) AND kOffsetMask :: u64) mod 2 ^ 48 = 8 * sum_list ns mod 2 ^ 48" by (simp only: eq mod_mod_trivial)
qed

lemma appended_valid:
  assumes "log_layout l (ns @ [n])" and "at_pos w (sum_list ns)" and "n \<le> 200000"
  shows "is_valid l w"
proof -
  have g: "log_geometry l" using assms(1) by (simp add: log_layout_def)
  show ?thesis
    using is_valid_pos [OF g assms(2) log_layout_tail [OF assms(1)]] words_min [OF g] assms(3) by simp
qed

text \<open>After an append the bucket is released and the buckets of the spans passed are cleaned up.\<close>

lemma cleanup_after_append:
  assumes "table_ok b m ns Q t0" and "Q = current b ns" and "table_ok b m' (ns @ [n]) Q t" and "n \<le> 200000"
  obtains t' where "cleanup_bucket (of_nat (8 * sum_list ns) AND kOffsetMask) (log_tail (pool t)) t = Inr t'"
    and "table_ok b m' (ns @ [n]) (current b (ns @ [n])) t'" and "survives t t'"
  using cleanup_bucket_ok [OF assms(3) table_ok_tail(2) [OF assms(1)]] assms(2,4) unfolding current_def by auto

lemma store_item:
  assumes "table_ok b m ns (current b ns) t" and "item_vec b1 = item_vec (buckets t ! bucket_of b h)" and "releases b t (bucket_of b h) b1"
    and "log_grows (pool t) ns n (item_data r h key val) l'" and "n = 3 + length key + length val" and "small key val"
    and "ucast r = make_kv_length_vec (of_nat (byte_length key)) (of_nat (byte_length val))" and "i < kBucketSize"
    and "\<And>k. k < kBucketSize \<Longrightarrow> k \<noteq> i \<Longrightarrow> item_vec b1 ! k \<noteq> 0 \<Longrightarrow> get_tag (item_vec b1 ! k) \<noteq> calc_tag h"
    and "w = of_nat (8 * sum_list ns) AND kOffsetMask"
  obtains t1 t2 where "release_bucket (bucket_of b h) (set_entry i (make_item_vec (calc_tag h) w) b1) (t\<lparr>pool := l'\<rparr>) = Inr t1"
    and "cleanup_bucket w (log_tail l') t1 = Inr t2" and "table_ok b (m((h, key) \<mapsto> val)) (ns @ [n]) (current b (ns @ [n])) t2"
    and "present b t2 h key"
proof -
  let ?j = "bucket_of b h" and ?v = "make_item_vec (calc_tag h) w" and ?m = "m((h, key) \<mapsto> val)"
  let ?vs = "(item_vec (buckets t ! ?j))[i := ?v]"
  have n: "n \<le> 200000" using smallD(1,2) [OF assms(6)] assms(5) by simp
  have lay: "log_layout l' (ns @ [n])" using assms(4) by (simp add: log_grows_def)
  note e = entries_new [OF assms(1,4-7) current_spans(1) assms(8) assms(9) [unfolded assms(2)], folded assms(10)]
  obtain t1 where t1: "release_bucket ?j (b1\<lparr>item_vec := ?vs\<rparr>) (t\<lparr>pool := l'\<rparr>) = Inr t1" "table_ok b ?m (ns @ [n]) (current b ns) t1"
    "pool t1 = l'" "\<And>k. item_vec (buckets t1 ! k) = (if k = ?j then ?vs else item_vec (buckets t ! k))"
    using release_ok [OF assms(3) lay e] by blast
  obtain t2 where t2: "cleanup_bucket w (log_tail (pool t1)) t1 = Inr t2" "table_ok b ?m (ns @ [n]) (current b (ns @ [n])) t2" "survives t1 t2"
    using cleanup_after_append [OF assms(1) refl t1(2) n, folded assms(10)] by blast
  have g: "log_geometry l'" using lay by (simp add: log_layout_def)
  have pos: "at_pos w (sum_list ns)" unfolding at_pos_def assms(10) by (rule table_ok_tail(2) [OF assms(1)])
  have off: "get_item_offset ?v = w" "get_tag ?v = calc_tag h" unfolding assms(10) by (simp_all del: of_nat_mult)
  have "item_at l' (sum_list ns) n h key val" using assms(4,5,7) by (auto simp: item_at_def log_grows_def)
  then have "item_matches l' h (calc_tag h) key ?v" using item_at_matches [OF _ g _ assms(6) off(2)] pos off(1) by simp
  moreover have "is_valid l' (get_item_offset ?v)" unfolding off(1) by (rule appended_valid [OF lay pos n])
  moreover have "?v \<in> set (item_vec (buckets t1 ! ?j))"
  proof -
    have "length (item_vec (buckets t ! ?j)) = kBucketSize" using assms(1) by (simp add: table_ok_def entries_ok_def)
    then show ?thesis using assms(8) by (simp add: t1(4) set_update_memI)
  qed
  ultimately have "present b t1 h key" unfolding present_def t1(3) by blast
  then have "present b t2 h key" using t2(3) by (rule present_survives)
  moreover have "release_bucket ?j (set_entry i ?v b1) (t\<lparr>pool := l'\<rparr>) = Inr t1" using t1(1) unfolding set_entry_def assms(2) by simp
  ultimately show thesis using that t2(1,2) t1(3) by blast
qed

text \<open>Space that was allocated and not used.\<close>

lemma drop_item:
  assumes "table_ok b m ns (current b ns) t" and "item_vec b1 = item_vec (buckets t ! bucket_of b h)" and "releases b t (bucket_of b h) b1"
    and "log_grows (pool t) ns n ws l'" and "n \<le> 200000" and "w = of_nat (8 * sum_list ns) AND kOffsetMask"
  obtains t1 t2 where "release_bucket (bucket_of b h) b1 (t\<lparr>pool := l'\<rparr>) = Inr t1"
    and "cleanup_bucket w (log_tail l') t1 = Inr t2" and "table_ok b m (ns @ [n]) (current b (ns @ [n])) t2"
proof -
  let ?j = "bucket_of b h"
  have lay: "log_layout l' (ns @ [n])" using assms(4) by (simp add: log_grows_def)
  have e: "entries_ok b l' m (ns @ [n]) (current b ns) k (item_vec (buckets t ! k))" if "k < 2 ^ b" for k
    using assms(1) that entries_ok_grow [OF _ assms(4)] unfolding table_ok_def by blast
  have "entries_ok b l' m (ns @ [n]) (current b ns) ?j (item_vec b1)" unfolding assms(2) by (rule e) simp
  then obtain t1 where t1: "release_bucket ?j (b1\<lparr>item_vec := item_vec b1\<rparr>) (t\<lparr>pool := l'\<rparr>) = Inr t1" "table_ok b m (ns @ [n]) (current b ns) t1"
    "pool t1 = l'" using release_ok [OF assms(3) lay] e by blast
  obtain t2 where "cleanup_bucket w (log_tail (pool t1)) t1 = Inr t2" "table_ok b m (ns @ [n]) (current b (ns @ [n])) t2"
    using cleanup_after_append [OF assms(1) refl t1(2) assms(5), folded assms(6)] by blast
  then show thesis using that t1 by simp
qed

section \<open>set\<close>

lemma table_ok_pool_same [simp]: "t\<lparr>pool := log_release w (pool t)\<rparr> = t"
  by (simp add: log_release_def)

lemma masked_not_top: "w AND kOffsetMask \<noteq> - 1"
proof
  assume "w AND kOffsetMask = - 1"
  then have "bit (w AND kOffsetMask) 63 = bit (- 1 :: u64) 63" by simp
  then show False by (simp add: kOffsetMask_mask bit_simps)
qed

lemma table_set_unfold:
  assumes "table_geometry b t" and "small key val" and "vec_at (buckets t) (bucket_of b h) = Inr bk" and "lock_bucket (table_mode t) bk = Inr b1"
    and "found = find_item_index (pool t) b1 h (calc_tag h) key"
    and "i = (if found \<noteq> kBucketSize then found
      else if find_same_tag b1 (calc_tag h) \<noteq> kBucketSize then find_same_tag b1 (calc_tag h) else get_empty_or_oldest (pool t) b1)"
  shows "table_set h key val overwrite t =
    (if found \<noteq> kBucketSize \<and> \<not> overwrite then ebind (release_bucket (bucket_of b h) b1 t) (\<lambda>t1. Inr (kExists, t1))
     else if found \<noteq> kBucketSize \<and> is_valid (pool t) (get_item_offset (item_vec b1 ! i)) \<and>
       item_len (pool t) (get_item_offset (item_vec b1 ! i)) \<ge> item_size key (byte_length val)
     then ebind (set_item_value (get_item_offset (item_vec b1 ! i)) val (pool t)) (\<lambda>l1.
          ebind (release_bucket (bucket_of b h) b1 (t\<lparr>pool := l1\<rparr>)) (\<lambda>t1. Inr (kSuccess, t1)))
     else ebind (log_allocate (item_size key (byte_length val)) (pool t)) (\<lambda>(w, l1).
            if w = - 1 then ebind (release_bucket (bucket_of b h) b1 (t\<lparr>pool := l1\<rparr>)) (\<lambda>t1. Inr (kInsufficientSpace, t1))
            else ebind (set_item w h key val l1) (\<lambda>l2.
                 ebind (release_bucket (bucket_of b h) (set_entry i (make_item_vec (calc_tag h) w) b1) (t\<lparr>pool := l2\<rparr>)) (\<lambda>t1.
                 ebind (cleanup_bucket w (log_tail l2) t1) (\<lambda>t2. Inr (kSuccess, t2))))))"
  using assms(2) unfolding table_set_def assertion_def Let_def calc_bucket_index_eq [OF assms(1)] assms(3) assms(5,6) small_def
  by (simp add: assms(4) cong: if_cong)

text \<open>Without an item to overwrite in place, \<open>set\<close> appends one.\<close>

lemma set_appends:
  assumes "table_ok b m ns (current b ns) t" and "unat (log_tail (pool t)) < 2 ^ 62" and "small key val"
    and "vec_at (buckets t) (bucket_of b h) = Inr (buckets t ! bucket_of b h)" and "lock_bucket (table_mode t) (buckets t ! bucket_of b h) = Inr b1"
    and "item_vec b1 = item_vec (buckets t ! bucket_of b h)" and "releases b t (bucket_of b h) b1"
    and "found = find_item_index (pool t) b1 h (calc_tag h) key" and "found \<noteq> kBucketSize \<longrightarrow> overwrite"
    and "\<not> (found \<noteq> kBucketSize \<and> is_valid (pool t) (get_item_offset (item_vec b1 ! found)) \<and>
      item_len (pool t) (get_item_offset (item_vec b1 ! found)) \<ge> item_size key (byte_length val))"
  shows "\<exists>t'. table_set h key val overwrite t = Inr (kSuccess, t') \<and> table_inv b (m((h, key) \<mapsto> val)) t' \<and> present b t' h key \<and>
    unat (log_tail (pool t')) \<le> unat (log_tail (pool t)) + 2 ^ 21"
proof -
  let ?m = "2 + length key + length val" and ?w = "log_tail (pool t) AND kOffsetMask"
  define i where "i = (if found \<noteq> kBucketSize then found
    else if find_same_tag b1 (calc_tag h) \<noteq> kBucketSize then find_same_tag b1 (calc_tag h) else get_empty_or_oldest (pool t) b1)"
  have l: "log_layout (pool t) ns" and e: "entries_ok b (pool t) m ns (current b ns) (bucket_of b h) (item_vec b1)" and geo: "table_geometry b t"
    using assms(1,6) by (simp_all add: table_ok_def)
  have len: "length (item_vec b1) = kBucketSize" using e by (simp add: entries_ok_def)
  have m: "?m + 2 \<le> 262144" using smallD(1,2) [OF assms(3)] by simp
  from log_append_ok [OF l m assms(2)] obtain l1 where a: "log_allocate (of_nat (8 * ?m)) (pool t) = Inr (?w, l1)"
    and grow: "\<And>ws. length ws \<le> ?m \<Longrightarrow> log_grows (pool t) ns (Suc ?m) ws (copy_words ?w 0 ws l1)" by blast
  from set_item_eq [OF assms(3)] obtain r where r: "set_item ?w h key val l1 = Inr (copy_words ?w 0 (item_data r h key val) l1)"
    "ucast r = make_kv_length_vec (of_nat (byte_length key)) (of_nat (byte_length val))" by blast
  have fits: "length (item_data r h key val) \<le> ?m" by (simp add: item_data_def)
  note slot = set_slot [OF len e i_def [unfolded assms(8)]]
  have size: "Suc ?m = 3 + length key + length val" by simp
  obtain t1 t2 where rel: "release_bucket (bucket_of b h) (set_entry i (make_item_vec (calc_tag h) ?w) b1)
      (t\<lparr>pool := copy_words ?w 0 (item_data r h key val) l1\<rparr>) = Inr t1"
    and cl: "cleanup_bucket ?w (log_tail (copy_words ?w 0 (item_data r h key val) l1)) t1 = Inr t2"
    and ok: "table_ok b (m((h, key) \<mapsto> val)) (ns @ [Suc ?m]) (current b (ns @ [Suc ?m])) t2" and pr: "present b t2 h key"
    using store_item [OF assms(1,6,7) grow [OF fits] size assms(3) r(2) slot table_ok_tail(1) [OF assms(1)]] by blast
  have skip: "\<not> (found \<noteq> kBucketSize \<and> \<not> overwrite)" "\<not> (found \<noteq> kBucketSize \<and> is_valid (pool t) (get_item_offset (item_vec b1 ! i)) \<and>
      item_len (pool t) (get_item_offset (item_vec b1 ! i)) \<ge> item_size key (byte_length val))"
    using assms(9,10) i_def by (cases "found = kBucketSize", auto)
  have "table_set h key val overwrite t = Inr (kSuccess, t2)"
    unfolding table_set_unfold [OF geo assms(3-5,8) i_def]
    by (simp only: skip if_False) (simp only: item_size_eq [OF assms(3)] a ebind_simps prod.case masked_not_top if_False r(1) rel cl)
  moreover have "unat (log_tail (pool t2)) \<le> unat (log_tail (pool t)) + 2 ^ 21"
    using table_ok_sum [OF ok] table_ok_sum [OF assms(1)] m by simp
  ultimately show ?thesis using ok pr unfolding table_inv_def by blast
qed

text \<open>Changing a found item in its place.\<close>

lemma item_write_valid:
  assumes "log_layout l ns" and "item_write l ns p n l'"
  shows "is_valid l' w \<longleftrightarrow> is_valid l w"
proof -
  have "log_tail l' = log_tail l" using log_layout_tail [OF assms(1)] log_layout_tail [of l' ns] assms(2) by (simp add: item_write_def word_unat_eq_iff)
  then show ?thesis using assms(2) by (simp add: is_valid_def item_write_def)
qed

lemma release_written:
  assumes "table_ok b m ns (current b ns) t" and "found_at b m ns t h key i p n v" and "item_vec b1 = item_vec (buckets t ! bucket_of b h)"
    and "releases b t (bucket_of b h) b1" and "item_write (pool t) ns p n l'" and "item_at l' p n h key val" and "small key val"
  obtains t' where "release_bucket (bucket_of b h) b1 (t\<lparr>pool := l'\<rparr>) = Inr t'" and "table_ok b (m((h, key) \<mapsto> val)) ns (current b ns) t'"
    and "present b t' h key"
proof -
  let ?j = "bucket_of b h" and ?m = "m((h, key) \<mapsto> val)" and ?w = "of_nat (8 * p) AND kOffsetMask :: u64"
  from assms(2) have at: "i < kBucketSize" "item_vec (buckets t ! ?j) ! i = make_item_vec (calc_tag h) ?w" "at_pos ?w p" "item_of ns p n"
    "cleaned b (current b ns) ?j (8 * (p + words (pool t)))" "sum_list ns \<le> p + words (pool t)" "item_at (pool t) p n h key v" "small key v"
    unfolding found_at_def by blast+
  have lay: "log_layout l' ns" using assms(5) by (simp add: item_write_def)
  note e = entries_write [OF assms(1) at(1,2,4-7) assms(5-7)]
  obtain t' where t': "release_bucket ?j (b1\<lparr>item_vec := item_vec b1\<rparr>) (t\<lparr>pool := l'\<rparr>) = Inr t'" "table_ok b ?m ns (current b ns) t'"
    "pool t' = l'" "\<And>k. item_vec (buckets t' ! k) = (if k = ?j then item_vec b1 else item_vec (buckets t ! k))"
    using release_ok [OF assms(4) lay e [folded assms(3)]] by blast
  have g: "log_geometry l'" using lay by (simp add: log_layout_def)
  let ?v = "make_item_vec (calc_tag h) ?w"
  have "item_matches l' h (calc_tag h) key ?v" by (rule item_at_matches [OF assms(6) g _ assms(7)]) (use at(3) in \<open>simp_all del: of_nat_mult\<close>)
  moreover have l: "log_layout (pool t) ns" and b: "b \<le> 31" using assms(1) by (simp_all add: table_ok_def table_geometry_def)
  have "8 * sum_list ns < Suc (current b ns) * 2 ^ (47 - b) + 2 ^ 22" using current_spans(2) [of ns b] by linarith
  then have "is_valid (pool t) ?w" using entry_valid(2) [OF l at(4,5) bucket_of_less b] at(6) by blast
  then have "is_valid l' (get_item_offset ?v)" unfolding item_write_valid [OF l assms(5)] get_item_offset_make .
  moreover have "length (item_vec b1) = kBucketSize" using assms(1,3) by (simp add: table_ok_def entries_ok_def)
  then have "?v \<in> set (item_vec (buckets t' ! ?j))" using at(1,2) nth_mem unfolding t'(4) assms(3) by metis
  ultimately have "present b t' h key" unfolding present_def t'(3) by blast
  then show thesis using that t'(1,2) by simp
qed

text \<open>\<open>set\<close> always answers. With \<open>overwrite\<close> it stores the value.\<close>

lemma set_ok:
  assumes "table_inv b m t" and "unat (log_tail (pool t)) < 2 ^ 62" and "small key val" and "\<And>v. m (h, key) = Some v \<Longrightarrow> length val \<le> length v"
  obtains r t' where "table_set h key val overwrite t = Inr (r, t')" and "table_inv b (if r = kSuccess then m((h, key) \<mapsto> val) else m) t'"
    and "r = kSuccess \<and> present b t' h key \<or> r = kExists \<and> \<not> overwrite"
    and "unat (log_tail (pool t')) \<le> unat (log_tail (pool t)) + 2 ^ 21"
proof -
  from assms(1) obtain ns where ok: "table_ok b m ns (current b ns) t" by (auto simp: table_inv_def)
  obtain b1 where b1: "vec_at (buckets t) (bucket_of b h) = Inr (buckets t ! bucket_of b h)"
    "lock_bucket (table_mode t) (buckets t ! bucket_of b h) = Inr b1" "item_vec b1 = item_vec (buckets t ! bucket_of b h)"
    "releases b t (bucket_of b h) b1" by (rule locked [OF ok, of h])
  have l: "log_layout (pool t) ns" and geo: "table_geometry b t" using ok by (simp_all add: table_ok_def)
  have g: "log_geometry (pool t)" using l by (simp add: log_layout_def)
  define found where "found = find_item_index (pool t) b1 h (calc_tag h) key"
  note eq = table_set_unfold [OF geo assms(3) b1(1,2) found_def refl, of overwrite]
  consider (exists) "found \<noteq> kBucketSize" "\<not> overwrite"
    | (in_place) "found \<noteq> kBucketSize" "overwrite" "is_valid (pool t) (get_item_offset (item_vec b1 ! found))"
        "item_len (pool t) (get_item_offset (item_vec b1 ! found)) \<ge> item_size key (byte_length val)"
    | (fresh) "found \<noteq> kBucketSize \<longrightarrow> overwrite" "\<not> (found \<noteq> kBucketSize \<and> is_valid (pool t) (get_item_offset (item_vec b1 ! found)) \<and>
        item_len (pool t) (get_item_offset (item_vec b1 ! found)) \<ge> item_size key (byte_length val))" by blast
  then show thesis
  proof cases
    case exists
    obtain t' where t': "release_bucket (bucket_of b h) b1 t = Inr t'" "table_ok b m ns (current b ns) t'" by (rule release_unchanged [OF ok b1(4,3)])
    show thesis by (rule that [of kExists t']) (use eq exists t' table_ok_sum [OF ok] table_ok_sum [OF t'(2)] in \<open>auto simp: table_inv_def\<close>)
  next
    case in_place
    note hit = found_index [OF ok b1(3), of key, folded found_def, OF in_place(1)]
    from found_entry [OF ok refl hit(1)] hit(2) in_place(3) obtain p n v where at: "found_at b m ns t h key found p n v" unfolding b1(3) by blast
    then have a: "at_pos (get_item_offset (item_vec b1 ! found)) p" "item_of ns p n" "sum_list ns \<le> p + words (pool t)" "item_at (pool t) p n h key v"
      "small key v" "m (h, key) = Some v" unfolding found_at_def b1(3) by (auto simp del: of_nat_mult)
    have "3 + length key + length val \<le> n" using assms(4) [OF a(6)] a(4) by (simp add: item_at_def)
    then obtain l' where l': "set_item_value (get_item_offset (item_vec b1 ! found)) val (pool t) = Inr l'" "item_write (pool t) ns p n l'"
      "item_at l' p n h key val" using set_item_value_ok [OF l a(2,1,3,4,5) assms(3)] by blast
    obtain t' where t': "release_bucket (bucket_of b h) b1 (t\<lparr>pool := l'\<rparr>) = Inr t'" "table_ok b (m((h, key) \<mapsto> val)) ns (current b ns) t'"
      "present b t' h key" by (rule release_written [OF ok at b1(3,4) l'(2,3) assms(3)])
    show thesis
      by (rule that [of kSuccess t']) (use eq in_place l'(1) t' table_ok_sum [OF ok] table_ok_sum [OF t'(2)] in \<open>auto simp: table_inv_def\<close>)
  next
    case fresh
    from set_appends [OF ok assms(2,3) b1 found_def fresh] show thesis using that by force
  qed
qed

section \<open>get\<close>

text \<open>What \<open>move_to_head\<close> copies after it has allocated space, if the item is still there.\<close>

lemma moved_words:
  assumes "log_layout l ns" and "log_grows l ns k ws l1" and "item_of ns p n" and "item_at l p n h key val"
    and "cleaned b Q j (8 * (p + words l))" and "j < 2 ^ b" and "b \<le> 31" and "8 * (sum_list ns + k) < Suc Q * 2 ^ (47 - b) + 2 ^ 22"
    and "w = of_nat (8 * p) AND kOffsetMask" and "is_valid l1 w"
  obtains r where "item_words l1 w 0 (2 + length key + length val) = item_data r h key val"
    and "ucast r = make_kv_length_vec (of_nat (byte_length key)) (of_nat (byte_length val))"
proof -
  have l1: "log_layout l1 (ns @ [k])" "words l1 = words l" using assms(2) by (simp_all add: log_grows_def words_def)
  have g: "log_geometry l1" using l1(1) by (simp add: log_layout_def)
  have i: "item_of (ns @ [k]) p n" using assms(3) by (simp add: item_of_snoc)
  have "8 * sum_list (ns @ [k]) < Suc Q * 2 ^ (47 - b) + 2 ^ 22" using assms(8) by simp
  note ev = entry_valid [OF l1(1) i _ assms(6,7) this, unfolded l1(2), OF assms(5), folded assms(9)]
  have win: "sum_list ns + k \<le> p + words l" using ev(2) assms(10) by simp
  have "item_at l1 p n h key val"
    by (rule item_at_cong [OF assms(4)]) (use assms(2) item_of_end [OF assms(3)] win in \<open>simp add: log_grows_def\<close>)
  then obtain r where r: "ucast r = make_kv_length_vec (of_nat (byte_length key)) (of_nat (byte_length val))" "holds_item l1 p (item_data r h key val)"
    by (auto simp: item_at_def)
  have "item_words l1 w 0 (2 + length key + length val) = item_data r h key val"
    using holds_item_words [OF r(2) g ev(1), of 0 "2 + length key + length val"] by (simp add: item_data_def)
  then show thesis using that r(1) by blast
qed

lemma found_slot:
  assumes "table_ok b m ns Q t" and "found_at b m ns t h key i p n val" and "k < kBucketSize" and "k \<noteq> i"
    and "item_vec (buckets t ! bucket_of b h) ! k \<noteq> 0"
  shows "get_tag (item_vec (buckets t ! bucket_of b h) ! k) \<noteq> calc_tag h"
proof -
  let ?vs = "item_vec (buckets t ! bucket_of b h)"
  have i: "i < kBucketSize" "get_tag (?vs ! i) = calc_tag h" "?vs ! i \<noteq> 0" using assms(2) unfolding found_at_def by (simp_all del: of_nat_mult)
  have "entries_ok b (pool t) m ns Q (bucket_of b h) ?vs" using assms(1) by (simp add: table_ok_def)
  then show ?thesis using i assms(3-5) unfolding entries_ok_def same_entry_def by metis
qed

lemma move_to_head_ok:
  assumes "table_ok b m ns (current b ns) t" and "unat (log_tail (pool t)) < 2 ^ 62" and "found_at b m ns t h key i p n val"
    and "v = item_vec (buckets t ! bucket_of b h) ! i"
  obtains t' where "move_to_head (bucket_of b h) key (byte_length val) i v t = Inr t'" and "table_inv b m t'"
proof (cases "(log_tail (pool t) - get_item_offset v) AND log_mask (pool t) > mth_threshold t")
  case False
  then show thesis using that [of t] assms(1) by (auto simp: move_to_head_def Let_def table_inv_def)
next
  case True
  let ?j = "bucket_of b h" and ?m = "2 + length key + length val" and ?w = "log_tail (pool t) AND kOffsetMask"
  from assms(3) have at: "i < kBucketSize" "v = make_item_vec (calc_tag h) (of_nat (8 * p) AND kOffsetMask)"
    "item_of ns p n" "cleaned b (current b ns) ?j (8 * (p + words (pool t)))" "item_at (pool t) p n h key val" "small key val" "m (h, key) = Some val"
    unfolding found_at_def assms(4) by blast+
  have v: "get_item_offset v = of_nat (8 * p) AND kOffsetMask" "get_tag v = calc_tag h" unfolding at(2) by (simp_all only: get_item_offset_make get_tag_make)
  obtain b1 where b1: "vec_at (buckets t) ?j = Inr (buckets t ! ?j)" "lock_bucket (table_mode t) (buckets t ! ?j) = Inr b1"
    "item_vec b1 = item_vec (buckets t ! ?j)" "releases b t ?j b1" by (rule locked [OF assms(1), of h])
  have l: "log_layout (pool t) ns" and b: "b \<le> 31" using assms(1) by (simp_all add: table_ok_def table_geometry_def)
  have m: "?m + 2 \<le> 262144" "Suc ?m \<le> 200000" using smallD(1,2) [OF at(6)] by simp_all
  from log_append_ok [OF l m(1) assms(2)] obtain l1 where a: "log_allocate (of_nat (8 * ?m)) (pool t) = Inr (?w, l1)"
    and grow: "\<And>ws. length ws \<le> ?m \<Longrightarrow> log_grows (pool t) ns (Suc ?m) ws (copy_words ?w 0 ws l1)" by blast
  have plain: "log_grows (pool t) ns (Suc ?m) [] l1" using grow [of "[]"] by simp
  note w = table_ok_tail(1) [OF assms(1)]
  have bytes: "item_size key (byte_length val) = of_nat (8 * ?m)" by (rule item_size_eq [OF at(6)])
  have eight: "unat (of_nat (8 * ?m) :: u64) div 8 = ?m" using m(1) by (simp only: unat_of_nat) simp
  have same: "item_vec b1 ! i = v" by (simp add: b1(3) assms(4))
  note unfolds = move_to_head_def Let_def bytes eight b1(1,2) ebind_simps same a prod.case
  show thesis
  proof (cases "is_valid l1 (get_item_offset v)")
    case False
    obtain t1 t2 where "release_bucket ?j b1 (t\<lparr>pool := l1\<rparr>) = Inr t1" "cleanup_bucket ?w (log_tail l1) t1 = Inr t2"
      "table_ok b m (ns @ [Suc ?m]) (current b (ns @ [Suc ?m])) t2" by (rule drop_item [OF assms(1) b1(3,4) plain m(2) w])
    then show thesis using that [of t2] True False unfolding unfolds table_inv_def by (simp only: simp_thms if_True if_False ebind_simps) blast
  next
    case valid: True
    from m(2) have "8 * (sum_list ns + Suc ?m) \<le> 8 * sum_list ns + 2 ^ 22" by simp
    with current_spans(2) [of ns b] have "8 * (sum_list ns + Suc ?m) < Suc (current b ns) * 2 ^ (47 - b) + 2 ^ 22" by linarith
    then obtain r where r: "item_words l1 (get_item_offset v) 0 ?m = item_data r h key val"
      "ucast r = make_kv_length_vec (of_nat (byte_length key)) (of_nat (byte_length val))"
      by (rule moved_words [OF l plain at(3,5,4) bucket_of_less b _ v(1) valid])
    have fits: "length (item_data r h key val) \<le> ?m" "Suc ?m = 3 + length key + length val" by (simp_all add: item_data_def)
    obtain t1 t2 where "release_bucket ?j (set_entry i (make_item_vec (calc_tag h) ?w) b1) (t\<lparr>pool := copy_words ?w 0 (item_data r h key val) l1\<rparr>) = Inr t1"
      "cleanup_bucket ?w (log_tail (copy_words ?w 0 (item_data r h key val) l1)) t1 = Inr t2"
      "table_ok b (m((h, key) \<mapsto> val)) (ns @ [Suc ?m]) (current b (ns @ [Suc ?m])) t2"
      by (rule store_item [OF assms(1) b1(3,4) grow [OF fits(1)] fits(2) at(6) r(2) at(1) _ w]) (use found_slot [OF assms(1,3)] in \<open>simp_all add: b1(3)\<close>)
    moreover have "m((h, key) \<mapsto> val) = m" using at(7) by (rule map_upd_triv)
    ultimately show thesis using that [of t2] True valid r(1) v(2) unfolding unfolds table_inv_def
      by (simp only: simp_thms if_True ebind_simps copy_words_fields) blast
  qed
qed

lemma read_version_ok:
  assumes "table_ok b m ns Q t"
  obtains v where "vec_at (buckets t) (bucket_of b h) = Inr (buckets t ! bucket_of b h)"
    and "read_version_begin (table_mode t) (buckets t ! bucket_of b h) = Inr v"
proof -
  have "length (buckets t) = 2 ^ b" "unlocked (table_mode t) (buckets t ! bucket_of b h)" using assms by (simp_all add: table_ok_def table_geometry_def)
  then have "vec_at (buckets t) (bucket_of b h) = Inr (buckets t ! bucket_of b h)"
    "read_version_begin (table_mode t) (buckets t ! bucket_of b h) = Inr (if table_mode t = 0 then 0 else version (buckets t ! bucket_of b h))"
    by (simp_all add: vec_at_def read_version_begin_def unlocked_def)
  then show thesis by (rule that)
qed

text \<open>What the item that was found tells.\<close>

lemma found_reads:
  assumes "table_ok b m ns Q t" and "found_at b m ns t h key i p n val" and "w = get_item_offset (item_vec (buckets t ! bucket_of b h) ! i)"
  shows "at_pos w p" and "unat (get_value_length (item_kv_length_vec (pool t) w)) = byte_length val"
    and "c \<le> length val \<Longrightarrow> item_words (pool t) w (2 + length key) c = take c val"
proof -
  from assms(2) show pos: "at_pos w p" unfolding found_at_def assms(3) by (auto simp del: of_nat_mult)
  have g: "log_geometry (pool t)" using assms(1) by (simp add: table_ok_def log_layout_def)
  have at: "item_at (pool t) p n h key val" "small key val" using assms(2) unfolding found_at_def by blast+
  show "unat (get_value_length (item_kv_length_vec (pool t) w)) = byte_length val" by (rule item_at_reads(4) [OF at(1) g pos at(2)])
  show "c \<le> length val \<Longrightarrow> item_words (pool t) w (2 + length key) c = take c val" by (rule item_at_reads(6) [OF at(1) g pos at(2)])
qed

text \<open>A key that is found is answered with its value.\<close>

lemma get_found:
  assumes "table_ok b m ns (current b ns) t" and "unat (log_tail (pool t)) < 2 ^ 62" and "byte_length key \<le> kMaxKeyLength"
    and "i = find_item_index (pool t) (buckets t ! bucket_of b h) h (calc_tag h) key" and "found_at b m ns t h key i p n val"
    and "is_valid (pool t) (get_item_offset (item_vec (buckets t ! bucket_of b h) ! i))" and "8 dvd min (byte_length val) c"
  obtains t' where "table_get h key c allow_mutation t =
      Inr (if byte_length val \<le> c then kSuccess else kPartialValue, take (min (byte_length val) c div 8) val, t')" and "table_inv b m t'"
proof -
  let ?v = "item_vec (buckets t ! bucket_of b h) ! i" let ?w = "get_item_offset ?v"
  from assms(5) have at: "i < kBucketSize" "small key val" unfolding found_at_def by blast+
  have geo: "table_geometry b t" using assms(1) by (simp add: table_ok_def)
  note reads = found_reads [OF assms(1,5) refl]
  obtain ver where ver: "vec_at (buckets t) (bucket_of b h) = Inr (buckets t ! bucket_of b h)"
    "read_version_begin (table_mode t) (buckets t ! bucket_of b h) = Inr ver" by (rule read_version_ok [OF assms(1), of h])
  obtain t1 where mth: "move_to_head (bucket_of b h) key (byte_length val) i ?v t = Inr t1" "table_inv b m t1"
    by (rule move_to_head_ok [OF assms(1,2,5) refl])
  obtain t' where t': "(if allow_mutation then move_to_head (bucket_of b h) key (byte_length val) i ?v t else Inr t) = Inr t'" "table_inv b m t'"
    using mth assms(1) unfolding table_inv_def by (cases allow_mutation) auto
  have len: "byte_length val \<le> kMaxValueLength" using at(2) by (simp add: small_def)
  have "min (byte_length val) c div 8 \<le> length val" by (simp add: byte_length_def)
  note out = reads(3) [OF this]
  have "table_get h key c allow_mutation t =
      Inr (if byte_length val \<le> c then kSuccess else kPartialValue, take (min (byte_length val) c div 8) val, t')"
    unfolding table_get_def Let_def calc_bucket_index_eq [OF geo] ver(1) ebind_simps ver(2) assertion_def assms(4) [symmetric] reads(2) out t'(1)
    using at(1) assms(3,6,7) len by auto
  then show thesis using that t'(2) by blast
qed

lemma entries_clear: "entries_ok b l m ns Q j vs \<Longrightarrow> i < kBucketSize \<Longrightarrow> entries_ok b l m ns Q j (vs[i := 0])"
proof -
  assume e: "entries_ok b l m ns Q j vs" and i: "i < kBucketSize"
  show ?thesis by (rule entries_ok_update [OF e i]) (use e in \<open>simp_all add: entries_ok_def\<close>)
qed

lemma clear_entry:
  assumes "table_ok b m ns Q t" and "i < kBucketSize"
  obtains t' where "with_bucket (bucket_of b h) (set_entry i 0) t = Inr t'" and "table_ok b m ns Q t'"
proof -
  let ?j = "bucket_of b h"
  obtain b1 where b1: "vec_at (buckets t) ?j = Inr (buckets t ! ?j)" "lock_bucket (table_mode t) (buckets t ! ?j) = Inr b1"
    "item_vec b1 = item_vec (buckets t ! ?j)" "releases b t ?j b1" by (rule locked [OF assms(1), of h])
  have ok: "log_layout (pool t) ns" "\<And>k. k < 2 ^ b \<Longrightarrow> entries_ok b (pool t) m ns Q k (item_vec (buckets t ! k))"
    using assms(1) by (simp_all add: table_ok_def)
  have "entries_ok b (pool t) m ns Q ?j ((item_vec b1)[i := 0])" unfolding b1(3) by (rule entries_clear [OF ok(2) assms(2)]) simp
  then obtain t' where "release_bucket ?j (b1\<lparr>item_vec := (item_vec b1)[i := 0]\<rparr>) (t\<lparr>pool := pool t\<rparr>) = Inr t'" "table_ok b m ns Q t'"
    by (rule release_ok [OF b1(4) ok(1)]) (use ok(2) in simp_all)
  moreover have "with_bucket ?j (set_entry i 0) t = release_bucket ?j (b1\<lparr>item_vec := (item_vec b1)[i := 0]\<rparr>) (t\<lparr>pool := pool t\<rparr>)"
    using b1(1,2) by (simp add: with_bucket_def release_bucket_def set_entry_def)
  ultimately show thesis using that by simp
qed

text \<open>What \<open>get\<close> answers is the value of the key, or that there is none.\<close>

lemma get_sound:
  assumes "table_inv b m t" and "unat (log_tail (pool t)) < 2 ^ 62" and "table_get h key c allow_mutation t = Inr (r, out, t')"
  shows "table_inv b m t'" and "r = kSuccess \<Longrightarrow> m (h, key) = Some out" and "r = kPartialValue \<Longrightarrow> \<exists>v. m (h, key) = Some v \<and> out = take (c div 8) v"
proof -
  from assms(1) obtain ns where ok: "table_ok b m ns (current b ns) t" by (auto simp: table_inv_def)
  let ?bk = "buckets t ! bucket_of b h"
  define i where "i = find_item_index (pool t) ?bk h (calc_tag h) key"
  let ?w = "get_item_offset (item_vec ?bk ! i)"
  define n where "n = unat (get_value_length (item_kv_length_vec (pool t) ?w))"
  have geo: "table_geometry b t" using ok by (simp add: table_ok_def)
  obtain ver where ver: "vec_at (buckets t) (bucket_of b h) = Inr ?bk" "read_version_begin (table_mode t) ?bk = Inr ver"
    by (rule read_version_ok [OF ok, of h])
  have key: "byte_length key \<le> kMaxKeyLength" using assms(3) by (auto simp: table_get_def assertion_def split: if_splits)
  note run = assms(3) [unfolded table_get_def Let_def calc_bucket_index_eq [OF geo] ver(1) ebind_simps ver(2) assertion_def i_def [symmetric] n_def [symmetric]]
  have "table_inv b m t' \<and> (r = kSuccess \<longrightarrow> m (h, key) = Some out) \<and> (r = kPartialValue \<longrightarrow> (\<exists>v. m (h, key) = Some v \<and> out = take (c div 8) v))"
  proof (cases "i = kBucketSize")
    case True
    then show ?thesis using run key assms(1) by (auto split: if_splits)
  next
    case False
    note hit = found_index [OF ok refl, of h key, folded i_def, OF False]
    show ?thesis
    proof (cases "n > kMaxValueLength \<or> \<not> is_valid (pool t) ?w")
      case True
      obtain t1 where t1: "with_bucket (bucket_of b h) (set_entry i 0) t = Inr t1" "table_ok b m ns (current b ns) t1" by (rule clear_entry [OF ok hit(1)])
      then show ?thesis using run True False ok unfolding table_inv_def by (auto split: if_splits)
    next
      case valid: False
      then obtain p k val where at: "found_at b m ns t h key i p k val" using found_entry [OF ok refl hit] by blast
      have len: "n = byte_length val" unfolding n_def by (rule found_reads(2) [OF ok at refl])
      have "8 dvd min n c" using run valid False key by (auto split: if_splits)
      then obtain t1 where "table_get h key c allow_mutation t =
          Inr (if byte_length val \<le> c then kSuccess else kPartialValue, take (min (byte_length val) c div 8) val, t1)" "table_inv b m t1"
        using get_found [OF ok assms(2) key i_def at] valid unfolding len by blast
      then show ?thesis using assms(3) at unfolding found_at_def by (auto simp: byte_length_def min_def split: if_splits)
    qed
  qed
  then show "table_inv b m t'" "r = kSuccess \<Longrightarrow> m (h, key) = Some out" "r = kPartialValue \<Longrightarrow> \<exists>v. m (h, key) = Some v \<and> out = take (c div 8) v"
    by blast+
qed

text \<open>A key that is present is found.\<close>

lemma get_present:
  assumes "table_inv b m t" and "present b t h key" and "unat (log_tail (pool t)) < 2 ^ 62" and "m (h, key) = Some val" and "byte_length val \<le> c"
  obtains t' where "table_get h key c allow_mutation t = Inr (kSuccess, val, t')"
proof -
  from assms(1) obtain ns where ok: "table_ok b m ns (current b ns) t" by (auto simp: table_inv_def)
  let ?bk = "buckets t ! bucket_of b h" and ?P = "item_matches (pool t) h (calc_tag h) key"
  define i where "i = find_item_index (pool t) ?bk h (calc_tag h) key"
  have e: "entries_ok b (pool t) m ns (current b ns) (bucket_of b h) (item_vec ?bk)" using ok by (simp add: table_ok_def)
  then have len: "length (item_vec ?bk) = kBucketSize" by (simp add: entries_ok_def)
  from assms(2) obtain k where k: "k < kBucketSize" "?P (item_vec ?bk ! k)" "is_valid (pool t) (get_item_offset (item_vec ?bk ! k))"
    unfolding present_def by (metis in_set_conv_nth len)
  then have "i \<noteq> kBucketSize" using first_slot_miss [of ?P "item_vec ?bk"] len nth_mem unfolding i_def find_item_index_def by metis
  note hit = found_index [OF ok refl, of h key, folded i_def, OF this]
  have "item_vec ?bk ! i \<noteq> 0" "item_vec ?bk ! k \<noteq> 0" "get_tag (item_vec ?bk ! i) = get_tag (item_vec ?bk ! k)"
    using hit(2) k(2) by (auto simp: item_matches_def)
  then have "i = k" using e hit(1) k(1) unfolding entries_ok_def same_entry_def by blast
  with k(3) have valid: "is_valid (pool t) (get_item_offset (item_vec ?bk ! i))" by simp
  from found_entry [OF ok refl hit valid] obtain p n val' where at: "found_at b m ns t h key i p n val'" by blast
  have "val' = val" using at assms(4) by (simp add: found_at_def)
  have key: "byte_length key \<le> kMaxKeyLength" using at by (simp add: found_at_def small_def)
  have all: "min (byte_length val') c = 8 * length val" using assms(5) unfolding \<open>val' = val\<close> byte_length_def by simp
  obtain t' where "table_get h key c allow_mutation t =
      Inr (if byte_length val' \<le> c then kSuccess else kPartialValue, take (min (byte_length val') c div 8) val', t')"
    by (rule get_found [OF ok assms(3) key i_def at valid, of c allow_mutation]) (simp_all add: all)
  then show thesis using that assms(5) unfolding all \<open>val' = val\<close> by (simp add: byte_length_def)
qed

section \<open>del and increment\<close>

text \<open>Forgetting a key is right for the entries that do not match it.\<close>

lemma entry_ok_forget:
  assumes "entry_ok b l m ns Q j v" and "log_layout l ns" and "bucket_of b h = j \<Longrightarrow> \<not> item_matches l h (calc_tag h) key v"
  shows "entry_ok b l (m((h, key) := None)) ns Q j v"
proof -
  from assms(1) obtain p n h' key' val where v: "v = make_item_vec (calc_tag h') (of_nat (8 * p) AND kOffsetMask)" and i: "item_of ns p n"
    and j: "bucket_of b h' = j" and c: "cleaned b Q j (8 * (p + words l))"
    and d: "sum_list ns \<le> p + words l \<longrightarrow> item_at l p n h' key' val \<and> small key' val \<and> m (h', key') = Some val"
    unfolding entry_ok_def by blast
  have g: "log_geometry l" using assms(2) by (simp add: log_layout_def)
  have "8 * sum_list ns < 2 ^ 64" using unsigned_less [where 'a = nat, of "log_tail l"] log_layout_tail [OF assms(2)] by simp
  then have pos: "at_pos (of_nat (8 * p) AND kOffsetMask) p" using item_of_end [OF i] by (intro of_nat_pos) linarith
  have off: "get_item_offset v = of_nat (8 * p) AND kOffsetMask" "get_tag v = calc_tag h'" by (simp_all only: v get_item_offset_make get_tag_make)
  have "(h', key') \<noteq> (h, key)" if "sum_list ns \<le> p + words l"
  proof
    assume eq: "(h', key') = (h, key)"
    from d that have it: "item_at l p n h' key' val" "small key' val" by simp_all
    have "item_matches l h' (calc_tag h') key' v" by (rule item_at_matches [OF it(1) g _ it(2) off(2)]) (use pos off(1) in simp)
    then show False using assms(3) j eq by simp
  qed
  then have "sum_list ns \<le> p + words l \<longrightarrow> item_at l p n h' key' val \<and> small key' val \<and> (m((h, key) := None)) (h', key') = Some val"
    using d by auto
  then show ?thesis unfolding entry_ok_def using v i j c by blast
qed

lemma entries_forget:
  assumes "entries_ok b l m ns Q j vs" and "log_layout l ns"
    and "\<And>v. v \<in> set vs \<Longrightarrow> bucket_of b h = j \<Longrightarrow> \<not> item_matches l h (calc_tag h) key v"
  shows "entries_ok b l (m((h, key) := None)) ns Q j vs"
  using assms(1,3) entry_ok_forget [OF _ assms(2)] unfolding entries_ok_def by blast

lemma del_ok:
  assumes "table_inv b m t" and "byte_length key \<le> kMaxKeyLength"
  obtains r t' where "table_del h key t = Inr (r, t')" and "table_inv b (m((h, key) := None)) t'"
proof -
  from assms(1) obtain ns where ok: "table_ok b m ns (current b ns) t" by (auto simp: table_inv_def)
  let ?j = "bucket_of b h" and ?m = "m((h, key) := None)" and ?P = "item_matches (pool t) h (calc_tag h) key"
  obtain b1 where b1: "vec_at (buckets t) ?j = Inr (buckets t ! ?j)" "lock_bucket (table_mode t) (buckets t ! ?j) = Inr b1"
    "item_vec b1 = item_vec (buckets t ! ?j)" "releases b t ?j b1" by (rule locked [OF ok, of h])
  have l: "log_layout (pool t) ns" and geo: "table_geometry b t"
    and e: "\<And>k. k < 2 ^ b \<Longrightarrow> entries_ok b (pool t) m ns (current b ns) k (item_vec (buckets t ! k))" using ok by (simp_all add: table_ok_def)
  define i where "i = find_item_index (pool t) b1 h (calc_tag h) key"
  have ej: "entries_ok b (pool t) m ns (current b ns) ?j (item_vec b1)" unfolding b1(3) by (rule e) simp
  then have len: "length (item_vec b1) = kBucketSize" by (simp add: entries_ok_def)
  define vs where "vs = (if i = kBucketSize then item_vec b1 else (item_vec b1)[i := 0])"
  have vs: "entries_ok b (pool t) m ns (current b ns) ?j vs \<and> (\<forall>v\<in>set vs. \<not> ?P v)"
  proof (cases "i = kBucketSize")
    case True
    then have "\<forall>v\<in>set (item_vec b1). \<not> ?P v" using first_slot_miss [of ?P "item_vec b1"] len unfolding i_def find_item_index_def by simp
    then show ?thesis using True ej by (simp add: vs_def)
  next
    case False
    note hit = found_index [OF ok b1(3), of key, folded i_def, OF False]
    then have tag: "get_tag (item_vec b1 ! i) = calc_tag h" "item_vec b1 ! i \<noteq> 0" by (auto simp: item_matches_def)
    have "\<not> ?P ((item_vec b1)[i := 0] ! k)" if "k < kBucketSize" for k
      using that ej hit(1) tag len unfolding entries_ok_def same_entry_def
      by (cases "k = i"; cases "item_vec b1 ! k = 0") (auto simp: item_matches_def)
    then show ?thesis using False entries_clear [OF ej hit(1)] len by (auto simp: vs_def in_set_conv_nth)
  qed
  have others: "\<forall>k<2 ^ b. k \<noteq> ?j \<longrightarrow> entries_ok b (pool t) ?m ns (current b ns) k (item_vec (buckets t ! k))"
    by (intro allI impI entries_forget [OF e l]) simp_all
  have "entries_ok b (pool t) ?m ns (current b ns) ?j vs" by (rule entries_forget [OF _ l]) (use vs in auto)
  then obtain t' where t': "release_bucket ?j (b1\<lparr>item_vec := vs\<rparr>) (t\<lparr>pool := pool t\<rparr>) = Inr t'" "table_ok b ?m ns (current b ns) t'"
    by (rule release_ok [OF b1(4) l _ others])
  have "table_del h key t = Inr (if i = kBucketSize then kNotFound else kSuccess, t')"
    using t'(1) assms(2) b1(1,2) unfolding table_del_def Let_def calc_bucket_index_eq [OF geo]
    by (auto simp: assertion_def log_release_def set_entry_def vs_def i_def)
  then show thesis using that t'(2) unfolding table_inv_def by blast
qed

lemma increment_sound:
  assumes "table_inv b m t" and "table_increment h key d t = Inr (r, y, t')"
  shows "table_inv b (case y of Some x \<Rightarrow> m((h, key) \<mapsto> [x]) | None \<Rightarrow> m) t'"
    and "r = kSuccess \<Longrightarrow> \<exists>x. m (h, key) = Some [x] \<and> y = Some (x + d)"
proof -
  from assms(1) obtain ns where ok: "table_ok b m ns (current b ns) t" by (auto simp: table_inv_def)
  let ?j = "bucket_of b h"
  obtain b1 where b1: "vec_at (buckets t) ?j = Inr (buckets t ! ?j)" "lock_bucket (table_mode t) (buckets t ! ?j) = Inr b1"
    "item_vec b1 = item_vec (buckets t ! ?j)" "releases b t ?j b1" by (rule locked [OF ok, of h])
  have l: "log_layout (pool t) ns" and geo: "table_geometry b t" using ok by (simp_all add: table_ok_def)
  have key: "byte_length key \<le> kMaxKeyLength" using assms(2) by (auto simp: table_increment_def assertion_def split: if_splits)
  obtain t1 where t1: "release_bucket ?j b1 t = Inr t1" "table_ok b m ns (current b ns) t1" by (rule release_unchanged [OF ok b1(4,3)])
  define i where "i = find_item_index (pool t) b1 h (calc_tag h) key"
  define w where "w = get_item_offset (item_vec b1 ! i)"
  define n where "n = unat (get_value_length (item_kv_length_vec (pool t) w))"
  note run = assms(2) [unfolded table_increment_def Let_def calc_bucket_index_eq [OF geo] b1(1,2) ebind_simps assertion_def
      i_def [symmetric] w_def [symmetric] n_def [symmetric] t1(1)]
  have "table_inv b (case y of Some x \<Rightarrow> m((h, key) \<mapsto> [x]) | None \<Rightarrow> m) t' \<and> (r = kSuccess \<longrightarrow> (\<exists>x. m (h, key) = Some [x] \<and> y = Some (x + d)))"
  proof (cases "i = kBucketSize \<or> \<not> is_valid (pool t) w \<or> n \<noteq> 8")
    case True
    then show ?thesis using run key t1(2) unfolding table_inv_def by (auto split: if_splits)
  next
    case False
    then have f: "i \<noteq> kBucketSize" "is_valid (pool t) w" "n = 8" by simp_all
    note hit = found_index [OF ok b1(3), of key, folded i_def, OF f(1)]
    from found_entry [OF ok refl hit(1)] hit(2) f(2) obtain p k val where at: "found_at b m ns t h key i p k val" unfolding b1(3) w_def by blast
    note reads = found_reads [OF ok at w_def [unfolded b1(3)]]
    have "length val = 1" using reads(2) f(3) unfolding n_def byte_length_def by simp
    then obtain x where x: "val = [x]" by (cases val) auto
    from at have a: "item_of ns p k" "sum_list ns \<le> p + words (pool t)" "item_at (pool t) p k h key [x]" "small key [x]" "m (h, key) = Some [x]"
      unfolding found_at_def x by blast+
    have old: "item_word (pool t) w (2 + length key) = x" using reads(3) [of 1] by (simp add: x item_words_def)
    note inc = increment_ok [OF l a(1) reads(1) a(2,3), of "x + d"]
    have "small key [x + d]" using a(4) by (simp add: small_def byte_length_def)
    then obtain t2 where t2: "release_bucket ?j b1 (t\<lparr>pool := set_item_word (pool t) w (2 + length key) (x + d)\<rparr>) = Inr t2"
      "table_ok b (m((h, key) \<mapsto> [x + d])) ns (current b ns) t2" by (rule release_written [OF ok at b1(3,4) inc])
    then show ?thesis using run key f a(5) old unfolding table_inv_def by auto
  qed
  then show "table_inv b (case y of Some x \<Rightarrow> m((h, key) \<mapsto> [x]) | None \<Rightarrow> m) t'" "r = kSuccess \<Longrightarrow> \<exists>x. m (h, key) = Some [x] \<and> y = Some (x + d)"
    by blast+
qed

section \<open>Creating a table\<close>

lemma drop_push: "r \<le> k \<Longrightarrow> k < 64 \<Longrightarrow> drop_bit r (push_bit k 1) = (push_bit (k - r) 1 :: u64)"
  by (rule bit_word_eqI) (auto simp: bit_simps)

lemma half_range: "r \<le> 47 \<Longrightarrow> drop_bit r (drop_bit 1 (kItemOffsetMask + 1)) = (2 ^ (47 - r) :: u64)"
proof -
  assume r: "r \<le> 47"
  have "drop_bit 1 (kItemOffsetMask + 1) = (push_bit 47 1 :: u64)" by code_simp
  then have "drop_bit r (drop_bit 1 (kItemOffsetMask + 1)) = (push_bit (47 - r) 1 :: u64)" using drop_push [OF r] by (simp only:)
  then show ?thesis by (simp add: push_bit_eq_mult)
qed

lemma two_power_less: "j < 64 \<Longrightarrow> k < 64 \<Longrightarrow> (2 ^ j :: u64) < 2 ^ k \<longleftrightarrow> j < k"
  by (simp add: word_less_nat_alt unat_two_power)

text \<open>The loop ends with spans whose number is twice the number of buckets.\<close>

lemma rshift_loop_eq:
  assumes "r + c = 47 - s" and "s \<le> 31"
  shows "rshift_loop (2 ^ s) r = 47 - s"
  using assms(1)
proof (induction c arbitrary: r)
  case 0
  then have d: "drop_bit r (drop_bit 1 (kItemOffsetMask + 1)) = (2 ^ (47 - r) :: u64)" by (intro half_range) simp
  show ?case unfolding rshift_loop.simps [of _ r] d using 0 assms(2) by simp
next
  case (Suc c)
  then have d: "drop_bit r (drop_bit 1 (kItemOffsetMask + 1)) = (2 ^ (47 - r) :: u64)" by (intro half_range) simp
  have "s < 47 - r" "r < 64" "47 - r < 64" using Suc.prems by linarith+
  then have "(2 ^ s :: u64) < 2 ^ (47 - r)" using two_power_less [of s "47 - r"] assms(2) by simp
  then show ?case unfolding rshift_loop.simps [of _ r] d using Suc \<open>r < 64\<close> by simp
qed

lemma fold_release [simp]: "fold (\<lambda>v. if v \<noteq> 0 then log_release (get_item_offset v) else id) vs l = l"
  by (induction vs) (simp_all add: log_release_def)

lemma LTable_ok:
  assumes "CircularLog bytes cr cw memory = Inr l" and "LTable item_count concurrent_read concurrent_write threshold l = Inr t"
    and "1 < length (buckets t)"
  obtains b where "table_inv b Map.empty t" and "log_tail (pool t) = 0"
proof -
  note l = CircularLog_inv [OF assms(1)]
  define n where "n = (item_count * 11 div 10 + of_nat kBucketSize - 1) div of_nat kBucketSize"
  define s where "s = log_num_buckets n 0"
  define t0 where "t0 = \<lparr>pool = l, buckets = replicate (unat (2 ^ s :: u64)) empty_bucket,
    table_mode = (if \<not> concurrent_read then 0 else if \<not> concurrent_write then 1 else 2),
    rshift = rshift_loop (2 ^ s) 0, num_buckets_mask = ucast (2 ^ s - 1 :: u64), mth_threshold = threshold\<rparr>"
  from assms(2) have t: "t = table_reset t0" and s: "s \<le> 32" "(2 ^ s :: u64) \<le> 4294967295"
    unfolding LTable_def Let_def n_def [symmetric] s_def [symmetric] t0_def by (auto simp: assertion_def push_bit_eq_mult split: if_splits)
  have s31: "s \<le> 31"
  proof (rule ccontr)
    assume "\<not> s \<le> 31"
    with s(1) have "s = 32" by simp
    with s(2) show False by simp
  qed
  have len: "length (buckets t) = 2 ^ s" using s31 by (simp add: t t0_def table_reset_def unat_two_power)
  have "1 \<le> s" using assms(3) unfolding len by (cases s) simp_all
  moreover have "ucast (2 ^ s - 1 :: u64) = (mask s :: u32)"
    using s31 by (simp add: ucast_mask_eq flip: mask_eq_exp_minus_1)
  ultimately have geo: "table_geometry s t" using s31 len rshift_loop_eq [of 0 "47 - s" s] unfolding table_geometry_def
    by (simp add: t t0_def table_reset_def)
  have pool: "pool t = log_reset l" by (simp add: t t0_def table_reset_def)
  have lay: "log_layout (log_reset l) []" using l(1) by (auto simp: log_layout_def log_geometry_def log_reset_def)
  have "item_vec (buckets t ! j) = replicate kBucketSize 0" "unlocked (table_mode t) (buckets t ! j)" if "j < 2 ^ s" for j
    using that len by (simp_all add: t table_reset_def empty_bucket_def unlocked_def)
  then have "table_ok s Map.empty [] (current s []) t" using geo lay unfolding table_ok_def pool by (simp add: entries_ok_def same_entry_def)
  then show thesis using that pool unfolding table_inv_def log_reset_def by auto
qed

end
