(* ===== verification/Mica_Soundness.thy ===== *)
theory Mica_Soundness
  imports Mica_Cache
begin

text \<open>
  What a user of the lossy table of MICA2 can rely on, and where the code breaks its promise: values that grow are written past the
  end of their item, and a full bucket gives up its newest entry.
\<close>

section \<open>A cache\<close>

text \<open>Uses of a table, together with the values last written. The first \<open>2\<^sup>6\<^sup>2\<close> bytes appended are covered. A stored value is
  only replaced by one that is not longer, and the table has at least two buckets: with one bucket the clean-up loop never runs.\<close>

inductive cache_run :: "ltable \<Rightarrow> contents \<Rightarrow> bool" where
  start: "CircularLog bytes cr cw memory = Inr l \<Longrightarrow> LTable item_count concurrent_read concurrent_write threshold l = Inr t \<Longrightarrow>
    1 < length (buckets t) \<Longrightarrow> cache_run t Map.empty"
| set_value: "cache_run t m \<Longrightarrow> unat (log_tail (pool t)) < 2 ^ 62 \<Longrightarrow> (\<forall>v. m (h, key) = Some v \<longrightarrow> length val \<le> length v) \<Longrightarrow>
    table_set h key val overwrite t = Inr (r, t') \<Longrightarrow> cache_run t' (if r = kSuccess then m((h, key) \<mapsto> val) else m)"
| get_value: "cache_run t m \<Longrightarrow> unat (log_tail (pool t)) < 2 ^ 62 \<Longrightarrow> table_get h key c allow_mutation t = Inr (r, out, t') \<Longrightarrow> cache_run t' m"
| del_key: "cache_run t m \<Longrightarrow> table_del h key t = Inr (r, t') \<Longrightarrow> cache_run t' (m((h, key) := None))"
| increment: "cache_run t m \<Longrightarrow> table_increment h key d t = Inr (r, y, t') \<Longrightarrow>
    cache_run t' (case y of Some x \<Rightarrow> m((h, key) \<mapsto> [x]) | None \<Rightarrow> m)"

lemma cache_run_inv: "cache_run t m \<Longrightarrow> \<exists>b. table_inv b m t"
proof (induction rule: cache_run.induct)
  case (start bytes cr cw memory l item_count concurrent_read concurrent_write threshold t)
  then show ?case by (metis LTable_ok)
next
  case (set_value t m h key val overwrite r t')
  then obtain b where inv: "table_inv b m t" by blast
  have small: "small key val" using set_value.hyps(4) by (auto simp: table_set_def assertion_def small_def split: if_splits)
  obtain r1 t1 where "table_set h key val overwrite t = Inr (r1, t1)" "table_inv b (if r1 = kSuccess then m((h, key) \<mapsto> val) else m) t1"
    by (rule set_ok [OF inv set_value.hyps(2) small]) (use set_value.hyps(3) in blast)
  then show ?case using set_value.hyps(4) by auto
next
  case (get_value t m h key c allow_mutation r out t')
  then show ?case using get_sound(1) by blast
next
  case (del_key t m h key r t')
  then obtain b where inv: "table_inv b m t" by blast
  have key: "byte_length key \<le> kMaxKeyLength" using del_key.hyps(2) by (auto simp: table_del_def assertion_def split: if_splits)
  obtain r1 t1 where "table_del h key t = Inr (r1, t1)" "table_inv b (m((h, key) := None)) t1" by (rule del_ok [OF inv key])
  moreover from this(1) del_key.hyps(2) have "t1 = t'" by simp
  ultimately show ?case by blast
next
  case (increment t m h key d r y t')
  then show ?case using increment_sound(1) by blast
qed



section \<open>A small table\<close>

definition example_table :: ltable where
  "example_table = \<lparr>pool = example_log, buckets = [empty_bucket, empty_bucket], table_mode = 0, rshift = 46, num_buckets_mask = 1, mth_threshold = 0\<rparr>"

lemma example_table_created: "LTable 20 False False 0 example_log = Inr example_table"
proof -
  have n: "(20 * 11 div 10 + of_nat kBucketSize - 1) div of_nat kBucketSize = (2 :: u64)" by code_simp
  have s: "log_num_buckets 2 0 = 1" by code_simp
  have "rshift_loop 2 0 = 46" using rshift_loop_eq [of 0 46 1] by simp
  moreover have "log_reset example_log = example_log" by (simp add: log_reset_def example_log_def)
  moreover have "replicate (unat (2 :: u64)) empty_bucket = [empty_bucket, empty_bucket]" by (simp add: numeral_2_eq_2 [symmetric]) (simp add: numeral_2_eq_2)
  ultimately show ?thesis
    unfolding LTable_def Let_def n s example_table_def
    by (simp add: assertion_def table_reset_def push_bit_eq_mult)
qed

lemma example_cache: "cache_run example_table Map.empty" "unat (log_tail (pool example_table)) < 2 ^ 61"
  by (rule cache_run.start [OF example_log_created example_table_created]) (simp_all add: example_table_def example_log_def)


section \<open>Values that grow\<close>

text \<open>States of the small table with memory \<open>d\<close>, tail \<open>e\<close> and at most one entry in each of the two buckets.\<close>

definition small_log :: "(nat \<Rightarrow> u64) \<Rightarrow> u64 \<Rightarrow> circular_log" where
  "small_log d e = example_log\<lparr>log_data := d, log_tail := e\<rparr>"

definition slots :: "u64 \<Rightarrow> u64 list" where
  "slots v = [v, 0, 0, 0, 0, 0, 0, 0, 0, 0, 0, 0, 0, 0, 0]"

definition small_table :: "(nat \<Rightarrow> u64) \<Rightarrow> u64 \<Rightarrow> u64 \<Rightarrow> u64 \<Rightarrow> ltable" where
  "small_table d e v w = \<lparr>pool = small_log d e, buckets = [\<lparr>version = 0, item_vec = slots v\<rparr>, \<lparr>version = 0, item_vec = slots w\<rparr>],
     table_mode = 0, rshift = 46, num_buckets_mask = 1, mth_threshold = 0\<rparr>"

lemma small_log_simps [simp]:
  "log_size (small_log d e) = 2097152" "log_mask (small_log d e) = 2097151" "log_head (small_log d e) = 0" "log_tail (small_log d e) = e"
  by (simp_all add: small_log_def example_log_def)

lemma small_log_read: "i < 8 \<Longrightarrow> log_read (small_log d e) 0 i = d i" "i < 8 \<Longrightarrow> log_read (small_log d e) 40 i = d (5 + i)"
  by (simp_all add: log_read_def word_at_def) (simp_all add: small_log_def example_log_def)

lemma small_log_write:
  "i < 8 \<Longrightarrow> log_write (small_log d e) 0 i x = small_log (d(i := x)) e" "i < 8 \<Longrightarrow> log_write (small_log d e) 40 i x = small_log (d(5 + i := x)) e"
  by (simp_all add: log_write_def word_at_def) (simp_all add: small_log_def example_log_def)

lemma small_log_allocate:
  "log_allocate 32 (small_log d 0) = Inr (0, small_log (d(0 := 40)) 40)" "log_allocate 32 (small_log d 40) = Inr (40, small_log (d(5 := 40)) 80)"
proof -
  have r: "roundup 8 40 = 40" "(0 :: u64) AND kOffsetMask = 0" "40 AND kOffsetMask = 40" by code_simp+
  have p: "pop_heads 48 (small_log d 0) = Some (Inr (small_log d 0))" "pop_heads 88 (small_log d 40) = Some (Inr (small_log d 40))"
    by (subst pop_heads.simps, simp)+
  have t: "(small_log f e)\<lparr>log_tail := x\<rparr> = small_log f x" for f e x by (simp add: small_log_def)
  show "log_allocate 32 (small_log d 0) = Inr (0, small_log (d(0 := 40)) 40)" "log_allocate 32 (small_log d 40) = Inr (40, small_log (d(5 := 40)) 80)"
    by (simp_all add: log_allocate_def assertion_def push_tail_def Let_def kItemHeader_def r p small_log_write t check_invariants_def)
qed

lemma small_table_fields [simp]:
  "pool (small_table d e v w) = small_log d e" "table_mode (small_table d e v w) = 0"
  "buckets (small_table d e v w) = [\<lparr>version = 0, item_vec = slots v\<rparr>, \<lparr>version = 0, item_vec = slots w\<rparr>]"
  by (simp_all add: small_table_def)

lemma small_table_update [simp]:
  "small_table d e v w\<lparr>pool := small_log d' e', buckets := [\<lparr>version = 0, item_vec = slots v'\<rparr>, \<lparr>version = 0, item_vec = slots w'\<rparr>]\<rparr> =
    small_table d' e' v' w'"
  by (simp add: small_table_def)

lemma slots_simps [simp]: "(slots v)[0 := x] = slots x" "slots v ! 0 = v"
  by (simp_all add: slots_def)

lemma small_table_geometry: "table_geometry 1 (small_table d e v w)"
  by (simp add: table_geometry_def small_table_def mask_Suc_0)

lemma small_buckets: "bucket_of (Suc 0) 1 = 0" "bucket_of (Suc 0) 65538 = 1" "calc_tag 1 = 1" "calc_tag 65538 = 2"
  by code_simp+

lemma small_cleanup: "cleanup_bucket 0 40 (small_table d e v w) = Inr (small_table d e v w)" "cleanup_bucket 40 80 (small_table d e v w) = Inr (small_table d e v w)"
proof -
  have "drop_bit 46 (0 :: u64) AND 1 = 0" "drop_bit 46 (40 :: u64) AND 1 = 0" "drop_bit 46 (80 :: u64) AND 1 = 0" by code_simp+
  then show "cleanup_bucket 0 40 (small_table d e v w) = Inr (small_table d e v w)" "cleanup_bucket 40 80 (small_table d e v w) = Inr (small_table d e v w)"
    unfolding cleanup_bucket_def by (simp_all add: small_table_def cleanup_buckets.simps)
qed

lemma small_masks: "unat kKeyMask = 255" "unat kValueMask = 16777215"
  by (simp_all add: kKeyMask_def kValueMask_def push_bit_eq_mult)

lemmas item_evals = set_item_def set_item_value_def assertion_def byte_length_def Let_def set_kv_length_vec_def item_word_def set_item_word_def
  small_log_read small_log_write make_kv_length_vec_def small_masks numeral_2_eq_2 [symmetric]

lemma small_item:
  "d 1 = 0 \<Longrightarrow> set_item 0 h [k] [a] (small_log d e) = Inr (small_log (d(1 := 134217736, 2 := h, 3 := k, 4 := a)) e)"
  "d 6 = 0 \<Longrightarrow> set_item 40 h [k] [a] (small_log d e) = Inr (small_log (d(6 := 134217736, 7 := h, 8 := k, 9 := a)) e)"
  by (simp_all add: item_evals)

lemma small_overwrite:
  assumes "d 1 = 134217736"
  shows "set_item_value 0 [b, c] (small_log d e) = Inr (small_log (d(1 := 134217744, 4 := b, 5 := c)) e)"
proof -
  have "get_key_length 134217736 = 8" "roundup 8 8 = 8" by code_simp+
  then show ?thesis using assms by (simp add: item_evals item_kv_length_vec_def)
qed

lemma small_matches:
  assumes "d 1 = x" and "get_key_length (ucast x) = 8" and "d 2 = 1" and "d 3 = k"
  shows "item_matches (small_log d e) 1 1 [k] 281474976710656"
proof -
  have "get_tag 281474976710656 = 1" "get_item_offset 281474976710656 = 0" by code_simp+
  then show ?thesis using assms by (simp add: item_matches_def compare_keys_def item_key_hash_def item_kv_length_vec_def item_words_def item_evals)
qed

lemma no_match: "tag \<noteq> 0 \<Longrightarrow> \<not> item_matches l h tag key 0"
  by (simp add: item_matches_def)

text \<open>The first value is appended.\<close>

lemma spill_first:
  "table_set 1 [k] [a] True (small_table (\<lambda>_. 0) 0 0 0) =
    Inr (kSuccess, small_table ((\<lambda>_. 0)(0 := 40, 1 := 134217736, 2 := 1, 3 := k, 4 := a)) 40 281474976710656 0)"
proof -
  let ?t = "small_table (\<lambda>_. 0) 0 0 0"
  have small: "small [k] [a]" by (simp add: small_def byte_length_def kMaxKeyLength_def kMaxValueLength_def)
  have v: "vec_at (buckets ?t) (bucket_of 1 1) = Inr \<lparr>version = 0, item_vec = slots 0\<rparr>" by (simp add: vec_at_def small_buckets)
  have lk: "lock_bucket (table_mode ?t) \<lparr>version = 0, item_vec = slots 0\<rparr> = Inr \<lparr>version = 0, item_vec = slots 0\<rparr>" by (simp add: lock_bucket_def)
  have sz: "item_size [k] (byte_length [a]) = 32" using item_size_eq [OF small] by simp
  have f: "find_item_index (pool ?t) \<lparr>version = 0, item_vec = slots 0\<rparr> 1 (calc_tag 1) [k] = kBucketSize"
    "find_same_tag \<lparr>version = 0, item_vec = slots 0\<rparr> (calc_tag 1) = kBucketSize" "get_empty_or_oldest (pool ?t) \<lparr>version = 0, item_vec = slots 0\<rparr> = 0"
    by (simp_all add: find_item_index_def find_same_tag_def get_empty_or_oldest_def slots_def no_match small_buckets kBucketSize_def)
  have mk: "make_item_vec 1 0 = 281474976710656" by code_simp
  show ?thesis
    unfolding table_set_unfold [OF small_table_geometry small v lk refl refl] f
    by (simp add: sz small_log_allocate small_item release_bucket_def unlock_bucket_def set_entry_def small_buckets mk small_cleanup)
qed

text \<open>The second, one word longer, is written over it, because the size the pool reports counts its own header.\<close>

lemma spill_second:
  assumes "d 0 = 40" and "d 1 = 134217736" and "d 2 = 1" and "d 3 = k"
  shows "table_set 1 [k] [b, c] True (small_table d 40 281474976710656 0) =
    Inr (kSuccess, small_table (d(1 := 134217744, 4 := b, 5 := c)) 40 281474976710656 0)"
proof -
  let ?t = "small_table d 40 281474976710656 0" and ?b = "\<lparr>version = 0, item_vec = slots 281474976710656\<rparr>"
  have small: "small [k] [b, c]" by (simp add: small_def byte_length_def kMaxKeyLength_def kMaxValueLength_def)
  have v: "vec_at (buckets ?t) (bucket_of 1 1) = Inr ?b" by (simp add: vec_at_def small_buckets)
  have lk: "lock_bucket (table_mode ?t) ?b = Inr ?b" by (simp add: lock_bucket_def)
  have sz: "item_size [k] (byte_length [b, c]) = 40" using item_size_eq [OF small] by simp
  have "get_key_length (ucast (134217736 :: u64)) = 8" "get_item_offset 281474976710656 = 0" "(40 :: u64) AND kOffsetMask \<le> 2097152" by code_simp+
  note ev = this
  have f: "find_item_index (pool ?t) ?b 1 (calc_tag 1) [k] = 0"
    using small_matches [OF refl, of d k 40] assms ev(1) by (simp add: find_item_index_def slots_def small_buckets)
  show ?thesis
    unfolding table_set_unfold [OF small_table_geometry small v lk refl refl] f
    using assms ev(2,3)
    by (simp add: kBucketSize_def sz is_valid_def item_len_def small_log_read small_overwrite release_bucket_def unlock_bucket_def small_buckets)
qed

text \<open>The next item lies where the second value ends.\<close>

lemma spill_third:
  assumes "d 6 = 0"
  shows "table_set 65538 [k'] [x] True (small_table d 40 v 0) =
    Inr (kSuccess, small_table (d(5 := 40, 6 := 134217736, 7 := 65538, 8 := k', 9 := x)) 80 v 562949953421352)"
proof -
  let ?t = "small_table d 40 v 0" and ?b = "\<lparr>version = 0, item_vec = slots 0\<rparr>"
  have small: "small [k'] [x]" by (simp add: small_def byte_length_def kMaxKeyLength_def kMaxValueLength_def)
  have vc: "vec_at (buckets ?t) (bucket_of 1 65538) = Inr ?b" by (simp add: vec_at_def small_buckets)
  have lk: "lock_bucket (table_mode ?t) ?b = Inr ?b" by (simp add: lock_bucket_def)
  have sz: "item_size [k'] (byte_length [x]) = 32" using item_size_eq [OF small] by simp
  have f: "find_item_index (pool ?t) ?b 65538 (calc_tag 65538) [k'] = kBucketSize"
    "find_same_tag ?b (calc_tag 65538) = kBucketSize" "get_empty_or_oldest (pool ?t) ?b = 0"
    by (simp_all add: find_item_index_def find_same_tag_def get_empty_or_oldest_def slots_def no_match small_buckets kBucketSize_def)
  have mk: "make_item_vec 2 40 = 562949953421352" by code_simp
  show ?thesis
    unfolding table_set_unfold [OF small_table_geometry small vc lk refl refl] f
    using assms by (simp add: sz small_log_allocate small_item release_bucket_def unlock_bucket_def set_entry_def small_buckets mk small_cleanup)
qed

lemma spill_get:
  assumes "d 1 = 134217744" and "d 2 = 1" and "d 3 = k" and "e = 40 \<or> e = 80"
  shows "table_get 1 [k] 16 False (small_table d e 281474976710656 w) = Inr (kSuccess, [d 4, d 5], small_table d e 281474976710656 w)"
proof -
  let ?t = "small_table d e 281474976710656 w" and ?b = "\<lparr>version = 0, item_vec = slots 281474976710656\<rparr>"
  have ev: "get_key_length (ucast (134217744 :: u64)) = 8" "get_value_length (ucast (134217744 :: u64)) = 16" "get_item_offset 281474976710656 = 0"
    "(40 :: u64) AND kOffsetMask \<le> 2097152" "(80 :: u64) AND kOffsetMask \<le> 2097152" by code_simp+
  have f: "find_item_index (small_log d e) ?b 1 1 [k] = 0"
    using small_matches [OF refl, of d k e] assms(1-3) ev(1) by (simp add: find_item_index_def slots_def)
  have idx: "unat (calc_bucket_index ?t 1) = 0" using calc_bucket_index_eq [OF small_table_geometry, of d e 281474976710656 w 1] by (simp add: small_buckets)
  show ?thesis
    unfolding table_get_def Let_def idx using assms ev
    by (auto simp: assertion_def byte_length_def kMaxKeyLength_def kMaxValueLength_def vec_at_def read_version_begin_def small_buckets f kBucketSize_def
        is_valid_def item_kv_length_vec_def item_word_def item_words_def small_log_read)
qed

lemma example_table_small: "example_table = small_table (\<lambda>_. 0) 0 0 0"
  by (simp add: example_table_def small_table_def small_log_def example_log_def empty_bucket_def slots_def kBucketSize_def eval_nat_numeral)

text \<open>C14: A value that grows by one word is stored over the old one and damaged by the next write. On a new table, a key is set to one word and
  then to two; both calls report success, and the second value can be read. It is written in place although it needs one word more
  than the item has, because \<open>set\<close> compares the new size with the size of the old item including the header of the pool. After one
  \<open>set\<close> of another key, \<open>get\<close> still reports success for the first key and returns the size of the other item, 40, as the second word.\<close>

theorem growing_value_corrupted:
  "LTable 20 False False 0 example_log = Inr example_table \<and>
   (\<exists>t1 t2 t3. table_set 1 [k] [a] True example_table = Inr (kSuccess, t1) \<and> table_set 1 [k] [b, c] True t1 = Inr (kSuccess, t2) \<and>
      table_get 1 [k] 16 False t2 = Inr (kSuccess, [b, c], t2) \<and> table_set 65538 [k'] [x] True t2 = Inr (kSuccess, t3) \<and>
      table_get 1 [k] 16 False t3 = Inr (kSuccess, [b, 40], t3))"
proof -
  define d1 :: "nat \<Rightarrow> u64" where "d1 = (\<lambda>_. 0)(0 := 40, 1 := 134217736, 2 := 1, 3 := k, 4 := a)"
  define d2 where "d2 = d1(1 := 134217744, 4 := b, 5 := c)"
  define d3 where "d3 = d2(5 := 40, 6 := 134217736, 7 := 65538, 8 := k', 9 := x)"
  have one: "table_set 1 [k] [a] True example_table = Inr (kSuccess, small_table d1 40 281474976710656 0)"
    unfolding example_table_small d1_def by (rule spill_first)
  have two: "table_set 1 [k] [b, c] True (small_table d1 40 281474976710656 0) = Inr (kSuccess, small_table d2 40 281474976710656 0)"
    unfolding d2_def by (rule spill_second) (simp_all add: d1_def)
  have three: "table_set 65538 [k'] [x] True (small_table d2 40 281474976710656 0) = Inr (kSuccess, small_table d3 80 281474976710656 562949953421352)"
    unfolding d3_def by (rule spill_third) (simp add: d2_def d1_def)
  have "table_get 1 [k] 16 False (small_table d2 40 281474976710656 0) = Inr (kSuccess, [d2 4, d2 5], small_table d2 40 281474976710656 0)"
    by (rule spill_get) (simp_all add: d2_def d1_def)
  moreover have "table_get 1 [k] 16 False (small_table d3 80 281474976710656 562949953421352) =
      Inr (kSuccess, [d3 4, d3 5], small_table d3 80 281474976710656 562949953421352)"
    by (rule spill_get) (simp_all add: d3_def d2_def d1_def)
  moreover have "d2 4 = b" "d2 5 = c" "d3 4 = b" "d3 5 = 40" by (simp_all add: d3_def d2_def)
  ultimately show ?thesis using one two three example_table_created by auto
qed

section \<open>Eviction\<close>

text \<open>How far an entry lies behind the tail, as \<open>get_empty_or_oldest\<close> and \<open>move_to_head\<close> compute it.\<close>

abbreviation distance_from_tail :: "circular_log \<Rightarrow> u64 \<Rightarrow> u64" where
  "distance_from_tail l v \<equiv> (log_tail l - get_item_offset v) AND log_mask l"

lemma empty_or_oldest_minimal:
  assumes "0 \<notin> set vs" and "j = empty_or_oldest l vs i old d"
  shows "(j = old \<and> (\<forall>v\<in>set vs. d \<le> distance_from_tail l v)) \<or>
    (\<exists>k<length vs. j = i + k \<and> distance_from_tail l (vs ! k) < d \<and> (\<forall>v\<in>set vs. distance_from_tail l (vs ! k) \<le> distance_from_tail l v))"
  using assms
proof (induction vs arbitrary: i old d)
  case (Cons v vs)
  let ?d = "distance_from_tail l v"
  show ?case
  proof (cases "d > ?d")
    case True
    then have "j = empty_or_oldest l vs (Suc i) i ?d" using Cons.prems by (simp add: Let_def)
    then consider "j = i" "\<forall>u\<in>set vs. ?d \<le> distance_from_tail l u"
      | k where "k < length vs" "j = Suc i + k" "distance_from_tail l (vs ! k) < ?d" "\<forall>u\<in>set vs. distance_from_tail l (vs ! k) \<le> distance_from_tail l u"
      using Cons.IH [of "Suc i" i ?d] Cons.prems(1) by auto
    then show ?thesis
    proof cases
      case 1
      then show ?thesis using True by (intro disjI2 exI [of _ 0]) simp
    next
      case 2
      then show ?thesis using True by (intro disjI2 exI [of _ "Suc k"]) auto
    qed
  next
    case False
    then have "j = empty_or_oldest l vs (Suc i) old d" using Cons.prems by (simp add: Let_def)
    then consider "j = old" "\<forall>u\<in>set vs. d \<le> distance_from_tail l u"
      | k where "k < length vs" "j = Suc i + k" "distance_from_tail l (vs ! k) < d" "\<forall>u\<in>set vs. distance_from_tail l (vs ! k) \<le> distance_from_tail l u"
      using Cons.IH [of "Suc i" old d] Cons.prems(1) by auto
    then show ?thesis
    proof cases
      case 1
      then show ?thesis using False by auto
    next
      case 2
      then show ?thesis using False by (intro disjI2 exI [of _ "Suc k"]) auto
    qed
  qed
qed simp

text \<open>C15: A full bucket gives up its newest entry. When every slot is taken, \<open>get_empty_or_oldest\<close>, whose result \<open>set\<close> overwrites, returns
  a slot whose item lies nearest behind the tail of the log. Among items that are still there this is the one appended last, not the
  oldest one.\<close>

theorem newest_entry_evicted:
  assumes "length (item_vec b) = kBucketSize" and "0 \<notin> set (item_vec b)" and "v \<in> set (item_vec b)"
  shows "get_empty_or_oldest l b < kBucketSize \<and> distance_from_tail l (item_vec b ! get_empty_or_oldest l b) \<le> distance_from_tail l v"
proof -
  define j where "j = get_empty_or_oldest l b"
  have "j = empty_or_oldest l (item_vec b) 0 0 (- 1)" by (simp add: j_def get_empty_or_oldest_def)
  from empty_or_oldest_minimal [OF assms(2) this]
  consider "j = 0" "\<forall>v\<in>set (item_vec b). - 1 \<le> distance_from_tail l v"
    | k where "k < length (item_vec b)" "j = k" "\<forall>v\<in>set (item_vec b). distance_from_tail l (item_vec b ! k) \<le> distance_from_tail l v" by auto
  then have "j < kBucketSize \<and> distance_from_tail l (item_vec b ! j) \<le> distance_from_tail l v"
  proof cases
    case 1
    have "x \<le> - 1" for x :: u64 by (rule word_order.extremum)
    then show ?thesis using 1 assms(1,3) by (auto simp: kBucketSize_def intro: order_trans)
  next
    case 2
    then show ?thesis using assms(1,3) by simp
  qed
  then show ?thesis by (simp add: j_def)
qed

definition full_bucket :: bucket where
  "full_bucket = \<lparr>version = 0, item_vec = map (\<lambda>i. make_item_vec 7 (of_nat (8 * i) AND kOffsetMask)) [1..<16]\<rparr>"

theorem newest_entry_evicted_witness:
  "get_empty_or_oldest (example_log\<lparr>log_tail := 160\<rparr>) full_bucket < kBucketSize \<and>
   distance_from_tail (example_log\<lparr>log_tail := 160\<rparr>)
     (item_vec full_bucket ! get_empty_or_oldest (example_log\<lparr>log_tail := 160\<rparr>) full_bucket) \<le> 40"
proof -
  let ?v = "make_item_vec 7 (of_nat (8 * 15) AND kOffsetMask)"
  have v: "?v \<in> set (item_vec full_bucket)" unfolding full_bucket_def bucket.simps set_map by (rule imageI) simp
  have z: "0 \<notin> set (item_vec full_bucket)" unfolding full_bucket_def bucket.simps set_map by (auto dest: sym simp del: of_nat_mult)
  have o: "get_item_offset ?v = 120" unfolding get_item_offset_make by code_simp
  have "length (item_vec full_bucket) = kBucketSize" by (simp add: full_bucket_def kBucketSize_def)
  from newest_entry_evicted [OF this z v, of "example_log\<lparr>log_tail := 160\<rparr>"] show ?thesis unfolding o by (simp add: example_log_def)
qed


end
