(* ===== verification/Spec2Isabelle.thy ===== *)
theory Spec2Isabelle
  imports Prelude Lattice_Types Threads Wire Hash_Ring Serializers Kvs_Handlers Kvs_Requests
    Kvs_Server Kvs_Gossip Kvs_Join Kvs_Client_Ops Kvs_Invariant Routing Cluster Requests
    Monitor_Stats Monitor Monitor_Changes Monitor_Safety Client Client_Proofs Client_Cluster
    Mica_Log Mica_Table Mica_Invariant Mica_Cache Mica_Soundness
begin

text \<open>
  A verification development for two stores of this repository: Anna, the autoscaling key-value
  store under \<open>src/src/dist/anna\<close>, and the lossy hash table and circular log of MICA2 under
  \<open>src/src/dist/mica2/src/mica\<close>. Paths below are relative to these directories.

  \<^bold>\<open>Anna.\<close> A cluster has storage servers in two tiers (memory and disk), one process per machine and
  one worker thread per core, routing nodes, a monitoring node and clients. Each key is owned by
  the threads that a two-level consistent hash ring assigns to it. A client asks a routing thread
  for the addresses of a key and sends its request to one of them; a worker thread merges a write
  into a lattice value, answers, and gossips changed keys to the other owners. When machines join
  or leave, or the monitoring node changes the replication factors of a key, the keys move. Parts
  only exchange messages: a handler is a function from the parsed message and the state of its
  thread to the next state, the messages sent and, where the source can raise or run into
  undefined behaviour, a fault (\<open>'a res\<close> of \<open>Prelude\<close>).

  \<^bold>\<open>MICA2.\<close> A table of buckets of fifteen packed entries (a 16-bit tag, a 48-bit offset) over a log of
  items that wraps around its memory. The table never learns that the log has overwritten an item;
  it finds out when it looks at the offset again, or when the clean-up that follows each append
  reaches the bucket.

  \<^bold>\<open>Theories and sources, in the order of their imports.\<close>
  \<^item> \<open>Prelude\<close>: results with faults, unordered maps and sets as lists, decimal strings, \<open>split\<close>.
  \<^item> \<open>Lattice_Types\<close>: \<open>common/include/lattices\<close>; the locales \<open>merge_lattice\<close> and \<open>value_lattice\<close> state
    what a merge promises and are interpreted on every lattice that keeps the promise.
  \<^item> \<open>Threads\<close>: \<open>common/include/threads.hpp\<close> and \<open>include/kvs_threads.hpp\<close>, the addresses of all sockets.
  \<^item> \<open>Wire\<close>: the messages of the \<open>.proto\<close> files, \<open>common/include/common.hpp\<close>, \<open>include/kvs_common.hpp\<close>
    and \<open>include/metadata.hpp\<close>.
  \<^item> \<open>Hash_Ring\<close>: \<open>include/hash_ring.hpp\<close>, \<open>include/consistent_hash_map.hpp\<close>, \<open>include/hashers.hpp\<close> and
    \<open>src/hash_ring/hash_ring.cpp\<close>.
  \<^item> \<open>Serializers\<close>: \<open>include/kvs/base_kv_store.hpp\<close> and \<open>include/kvs/server_utils.hpp\<close>; the locale
    \<open>kv_serializer\<close> is the contract of get, put and remove, interpreted for memory and disk.
  \<^item> \<open>Kvs_Handlers\<close>: the handlers of \<open>src/kvs\<close> and \<open>send_gossip\<close>; \<open>Kvs_Requests\<close>: what they do with client
    requests, gossip and awaited replication factors.
  \<^item> \<open>Kvs_Server\<close>: \<open>run\<close> of \<open>src/kvs/server.cpp\<close>, the start, one iteration of the event loop and the
    periodic tasks.
  \<^item> \<open>Kvs_Gossip\<close>, \<open>Kvs_Join\<close>, \<open>Kvs_Client_Ops\<close>: what gossip and departure deliver, how keys move to a
    joining server, and what a client observes at an owner; the locale \<open>collects_targets\<close> covers the
    loops that gather keys per address.
  \<^item> \<open>Kvs_Invariant\<close>: the invariant of all states of the event loop.
  \<^item> \<open>Routing\<close>: \<open>src/route\<close>. \<open>Cluster\<close>: servers and routing threads agree on the owners of a key.
  \<^item> \<open>Requests\<close>: \<open>common/include/requests.hpp\<close>, waiting for responses with a timeout.
  \<^item> \<open>Monitor_Stats\<close>, \<open>Monitor\<close>: \<open>src/monitor\<close>, the statistics, handlers, policies and the loop.
    \<open>Monitor_Changes\<close>, \<open>Monitor_Safety\<close>: changes of replication factors, and what the policies do.
  \<^item> \<open>Client\<close>: \<open>common/include/client/kvs_client.hpp\<close>, the asynchronous client. \<open>Client_Proofs\<close>: its
    pending requests. \<open>Client_Cluster\<close>: a put through client, routing thread and storage thread.
  \<^item> \<open>Mica_Log\<close>: \<open>pool/circular_log.h\<close>, \<open>pool/circular_log_impl.h\<close>, \<open>util/roundup.h\<close> and the word copies of
    \<open>util/memcpy.h\<close>. \<open>Mica_Table\<close>: \<open>table/ltable.h\<close> and \<open>table/ltable_impl\<close>.
  \<^item> \<open>Mica_Invariant\<close>: which entries a bucket may hold, and the clean-up. \<open>Mica_Cache\<close>: every operation
    keeps the invariant. \<open>Mica_Soundness\<close>: what a user of the table can rely on.

  \<^bold>\<open>What the theorems show.\<close>
  \<^item> Data: set and last-writer-wins replicas converge, causal replicas with equal clocks do not; the disk
    serializer refines the memory one; metadata keys and payloads round-trip; sockets do not collide.
  \<^item> Placement: the ring walk returns the first distinct owners clockwise and diverges exactly when
    there are too few; a join takes keys only to the new server; servers and routing threads that
    started from one membership agree.
  \<^item> Storage threads: an invariant of all reachable states; no tuple of a request is lost; a client reads
    its own write; gossip, departure and join deliver every key they owe; lattice types never change.
  \<^item> Routing, monitoring, clients: requests are answered, also after waiting for a replication
    factor; replication changes are all or nothing; no command is sent in the grace period; a
    put stays pending until it is answered, no longer than its deadline; a put passes through the
    whole system.
  \<^item> MICA2: an item that the log calls valid is intact; the table refines a cache of the values last
    written, through evictions and wrap-arounds of memory and offsets, and a value just written is found.
  \<^item> Faults of the code, each proved for the model: redistribution that never ends, requests of which keys
    are forgotten, feedback without effect, departure reports that are not understood, unsigned
    differences that wrap around, a vector changed while it is traversed, request identifiers that
    repeat, values written past the end of their item, eviction of the newest entry.

  \<^bold>\<open>Parameters.\<close> Code outside the repository is an argument of the definitions that use it: protobuf
  encoding (with its round trip as hypothesis where it is used), \<open>std::hash\<close>, \<open>rand\<close>, \<open>rand_r\<close>, \<open>sqrt\<close>, the
  clock, the content of files and of the log's memory, and what the sockets deliver.

  \<^bold>\<open>Bounds and loops.\<close> Loops are structural recursion over the lists they traverse; \<open>receive\<close> recurses over the
  events of its socket. The ring walk, the pop loop of the log and the clean-up loop are
  \<open>partial_function (option)\<close> and are proved to return, or to diverge, as stated. There is no fuel. The
  theorems on MICA2 cover the first \<open>2\<^sup>6\<^sup>2\<close> bytes appended, long before \<open>head_\<close> and \<open>tail_\<close> wrap around,
  and items below two megabytes, which the limits on keys and values imply; the theorem on the table
  as a cache needs two buckets and values that do not grow while they are stored, since the code
  fails otherwise.

  \<^bold>\<open>Not modelled.\<close> \<open>main\<close> functions, configuration files, logging and the sockets themselves: they only
  pass data on. The Python and command line clients, the benchmark drivers and the messages of the
  Cloudburst layer: they add no state to the store. In MICA2, interleavings of threads inside an operation: each
  operation runs to its end, the bucket versions are kept, the lock of the pool is free between
  operations; the lossless configuration with extra buckets, the segregated-fit pool, the fixed-size
  table, the processors and the network code, which are bound to DPDK, huge pages and etcd. The other
  programs of the repository are benchmarks and samples over libraries (libmemcached, libcuckoo, DPDK).
\<close>

end
